(* ===== verification/Base.thy ===== *)
theory Base
  imports Main "HOL-Library.Word"
begin

text \<open>
  Prelude of the AVANGARD development: the machine types of the Go code, checked slicing and
  indexing (where Go would panic the model says \<open>None\<close>), big-endian integers
  (\<^verbatim>\<open>encoding/binary\<close>), the byte view of Go strings, and the lemmas on lists and words that
  the components share.
\<close>

unbundle bit_operations_syntax

named_theorems go_defs \<open>definitions of the Go primitives, unfolded to evaluate a concrete run\<close>
named_theorems be_simps \<open>big-endian encoders and decoders cancel\<close>

type_synonym byte = "8 word"
type_synonym u16 = "16 word"
type_synonym u32 = "32 word"
type_synonym u64 = "64 word"
type_synonym bytes = "byte list"

text \<open>Go strings are byte sequences; a conversion \<^verbatim>\<open>[]byte(s)\<close> or \<^verbatim>\<open>string(b)\<close> copies the bytes.\<close>

definition byte_of_char :: "char \<Rightarrow> byte" where
  "byte_of_char c = word_of_nat (of_char c)"

definition char_of_byte :: "byte \<Rightarrow> char" where
  "char_of_byte b = char_of (unat b)"

definition bytes_of :: "string \<Rightarrow> bytes" where
  "bytes_of s = map byte_of_char s"

definition string_of :: "bytes \<Rightarrow> string" where
  "string_of b = map char_of_byte b"

lemma unat_byte [simp]: "unat (b :: byte) < 256"
  using unsigned_less [of b] by simp

lemma char_of_byte_of_char [simp]: "char_of_byte (byte_of_char c) = c"
proof -
  have "(of_char c :: nat) < 256"
    by simp
  then have "unat (word_of_nat (of_char c) :: byte) = of_char c"
    by (simp add: unat_of_nat)
  then show ?thesis
    by (simp add: char_of_byte_def byte_of_char_def)
qed

lemma byte_of_char_of_byte [simp]: "byte_of_char (char_of_byte b) = b"
  using unat_byte [of b] by (simp add: byte_of_char_def char_of_byte_def)

lemma string_of_bytes_of [simp]: "string_of (bytes_of s) = s"
  by (simp add: string_of_def bytes_of_def comp_def)

lemma bytes_of_string_of [simp]: "bytes_of (string_of b) = b"
  by (simp add: string_of_def bytes_of_def comp_def)

lemma length_bytes_of [simp]: "length (bytes_of s) = length s"
  by (simp add: bytes_of_def)

lemma length_string_of [simp]: "length (string_of b) = length b"
  by (simp add: string_of_def)

lemma bytes_of_inject [simp]: "bytes_of s = bytes_of t \<longleftrightarrow> s = t"
  by (metis string_of_bytes_of)

lemma string_of_inject [simp]: "string_of s = string_of t \<longleftrightarrow> s = t"
  by (metis bytes_of_string_of)

lemma bytes_of_Nil [simp]: "bytes_of s = [] \<longleftrightarrow> s = []"
  by (simp add: bytes_of_def)

lemma string_of_Nil [simp]: "string_of b = [] \<longleftrightarrow> b = []"
  by (simp add: string_of_def)

subsection \<open>Indexing and slicing that panic out of range\<close>

text \<open>\<^verbatim>\<open>xs[i]\<close> and \<^verbatim>\<open>xs[a:b]\<close>: \<open>None\<close> is Go's run-time panic.\<close>

definition index_at :: "'a list \<Rightarrow> nat \<Rightarrow> 'a option" where
  "index_at xs i = (if i < length xs then Some (xs ! i) else None)"

definition slice :: "'a list \<Rightarrow> nat \<Rightarrow> nat \<Rightarrow> 'a list option" where
  "slice xs a b = (if a \<le> b \<and> b \<le> length xs then Some (take (b - a) (drop a xs)) else None)"

lemma index_at_in [simp]: "i < length xs \<Longrightarrow> index_at xs i = Some (xs ! i)"
  by (simp add: index_at_def)

lemma slice_in [simp]:
  "a \<le> b \<Longrightarrow> b \<le> length xs \<Longrightarrow> slice xs a b = Some (take (b - a) (drop a xs))"
  by (simp add: slice_def)

lemma bind_total:
  "\<exists>x. m = Some x \<Longrightarrow> (\<And>x. m = Some x \<Longrightarrow> \<exists>r. f x = Some r) \<Longrightarrow> \<exists>r. Option.bind m f = Some r"
  by auto

lemma slice_append3:
  "slice (xs @ ys @ zs) (length xs) (length xs + length ys) = Some ys"
  by simp

subsection \<open>Big-endian integers\<close>

text \<open>
  \<^verbatim>\<open>binary.BigEndian.Uint16/AppendUint16\<close> and \<^verbatim>\<open>Uint64/PutUint64\<close>. The readers index their
  argument, so they panic on a short slice; callers in this code always pass enough bytes, and
  the readers below are total on the lists of the right length.
\<close>

definition be16 :: "u16 \<Rightarrow> bytes" where
  "be16 w = [ucast (drop_bit 8 w), ucast w]"

definition uint16 :: "bytes \<Rightarrow> u16" where
  "uint16 b = push_bit 8 (ucast (b ! 0)) OR ucast (b ! 1)"

definition be_word :: "nat \<Rightarrow> 'a::len word \<Rightarrow> bytes" where
  "be_word n w = map (\<lambda>i. ucast (drop_bit (8 * (n - 1 - i)) w)) [0..<n]"

definition word_be :: "bytes \<Rightarrow> 'a::len word" where
  "word_be b = foldl (\<lambda>acc x. push_bit 8 acc OR ucast x) 0 b"

definition be64 :: "u64 \<Rightarrow> bytes" where
  "be64 w = be_word 8 w"

definition uint64 :: "bytes \<Rightarrow> u64" where
  "uint64 b = word_be (take 8 b)"

lemma bit_byte_beyond [simp]: "8 \<le> n \<Longrightarrow> \<not> bit (b :: byte) n"
  using bit_imp_le_length [of b n] by auto

lemma length_be16 [simp]: "length (be16 w) = 2"
  by (simp add: be16_def)

lemma length_be_word [simp]: "length (be_word n w) = n"
  by (simp add: be_word_def)

lemma length_be64 [simp]: "length (be64 w) = 8"
  by (simp add: be64_def)

lemma uint16_be16 [be_simps, simp]: "uint16 (be16 w) = w"
  by (rule bit_word_eqI) (auto simp: uint16_def be16_def bit_simps)

lemma be16_uint16 [be_simps]: "length b = 2 \<Longrightarrow> be16 (uint16 b) = b"
proof -
  assume "length b = 2"
  then obtain x y where b: "b = [x, y]"
    by (auto simp: numeral_2_eq_2 length_Suc_conv)
  have "ucast (drop_bit 8 (push_bit 8 (ucast x) OR ucast y :: u16)) = x"
    by (rule bit_word_eqI) (auto simp: bit_simps)
  moreover have "ucast (push_bit 8 (ucast x) OR ucast y :: u16) = y"
    by (rule bit_word_eqI) (auto simp: bit_simps)
  ultimately show ?thesis
    by (simp add: b be16_def uint16_def)
qed

lemma unat_uint16: "unat (uint16 b) = 256 * unat (b ! 0) + unat (b ! 1)"
proof -
  have disj: "push_bit 8 (ucast (b ! 0)) AND (ucast (b ! 1) :: u16) = 0"
    by (rule bit_word_eqI) (auto simp: bit_simps)
  have "uint16 b = push_bit 8 (ucast (b ! 0)) + ucast (b ! 1)"
    unfolding uint16_def using disj by (simp only: disjunctive_add_eq_or)
  also have "\<dots> = word_of_nat (256 * unat (b ! 0) + unat (b ! 1))"
    by (simp add: push_bit_eq_mult mult.commute)
  finally have eq: "uint16 b = word_of_nat (256 * unat (b ! 0) + unat (b ! 1))" .
  have "unat (b ! 0) < 256" "unat (b ! 1) < 256"
    by (rule unat_byte)+
  then have "256 * unat (b ! 0) + unat (b ! 1) < 65536"
    by linarith
  then show ?thesis
    unfolding eq by (subst unat_of_nat) simp
qed

lemma unat_u16_less: "unat (w :: u16) < 65536"
proof -
  have "unat w < 2 ^ LENGTH(16)"
    by (rule unsigned_less)
  then show ?thesis
    by simp
qed

lemma word_be_Nil [simp]: "word_be [] = 0"
  by (simp add: word_be_def)

lemma word_be_snoc: "word_be (bs @ [x]) = push_bit 8 (word_be bs) OR ucast x"
  by (simp add: word_be_def)

lemma unat_word_be:
  "8 * length bs \<le> LENGTH('a::len) \<Longrightarrow>
   unat (word_be bs :: 'a word) = foldl (\<lambda>a x. 256 * a + unat x) 0 bs
   \<and> unat (word_be bs :: 'a word) < 256 ^ length bs"
proof (induction bs rule: rev_induct)
  case Nil
  then show ?case
    by simp
next
  case (snoc x bs)
  let ?u = "unat (word_be bs :: 'a word)"
  have u: "?u = foldl (\<lambda>a x. 256 * a + unat x) 0 bs" "?u < 256 ^ length bs"
    using snoc by simp_all
  have size: "256 * ?u + unat x < 256 ^ Suc (length bs)"
  proof -
    have "256 * ?u + unat x < 256 * (?u + 1)"
      using unat_byte [of x] by simp
    also have "\<dots> \<le> 256 * 256 ^ length bs"
      using u(2) by simp
    finally show ?thesis
      by simp
  qed
  have "(256 :: nat) ^ Suc (length bs) = (2 ^ 8) ^ Suc (length bs)"
    by simp
  also have "\<dots> = 2 ^ (8 * Suc (length bs))"
    by (rule power_mult [symmetric])
  also have "\<dots> \<le> 2 ^ LENGTH('a)"
    by (rule power_increasing) (use snoc.prems in simp_all)
  finally have fit: "256 * ?u + unat x < 2 ^ LENGTH('a)"
    using size by linarith
  have "push_bit 8 (word_be bs) AND (ucast x :: 'a word) = 0"
    by (rule bit_word_eqI) (auto simp: bit_simps)
  then have "word_be (bs @ [x]) = push_bit 8 (word_be bs) + (ucast x :: 'a word)"
    by (simp only: word_be_snoc disjunctive_add_eq_or)
  also have "\<dots> = word_of_nat (256 * ?u + unat x)"
    by (simp add: push_bit_eq_mult mult.commute)
  finally have "unat (word_be (bs @ [x]) :: 'a word) = 256 * ?u + unat x"
    using fit by (simp only: unat_of_nat) simp
  then show ?case
    using u(1) size by simp
qed

subsection \<open>Lists\<close>

lemma take_append_le: "n \<le> length xs \<Longrightarrow> take n (xs @ ys) = take n xs"
  by simp

lemma length_concat_ge: "xs \<in> set xss \<Longrightarrow> length xs \<le> length (concat xss)"
  by (induction xss) auto

end
