(* ===== verification/Bitset.thy ===== *)
theory Bitset
  imports Base
begin

text \<open>
  Bit arrays packed in 64-bit words, as \<^verbatim>\<open>pkg/replay\<close> and \<^verbatim>\<open>pkg/blocklist\<close> keep them, and
  the interface of an approximate set (a Bloom filter) over them.

  \<open>bit_test\<close> is \<^verbatim>\<open>bits[idx>>6] & (1<<(idx&63)) != 0\<close> and \<open>bit_set\<close> is
  \<^verbatim>\<open>bits[idx>>6] |= 1<<(idx&63)\<close>; \<open>test_loop\<close> and \<open>set_loop\<close> are the two loops
  \<^verbatim>\<open>for i := 0; i < k; i++\<close> around them. \<open>None\<close> is a panic: an index out of range, or an index
  computation \<open>ix\<close> that divides by zero. \<open>marked\<close> is the set of positions whose bit is set.
\<close>

definition bit_test :: "u64 list \<Rightarrow> u64 \<Rightarrow> bool option" where
  "bit_test bits idx =
     map_option (\<lambda>w. w AND push_bit (unat (idx AND 63)) 1 \<noteq> 0)
       (index_at bits (unat (drop_bit 6 idx)))"

definition bit_set :: "u64 list \<Rightarrow> u64 \<Rightarrow> u64 list option" where
  "bit_set bits idx =
     map_option (\<lambda>w. bits[unat (drop_bit 6 idx) := w OR push_bit (unat (idx AND 63)) 1])
       (index_at bits (unat (drop_bit 6 idx)))"

fun test_loop :: "(nat \<Rightarrow> u64 option) \<Rightarrow> nat \<Rightarrow> nat \<Rightarrow> u64 list \<Rightarrow> bool option" where
  "test_loop ix i 0 bits = Some True"
| "test_loop ix i (Suc n) bits =
     (case ix i of
        None \<Rightarrow> None
      | Some idx \<Rightarrow>
        (case bit_test bits idx of
           None \<Rightarrow> None
         | Some hit \<Rightarrow> if hit then test_loop ix (Suc i) n bits else Some False))"

fun set_loop :: "(nat \<Rightarrow> u64 option) \<Rightarrow> nat \<Rightarrow> nat \<Rightarrow> u64 list \<Rightarrow> u64 list option" where
  "set_loop ix i 0 bits = Some bits"
| "set_loop ix i (Suc n) bits =
     (case ix i of
        None \<Rightarrow> None
      | Some idx \<Rightarrow>
        (case bit_set bits idx of
           None \<Rightarrow> None
         | Some bits' \<Rightarrow> set_loop ix (Suc i) n bits'))"

definition marked :: "u64 list \<Rightarrow> nat set" where
  "marked bits = {p. p < 64 * length bits \<and> bit (bits ! (p div 64)) (p mod 64)}"

lemma marked_replicate_0 [simp]: "marked (replicate n 0) = {}"
  by (auto simp: marked_def less_mult_imp_div_less mult.commute)

lemma unat_and_63: "unat (idx AND 63 :: u64) = unat idx mod 64"
proof -
  have "idx AND 63 = take_bit 6 idx"
    by (simp add: take_bit_eq_mask mask_numeral)
  then show ?thesis
    by (simp add: unsigned_take_bit_eq take_bit_eq_mod unat_mod)
qed

lemma unat_shift_6: "unat (drop_bit 6 idx :: u64) = unat idx div 64"
  by (simp add: drop_bit_eq_div unat_div)

lemma and_one_bit: "(w :: u64) AND push_bit n 1 \<noteq> 0 \<longleftrightarrow> n < 64 \<and> bit w n"
proof
  assume "w AND push_bit n 1 \<noteq> 0"
  then obtain j where "bit (w AND push_bit n 1) j"
    using bit_word_eqI [of "w AND push_bit n 1" 0] by auto
  then show "n < 64 \<and> bit w n"
    by (auto simp: bit_simps bit_1_iff)
next
  assume *: "n < 64 \<and> bit w n"
  then have "bit (w AND push_bit n 1) n"
    by (auto simp: bit_simps)
  then show "w AND push_bit n 1 \<noteq> 0"
    by auto
qed

lemma and_power_bit: "n < 64 \<Longrightarrow> (w :: u64) AND 2 ^ n \<noteq> 0 \<longleftrightarrow> bit w n"
  using and_one_bit [of w n] by (simp add: push_bit_eq_mult)

lemma bit_test_marked:
  "unat idx < 64 * length bits \<Longrightarrow> bit_test bits idx = Some (unat idx \<in> marked bits)"
  by (simp add: bit_test_def unat_shift_6 unat_and_63 and_power_bit marked_def less_mult_imp_div_less
      mult.commute)

lemma bit_set_marked:
  assumes "unat idx < 64 * length bits"
  obtains bits' where "bit_set bits idx = Some bits'" "length bits' = length bits"
    "marked bits' = insert (unat idx) (marked bits)"
proof -
  let ?w = "unat idx div 64" and ?b = "unat idx mod 64"
  let ?bits' = "bits[?w := bits ! ?w OR push_bit ?b 1]"
  have lt: "?w < length bits"
    using assms by (simp add: less_mult_imp_div_less mult.commute)
  have "bit_set bits idx = Some ?bits'"
    using lt by (simp add: bit_set_def unat_shift_6 unat_and_63)
  moreover have "p \<in> marked ?bits' \<longleftrightarrow> p = unat idx \<or> p \<in> marked bits" for p
  proof (cases "p div 64 = ?w")
    case True
    then have "p = unat idx \<longleftrightarrow> p mod 64 = ?b"
      by (metis div_mult_mod_eq)
    with True lt assms show ?thesis
      by (auto simp: marked_def bit_simps)
  next
    case False
    then show ?thesis
      by (auto simp: marked_def nth_list_update)
  qed
  ultimately show ?thesis
    using that [of ?bits'] by auto
qed

lemma test_loop_marked:
  assumes "\<And>j. \<exists>idx. ix j = Some idx \<and> unat idx < 64 * length bits"
  shows "test_loop ix i n bits = Some (\<forall>j \<in> {i..<i + n}. unat (the (ix j)) \<in> marked bits)"
proof (induction n arbitrary: i)
  case 0
  then show ?case
    by simp
next
  case (Suc n)
  obtain idx where idx: "ix i = Some idx" "unat idx < 64 * length bits"
    using assms by blast
  have "{i..<i + Suc n} = insert i {Suc i..<Suc i + n}"
    by auto
  with idx Suc show ?case
    by (simp add: bit_test_marked)
qed

lemma set_loop_marked:
  assumes "\<And>j. \<exists>idx. ix j = Some idx \<and> unat idx < 64 * length bits"
  obtains bits' where "set_loop ix i n bits = Some bits'" "length bits' = length bits"
    "marked bits' = marked bits \<union> (\<lambda>j. unat (the (ix j))) ` {i..<i + n}"
proof -
  have "\<exists>bits'. set_loop ix i n bits = Some bits' \<and> length bits' = length bits
      \<and> marked bits' = marked bits \<union> (\<lambda>j. unat (the (ix j))) ` {i..<i + n}"
    using assms
  proof (induction n arbitrary: i bits)
    case 0
    then show ?case
      by simp
  next
    case (Suc n)
    obtain idx where idx: "ix i = Some idx" "unat idx < 64 * length bits"
      using Suc.prems by blast
    obtain b where b: "bit_set bits idx = Some b" "length b = length bits"
      "marked b = insert (unat idx) (marked bits)"
      by (rule bit_set_marked [OF idx(2)])
    obtain b' where "set_loop ix (Suc i) n b = Some b'" "length b' = length b"
      "marked b' = marked b \<union> (\<lambda>j. unat (the (ix j))) ` {Suc i..<Suc i + n}"
      using Suc.IH [of b "Suc i"] Suc.prems b(2) by auto
    moreover have "{i..<i + Suc n} = insert i {Suc i..<Suc i + n}"
      by auto
    ultimately show ?case
      using idx b by auto
  qed
  with that show ?thesis
    by blast
qed

text \<open>Both packages round the number of bits up to a multiple of 64, in 64-bit arithmetic.\<close>

definition round_up_64 :: "u64 \<Rightarrow> u64" where
  "round_up_64 m = (if m mod 64 \<noteq> 0 then m + (64 - m mod 64) else m)"

lemma round_up_64_ok:
  assumes "m \<noteq> 0" "unat m \<le> 2 ^ 64 - 64"
  shows "round_up_64 m \<noteq> 0" "64 dvd unat (round_up_64 m)"
    "unat m \<le> unat (round_up_64 m)" "unat (round_up_64 m) < unat m + 64"
proof -
  have r: "unat (m mod 64) = unat m mod 64"
    by (simp add: unat_mod)
  have zero: "m mod 64 = 0 \<longleftrightarrow> unat m mod 64 = 0"
    using r by (metis unat_eq_zero)
  have up: "unat (round_up_64 m) = (if unat m mod 64 = 0 then unat m else unat m + (64 - unat m mod 64))"
  proof (cases "unat m mod 64 = 0")
    case True
    then show ?thesis
      by (simp add: round_up_64_def zero)
  next
    case False
    have sub: "unat (64 - m mod 64 :: u64) = 64 - unat m mod 64"
      using r by (simp add: unat_sub word_le_nat_alt)
    have lt: "unat m + (64 - unat m mod 64) < 2 ^ 64"
    proof -
      have "unat m = 64 * (unat m div 64) + unat m mod 64"
        by simp
      then show ?thesis
        using False assms(2) mod_less_divisor [of 64 "unat m"] by linarith
    qed
    have "unat (m + (64 - m mod 64)) = unat m + unat (64 - m mod 64)"
    proof (rule unat_add_lem [THEN iffD1])
      have "(2 :: nat) ^ LENGTH(64) = 2 ^ 64"
        by simp
      with lt show "unat m + unat (64 - m mod 64) < 2 ^ LENGTH(64)"
        by (simp only: sub)
    qed
    with False show ?thesis
      by (simp only: round_up_64_def zero sub if_True if_False not_False_eq_True)
  qed
  show "64 dvd unat (round_up_64 m)"
    unfolding up by presburger
  show le: "unat m \<le> unat (round_up_64 m)" and "unat (round_up_64 m) < unat m + 64"
    unfolding up using mod_less_divisor [of 64 "unat m"] by (auto split: if_split)
  moreover have "0 < unat m"
    using assms(1) by (simp add: unat_gt_0)
  ultimately have "unat (round_up_64 m) \<noteq> 0"
    by linarith
  then show "round_up_64 m \<noteq> 0"
    by auto
qed

subsection \<open>The interface of an approximate set\<close>

text \<open>
  The contract of a filter: from an invariant state an insertion does not panic, keeps the
  invariant and adds the key's positions to the marks; a lookup does not panic and answers
  whether all positions of the key are marked.
\<close>

locale approx_set =
  fixes insert_op :: "'k \<Rightarrow> 's \<Rightarrow> 's option"
    and member_op :: "'k \<Rightarrow> 's \<Rightarrow> bool option"
    and inv :: "'s \<Rightarrow> bool"
    and marks :: "'s \<Rightarrow> nat set"
    and positions :: "'s \<Rightarrow> 'k \<Rightarrow> nat set"
  assumes insert_ok: "inv s \<Longrightarrow> \<exists>s'. insert_op k s = Some s' \<and> inv s'
      \<and> marks s' = marks s \<union> positions s k \<and> positions s' = positions s"
    and member_ok: "inv s \<Longrightarrow> member_op k s = Some (positions s k \<subseteq> marks s)"
begin

fun insert_all :: "'k list \<Rightarrow> 's \<Rightarrow> 's option" where
  "insert_all [] s = Some s"
| "insert_all (k # ks) s = Option.bind (insert_op k s) (insert_all ks)"

lemma insert_all_ok:
  "inv s \<Longrightarrow> \<exists>s'. insert_all ks s = Some s' \<and> inv s' \<and> positions s' = positions s
     \<and> marks s' = marks s \<union> (\<Union>k \<in> set ks. positions s k)"
proof (induction ks arbitrary: s)
  case Nil
  then show ?case
    by simp
next
  case (Cons k ks)
  obtain t where "insert_op k s = Some t" "inv t" "marks t = marks s \<union> positions s k"
    "positions t = positions s"
    using insert_ok [OF Cons.prems] by blast
  with Cons.IH [of t] show ?case
    by auto
qed

text \<open>No false negatives: what was inserted is found, whatever is inserted afterwards.\<close>

lemma no_false_negative:
  assumes "inv s" and "k \<in> set ks" and "insert_all ks s = Some s'"
  shows "member_op k s' = Some True"
proof -
  have "inv s'" "positions s' = positions s" "marks s' = marks s \<union> (\<Union>k \<in> set ks. positions s k)"
    using insert_all_ok [OF assms(1), of ks] assms(3) by auto
  then show ?thesis
    using assms(2) by (auto simp: member_ok)
qed

text \<open>A lookup that hits keeps hitting.\<close>

lemma insert_keeps_member:
  assumes "inv s" and "member_op k s = Some True" and "insert_op k' s = Some s'"
  shows "member_op k s' = Some True"
proof -
  have "inv s'" "positions s' = positions s" "marks s' = marks s \<union> positions s k'"
    using insert_ok [OF assms(1), of k'] assms(3) by auto
  then show ?thesis
    using assms(1,2) by (auto simp: member_ok)
qed

lemma insert_member:
  assumes "inv s" and "insert_op k s = Some s'"
  shows "member_op k s' = Some True"
proof -
  have "inv s'" "positions s' = positions s" "marks s' = marks s \<union> positions s k"
    using insert_ok [OF assms(1), of k] assms(2) by auto
  then show ?thesis
    by (auto simp: member_ok)
qed

end

end
