(* ===== verification/Replay.thy ===== *)
theory Replay
  imports Bitset Sha256
begin

text \<open>
  0-RTT replay protection, \<^verbatim>\<open>pkg/replay/bloom.go\<close>: the Bloom filter, the rotating pair of
  filters and \<^verbatim>\<open>Check\<close>.

  A \<^verbatim>\<open>time.Time\<close> is its Unix time in nanoseconds (an int); a \<^verbatim>\<open>time.Duration\<close> is a signed 64-bit
  word, so \<^verbatim>\<open>Time.Sub\<close> saturates and the negation in \<^verbatim>\<open>abs\<close> wraps as in Go. The clock
  \<^verbatim>\<open>f.now()\<close> is an argument of each operation. \<open>None\<close> is a panic (a division by \<open>m = 0\<close> or an
  index out of range); \<open>filter_ok\<close> is the invariant under which there is none.
\<close>

type_synonym time = int
type_synonym duration = "64 word"

definition time_sub :: "time \<Rightarrow> time \<Rightarrow> duration" where
  "time_sub t u = word_of_int (max (- (2 ^ 63)) (min (2 ^ 63 - 1) (t - u)))"

definition time_add :: "time \<Rightarrow> duration \<Rightarrow> time" where
  "time_add t d = t + sint d"

definition abs_dur :: "duration \<Rightarrow> duration" where
  "abs_dur d = (if sint d < 0 then - d else d)"

definition DefaultBits :: u64 where "DefaultBits = push_bit 28 1"
definition DefaultHashes :: int where "DefaultHashes = 7"
definition DefaultRotateRate :: duration where "DefaultRotateRate = 60 * 1000000000"
definition DefaultClockSkew :: duration where "DefaultClockSkew = 5 * 1000000000"

datatype replay_err = ErrReplay | ErrSkew

subsection \<open>The Bloom filter\<close>

record bloom =
  bm :: u64
  bbits :: "u64 list"

definition newBloom :: "u64 \<Rightarrow> bloom" where
  "newBloom m = \<lparr>bm = m, bbits = replicate (unat (m div 64)) 0\<rparr>"

definition bloomIdx :: "bytes \<Rightarrow> nat \<Rightarrow> u64 \<Rightarrow> u64 option" where
  "bloomIdx key i m =
     (let h1 = uint64 (take 8 key);
          h2 = uint64 (take 8 (drop 8 key))
      in if m = 0 then None else Some ((h1 + word_of_nat i * h2) mod m))"

definition bloom_add :: "bloom \<Rightarrow> bytes \<Rightarrow> int \<Rightarrow> bloom option" where
  "bloom_add b key k =
     map_option (\<lambda>bits. b\<lparr>bbits := bits\<rparr>)
       (set_loop (\<lambda>i. bloomIdx key i (bm b)) 0 (nat k) (bbits b))"

definition bloom_contains :: "bloom \<Rightarrow> bytes \<Rightarrow> int \<Rightarrow> bool option" where
  "bloom_contains b key k = test_loop (\<lambda>i. bloomIdx key i (bm b)) 0 (nat k) (bbits b)"

subsection \<open>The rotating filter\<close>

record options =
  Bits :: u64
  Hashes :: int
  ClockSkew :: duration
  RotateRate :: duration

record replay_filter =
  fbits :: u64
  hashes :: int
  skew :: duration
  rotateRate :: duration
  curr :: bloom
  prev :: bloom
  rotateAt :: time

definition newFilter :: "options \<Rightarrow> time \<Rightarrow> replay_filter" where
  "newFilter opts now =
     (let bits = round_up_64 (if Bits opts = 0 then DefaultBits else Bits opts);
          ks = (if Hashes opts = 0 then DefaultHashes else Hashes opts);
          sk = (if ClockSkew opts = 0 then DefaultClockSkew else ClockSkew opts);
          rate = (if RotateRate opts = 0 then DefaultRotateRate else RotateRate opts)
      in \<lparr>fbits = bits, hashes = ks, skew = sk, rotateRate = rate,
          curr = newBloom bits, prev = newBloom bits, rotateAt = time_add now rate\<rparr>)"

definition maybeRotate :: "replay_filter \<Rightarrow> time \<Rightarrow> replay_filter" where
  "maybeRotate f now =
     (if \<not> now < rotateAt f
      then f\<lparr>prev := curr f, curr := newBloom (fbits f), rotateAt := time_add now (rotateRate f)\<rparr>
      else f)"

definition digest :: "time \<Rightarrow> bytes \<Rightarrow> bytes" where
  "digest ts nonce = sha256 (be64 (word_of_int ts) @ nonce)"

text \<open>\<^verbatim>\<open>f.curr.contains(key, f.hashes) || f.prev.contains(key, f.hashes)\<close>\<close>

definition seen :: "replay_filter \<Rightarrow> bytes \<Rightarrow> bool option" where
  "seen f key =
     (case bloom_contains (curr f) key (hashes f) of
        None \<Rightarrow> None
      | Some True \<Rightarrow> Some True
      | Some False \<Rightarrow> bloom_contains (prev f) key (hashes f))"

text \<open>The section of \<^verbatim>\<open>Check\<close> under the write lock: look again, then record the key.\<close>

definition check_commit :: "replay_filter \<Rightarrow> bytes \<Rightarrow> (replay_err option \<times> replay_filter) option" where
  "check_commit f key =
     (case seen f key of
        None \<Rightarrow> None
      | Some hit \<Rightarrow>
        if hit then Some (Some ErrReplay, f)
        else map_option (\<lambda>b. (None, f\<lparr>curr := b\<rparr>)) (bloom_add (curr f) key (hashes f)))"

definition skew_ok :: "replay_filter \<Rightarrow> time \<Rightarrow> time \<Rightarrow> bool" where
  "skew_ok f now client_ts \<longleftrightarrow> \<not> sint (skew f) < sint (abs_dur (time_sub now client_ts))"

definition check :: "replay_filter \<Rightarrow> time \<Rightarrow> time \<Rightarrow> bytes \<Rightarrow> (replay_err option \<times> replay_filter) option" where
  "check f now client_ts nonce =
     (if \<not> skew_ok f now client_ts then Some (Some ErrSkew, f)
      else
        let f1 = maybeRotate f now; key = digest client_ts nonce in
        (case seen f1 key of
           None \<Rightarrow> None
         | Some hit \<Rightarrow> if hit then Some (Some ErrReplay, f1) else check_commit f1 key))"

text \<open>A server's life: checks one after the other, each with the clock reading it sees.\<close>

fun check_run :: "replay_filter \<Rightarrow> (time \<times> time \<times> bytes) list \<Rightarrow> (replay_err option list \<times> replay_filter) option" where
  "check_run f [] = Some ([], f)"
| "check_run f ((now, ts, nonce) # reqs) =
     (case check f now ts nonce of
        None \<Rightarrow> None
      | Some (r, f') \<Rightarrow> map_option (\<lambda>(rs, f''). (r # rs, f'')) (check_run f' reqs))"

subsection \<open>The filter meets the interface of an approximate set\<close>

definition bloom_ok :: "u64 \<Rightarrow> bloom \<Rightarrow> bool" where
  "bloom_ok m b \<longleftrightarrow> bm b = m \<and> m \<noteq> 0 \<and> 64 dvd unat m \<and> length (bbits b) = unat m div 64"

definition bloom_pos :: "bytes \<Rightarrow> int \<Rightarrow> u64 \<Rightarrow> nat set" where
  "bloom_pos key k m = (\<lambda>i. unat (the (bloomIdx key i m))) ` {0..<nat k}"

lemma bloomIdx_range:
  assumes "bloom_ok m b"
  shows "\<exists>idx. bloomIdx key i (bm b) = Some idx \<and> unat idx < 64 * length (bbits b)"
proof -
  have m: "m \<noteq> 0" "bm b = m" and len: "64 * length (bbits b) = unat m"
    using assms by (auto simp: bloom_ok_def)
  have "0 < unat m"
    using m(1) by (simp add: unat_gt_0)
  then show ?thesis
    using m by (simp add: bloomIdx_def Let_def len unat_mod)
qed

interpretation bloom: approx_set
  "\<lambda>key b. bloom_add b key k" "\<lambda>key b. bloom_contains b key k" "bloom_ok m"
  "\<lambda>b. marked (bbits b)" "\<lambda>b key. bloom_pos key k (bm b)" for k m
proof unfold_locales
  fix b key
  assume ok: "bloom_ok m b"
  obtain bits where bits: "set_loop (\<lambda>i. bloomIdx key i (bm b)) 0 (nat k) (bbits b) = Some bits"
    "length bits = length (bbits b)"
    "marked bits = marked (bbits b) \<union> (\<lambda>j. unat (the (bloomIdx key j (bm b)))) ` {0..<0 + nat k}"
    by (rule set_loop_marked [of "\<lambda>i. bloomIdx key i (bm b)" "bbits b" 0 "nat k", OF bloomIdx_range [OF ok]])
  then show "\<exists>s'. bloom_add b key k = Some s' \<and> bloom_ok m s'
      \<and> marked (bbits s') = marked (bbits b) \<union> bloom_pos key k (bm b)
      \<and> (\<lambda>key. bloom_pos key k (bm s')) = (\<lambda>key. bloom_pos key k (bm b))"
    using ok by (simp add: bloom_add_def bloom_ok_def bloom_pos_def)
next
  fix b key
  assume ok: "bloom_ok m b"
  show "bloom_contains b key k = Some (bloom_pos key k (bm b) \<subseteq> marked (bbits b))"
    unfolding bloom_contains_def bloom_pos_def
    by (subst test_loop_marked [OF bloomIdx_range [OF ok]]) auto
qed

lemma newBloom_ok: "m \<noteq> 0 \<Longrightarrow> 64 dvd unat m \<Longrightarrow> bloom_ok m (newBloom m)"
  by (simp add: bloom_ok_def newBloom_def unat_div)

lemma newBloom_marked [simp]: "marked (bbits (newBloom m)) = {}"
  by (simp add: newBloom_def)

subsection \<open>The invariant\<close>

definition filter_ok :: "replay_filter \<Rightarrow> bool" where
  "filter_ok f \<longleftrightarrow> bloom_ok (fbits f) (curr f) \<and> bloom_ok (fbits f) (prev f)"

lemma filter_okD:
  assumes "filter_ok f"
  shows "bloom_ok (fbits f) (curr f)" "bloom_ok (fbits f) (prev f)" "fbits f \<noteq> 0" "64 dvd unat (fbits f)"
  using assms by (auto simp: filter_ok_def bloom_ok_def)

lemma maybeRotate_ok: "filter_ok f \<Longrightarrow> filter_ok (maybeRotate f now)"
proof -
  assume ok: "filter_ok f"
  have "bloom_ok (fbits f) (newBloom (fbits f))"
    by (rule newBloom_ok [OF filter_okD(3,4) [OF ok]])
  with ok show ?thesis
    by (simp add: maybeRotate_def filter_ok_def)
qed

lemma maybeRotate_fields [simp]:
  "fbits (maybeRotate f now) = fbits f" "hashes (maybeRotate f now) = hashes f"
  "skew (maybeRotate f now) = skew f" "rotateRate (maybeRotate f now) = rotateRate f"
  by (simp_all add: maybeRotate_def)

text \<open>What the filter remembers of a key, in the current and in the previous bloom.\<close>

definition in_curr :: "replay_filter \<Rightarrow> bytes \<Rightarrow> bool" where
  "in_curr f key \<longleftrightarrow> bloom_contains (curr f) key (hashes f) = Some True"

definition in_prev :: "replay_filter \<Rightarrow> bytes \<Rightarrow> bool" where
  "in_prev f key \<longleftrightarrow> bloom_contains (prev f) key (hashes f) = Some True"

lemma seen_eq: "filter_ok f \<Longrightarrow> seen f key = Some (in_curr f key \<or> in_prev f key)"
  using bloom.member_ok [OF filter_okD(1)] bloom.member_ok [OF filter_okD(2)]
  by (simp add: seen_def in_curr_def in_prev_def split: option.splits bool.splits)

lemma check_commit_hit:
  "filter_ok f \<Longrightarrow> in_curr f key \<or> in_prev f key \<Longrightarrow> check_commit f key = Some (Some ErrReplay, f)"
  by (simp add: check_commit_def seen_eq)

lemma check_commit_fresh:
  assumes ok: "filter_ok f" and new: "\<not> in_curr f key" "\<not> in_prev f key"
  obtains b where "bloom_add (curr f) key (hashes f) = Some b"
    "check_commit f key = Some (None, f\<lparr>curr := b\<rparr>)" "filter_ok (f\<lparr>curr := b\<rparr>)"
    "in_curr (f\<lparr>curr := b\<rparr>) key" "\<And>key'. in_curr f key' \<Longrightarrow> in_curr (f\<lparr>curr := b\<rparr>) key'"
    "\<And>key'. in_prev (f\<lparr>curr := b\<rparr>) key' = in_prev f key'"
proof -
  obtain b where b: "bloom_add (curr f) key (hashes f) = Some b" "bloom_ok (fbits f) b"
    using bloom.insert_ok [OF filter_okD(1) [OF ok]] by blast
  show ?thesis
  proof (rule that [OF b(1)])
    show "check_commit f key = Some (None, f\<lparr>curr := b\<rparr>)"
      using ok new b(1) by (simp add: check_commit_def seen_eq)
    show "filter_ok (f\<lparr>curr := b\<rparr>)"
      using ok b(2) by (simp add: filter_ok_def)
    show "in_curr (f\<lparr>curr := b\<rparr>) key"
      using bloom.insert_member [OF filter_okD(1) [OF ok] b(1)] by (simp add: in_curr_def)
    show "in_curr f key' \<Longrightarrow> in_curr (f\<lparr>curr := b\<rparr>) key'" for key'
      using bloom.insert_keeps_member [OF filter_okD(1) [OF ok] _ b(1)] by (simp add: in_curr_def)
    show "in_prev (f\<lparr>curr := b\<rparr>) key' = in_prev f key'" for key'
      by (simp add: in_prev_def)
  qed
qed

text \<open>
  One check, by cases: refused for its timestamp, refused as a replay, or accepted and recorded.
\<close>

lemma check_cases:
  assumes "filter_ok f"
  obtains (refused) "\<not> skew_ok f now ts" "check f now ts nonce = Some (Some ErrSkew, f)"
  | (replay) "skew_ok f now ts" "check f now ts nonce = Some (Some ErrReplay, maybeRotate f now)"
      "in_curr (maybeRotate f now) (digest ts nonce) \<or> in_prev (maybeRotate f now) (digest ts nonce)"
  | (fresh) b where "skew_ok f now ts"
      "bloom_add (curr (maybeRotate f now)) (digest ts nonce) (hashes f) = Some b"
      "check f now ts nonce = Some (None, (maybeRotate f now)\<lparr>curr := b\<rparr>)"
      "filter_ok ((maybeRotate f now)\<lparr>curr := b\<rparr>)"
      "\<not> in_curr (maybeRotate f now) (digest ts nonce)" "\<not> in_prev (maybeRotate f now) (digest ts nonce)"
      "in_curr ((maybeRotate f now)\<lparr>curr := b\<rparr>) (digest ts nonce)"
      "\<And>key'. in_curr (maybeRotate f now) key' \<Longrightarrow> in_curr ((maybeRotate f now)\<lparr>curr := b\<rparr>) key'"
      "\<And>key'. in_prev ((maybeRotate f now)\<lparr>curr := b\<rparr>) key' = in_prev (maybeRotate f now) key'"
proof -
  let ?f1 = "maybeRotate f now" and ?key = "digest ts nonce"
  have ok1: "filter_ok ?f1"
    using assms by (rule maybeRotate_ok)
  consider "\<not> skew_ok f now ts" | "skew_ok f now ts" "in_curr ?f1 ?key \<or> in_prev ?f1 ?key"
    | "skew_ok f now ts" "\<not> in_curr ?f1 ?key" "\<not> in_prev ?f1 ?key"
    by blast
  then show ?thesis
  proof cases
    case 1
    then show ?thesis
      by (intro refused) (simp_all add: check_def)
  next
    case 2
    then show ?thesis
      by (intro replay) (simp_all add: check_def Let_def seen_eq [OF ok1])
  next
    case 3
    show ?thesis
      by (rule check_commit_fresh [OF ok1 3(2,3)], rule fresh)
        (use 3 in \<open>simp_all add: check_def Let_def seen_eq [OF ok1]\<close>)
  qed
qed

lemma check_ok:
  assumes "filter_ok f"
  shows "\<exists>r f'. check f now ts nonce = Some (r, f') \<and> filter_ok f' \<and> fbits f' = fbits f
    \<and> hashes f' = hashes f \<and> skew f' = skew f \<and> rotateRate f' = rotateRate f"
  by (rule check_cases [OF assms, of now ts nonce]) (auto simp: assms maybeRotate_ok)

lemma check_run_ok:
  "filter_ok f \<Longrightarrow> \<exists>rs f'. check_run f reqs = Some (rs, f') \<and> filter_ok f' \<and> length rs = length reqs
    \<and> hashes f' = hashes f \<and> skew f' = skew f \<and> rotateRate f' = rotateRate f"
proof (induction reqs arbitrary: f)
  case Nil
  then show ?case
    by simp
next
  case (Cons req reqs)
  obtain now ts nonce where req: "req = (now, ts, nonce)"
    by (metis prod_cases3)
  obtain r f1 where f1: "check f now ts nonce = Some (r, f1)" "filter_ok f1"
    "hashes f1 = hashes f" "skew f1 = skew f" "rotateRate f1 = rotateRate f"
    using check_ok [OF Cons.prems] by blast
  with Cons.IH [of f1] show ?case
    by (auto simp: req)
qed

subsection \<open>The timestamp window\<close>

lemma sint_word_of_int_63:
  assumes "- (2 ^ 63) \<le> i" "i < 2 ^ 63"
  shows "sint (word_of_int i :: duration) = i"
  using assms by (simp add: signed_of_int signed_take_bit_int_eq_self)

lemma sint_time_sub: "sint (time_sub t u) = max (- (2 ^ 63)) (min (2 ^ 63 - 1) (t - u))"
  unfolding time_sub_def by (rule sint_word_of_int_63) auto

lemma sint_range: "- (2 ^ 63) \<le> sint (d :: duration)" "sint d < 2 ^ 63"
  using sint_ge [of d] sint_lt [of d] by simp_all

lemma sint_abs_dur: "sint (abs_dur d) = (if sint d = - (2 ^ 63) then - (2 ^ 63) else \<bar>sint d\<bar>)"
proof -
  have neg: "- d = word_of_int (- sint d)"
    by simp
  show ?thesis
  proof (cases "sint d = - (2 ^ 63)")
    case True
    have "d = word_of_int (sint d)"
      by simp
    also have "\<dots> = word_of_int (- (2 ^ 63))"
      by (simp only: True)
    finally have d: "d = word_of_int (- (2 ^ 63))" .
    have "- d = d"
      unfolding d by simp
    then have "sint (- d) = - (2 ^ 63)"
      by (simp only: True)
    with True show ?thesis
      by (simp add: abs_dur_def)
  next
    case False
    then show ?thesis
      using sint_range [of d] sint_word_of_int_63 [of "- sint d"] by (auto simp: abs_dur_def)
  qed
qed

lemma skew_ok_iff:
  assumes "0 \<le> sint (skew f)" "sint (skew f) < 2 ^ 63 - 1"
  shows "skew_ok f now ts \<longleftrightarrow> \<bar>now - ts\<bar> \<le> sint (skew f) \<or> now - ts \<le> - (2 ^ 63)"
  unfolding skew_ok_def sint_abs_dur sint_time_sub using assms by auto

subsection \<open>How long a key is remembered\<close>

text \<open>
  \<open>kept f key t\<close>: a key recorded at time \<open>t\<close> is in the current bloom, which is rotated after
  \<open>t\<close>, or in the previous one, which is dropped later than one rotation period after \<open>t\<close>.
\<close>

definition kept :: "replay_filter \<Rightarrow> bytes \<Rightarrow> time \<Rightarrow> bool" where
  "kept f key t \<longleftrightarrow> (in_curr f key \<and> t < rotateAt f)
     \<or> (in_prev f key \<and> t + sint (rotateRate f) < rotateAt f)"

lemma kept_rotate:
  assumes "kept f key t" and "now \<le> t + sint (rotateRate f)"
  shows "kept (maybeRotate f now) key t"
  using assms
  by (auto simp: kept_def maybeRotate_def in_curr_def in_prev_def time_add_def)

lemma kept_check:
  assumes ok: "filter_ok f" and "kept f key t" and "now \<le> t + sint (rotateRate f)"
    and chk: "check f now ts nonce = Some (r, f')"
  shows "kept f' key t"
proof -
  have k1: "kept (maybeRotate f now) key t"
    by (rule kept_rotate [OF assms(2,3)])
  show ?thesis
    by (rule check_cases [OF ok, of now ts nonce]) (use assms k1 in \<open>auto simp: kept_def\<close>)
qed

lemma kept_run:
  assumes "filter_ok f" and "kept f key t"
    and "\<forall>(now, _, _) \<in> set reqs. now \<le> t + sint (rotateRate f)"
    and "check_run f reqs = Some (rs, f')"
  shows "kept f' key t"
  using assms
proof (induction reqs arbitrary: f rs)
  case Nil
  then show ?case
    by simp
next
  case (Cons req reqs)
  obtain now ts nonce where req: "req = (now, ts, nonce)"
    by (metis prod_cases3)
  obtain r f1 where f1: "check f now ts nonce = Some (r, f1)" "filter_ok f1"
    "rotateRate f1 = rotateRate f"
    using check_ok [OF Cons.prems(1)] by blast
  then obtain rs' where "check_run f1 reqs = Some (rs', f')"
    using Cons.prems(4) by (auto simp: req split: option.splits)
  moreover have "kept f1 key t"
    using kept_check [OF Cons.prems(1,2) _ f1(1)] Cons.prems(3) by (simp add: req)
  ultimately show ?case
    using Cons.IH f1 Cons.prems(3) by auto
qed

lemma kept_rejected:
  assumes "filter_ok f" and "kept f (digest ts nonce) t" and "now \<le> t + sint (rotateRate f)"
  shows "\<exists>err f'. check f now ts nonce = Some (Some err, f')"
proof -
  have k: "kept (maybeRotate f now) (digest ts nonce) t"
    by (rule kept_rotate [OF assms(2,3)])
  show ?thesis
    by (rule check_cases [OF assms(1), of now ts nonce]) (use k in \<open>simp_all add: kept_def\<close>)
qed

lemma accepted_kept:
  assumes "filter_ok f" and "0 < sint (rotateRate f)"
    and "check f now ts nonce = Some (None, f')"
  shows "kept f' (digest ts nonce) now"
proof -
  have "now < rotateAt (maybeRotate f now)"
    using assms(2) by (simp add: maybeRotate_def time_add_def)
  moreover have "in_curr f' (digest ts nonce) \<and> rotateAt f' = rotateAt (maybeRotate f now)"
    by (rule check_cases [OF assms(1), of now ts nonce]) (use assms(3) in simp_all)
  ultimately show ?thesis
    by (simp add: kept_def)
qed

lemma accepted_skew: "check f now ts nonce = Some (None, f') \<Longrightarrow> skew_ok f now ts"
  by (auto simp: check_def split: if_splits)

subsection \<open>A new filter\<close>

definition bits_or_default :: "options \<Rightarrow> u64" where
  "bits_or_default opts = (if Bits opts = 0 then DefaultBits else Bits opts)"

lemma bits_or_default_pos: "bits_or_default opts \<noteq> 0"
  by (simp add: bits_or_default_def DefaultBits_def)

lemma newFilter_fbits: "fbits (newFilter opts now) = round_up_64 (bits_or_default opts)"
  by (simp add: newFilter_def Let_def bits_or_default_def)

lemma newFilter_ok:
  assumes "unat (bits_or_default opts) \<le> 2 ^ 64 - 64"
  shows "filter_ok (newFilter opts now)"
proof -
  have "bloom_ok (fbits (newFilter opts now)) (newBloom (fbits (newFilter opts now)))"
    unfolding newFilter_fbits
    by (intro newBloom_ok round_up_64_ok [OF bits_or_default_pos assms])
  then show ?thesis
    by (simp add: filter_ok_def newFilter_def Let_def)
qed

lemma fresh_accepted:
  assumes ok: "filter_ok f" and "0 < hashes f" and "skew_ok f now ts"
    and "marked (bbits (curr f)) = {}" "marked (bbits (prev f)) = {}"
  shows "\<exists>f'. check f now ts nonce = Some (None, f')"
proof -
  have pos: "bloom_pos key (hashes f) m \<noteq> {}" for key m
    using assms(2) by (simp add: bloom_pos_def)
  have ok1: "filter_ok (maybeRotate f now)"
    by (rule maybeRotate_ok [OF ok])
  have "marked (bbits (curr (maybeRotate f now))) = {}" "marked (bbits (prev (maybeRotate f now))) = {}"
    using assms(4,5) by (simp_all add: maybeRotate_def)
  then have fresh: "\<not> in_curr (maybeRotate f now) key" "\<not> in_prev (maybeRotate f now) key" for key
    using bloom.member_ok [OF filter_okD(1) [OF ok1]] bloom.member_ok [OF filter_okD(2) [OF ok1]] pos
    by (simp_all add: in_curr_def in_prev_def)
  show ?thesis
    by (rule check_cases [OF ok, of now ts nonce]) (use assms(3) fresh in simp_all)
qed

lemma newFilter_marked:
  "marked (bbits (curr (newFilter opts now))) = {}" "marked (bbits (prev (newFilter opts now))) = {}"
  by (simp_all add: newFilter_def Let_def)

subsection \<open>Properties\<close>



text \<open>A small filter with the default clock settings, for the witnesses.\<close>

definition sample_options :: options where
  "sample_options = \<lparr>Bits = 1000, Hashes = 0, ClockSkew = 0, RotateRate = 0\<rparr>"

lemma sample_filter:
  "filter_ok (newFilter sample_options now)" "hashes (newFilter sample_options now) = 7"
  "sint (skew (newFilter sample_options now)) = 5000000000"
  "sint (rotateRate (newFilter sample_options now)) = 60000000000"
proof -
  show "filter_ok (newFilter sample_options now)"
    by (rule newFilter_ok) (simp add: bits_or_default_def sample_options_def)
  show "hashes (newFilter sample_options now) = 7"
    "sint (skew (newFilter sample_options now)) = 5000000000"
    "sint (rotateRate (newFilter sample_options now)) = 60000000000"
    by (simp_all add: newFilter_def Let_def sample_options_def DefaultHashes_def
        DefaultClockSkew_def DefaultRotateRate_def)
qed

lemma sample_accepts:
  "\<exists>f'. check (newFilter sample_options 0) 0 0 nonce = Some (None, f')"
  by (intro fresh_accepted sample_filter newFilter_marked)
    (simp_all add: sample_filter skew_ok_iff)


text \<open>A recorded request is remembered for one whole rotation period: if a request was accepted
  at time \<open>t0\<close>, then whatever other requests were checked since, as long as the clock stays within
  \<open>rotateRate\<close> of \<open>t0\<close>, the same timestamp and nonce are refused.\<close>

theorem replay_refused_within_period:
  assumes "filter_ok f" and "0 < sint (rotateRate f)"
    and "check f t0 ts nonce = Some (None, f1)"
    and "check_run f1 reqs = Some (rs, f2)"
    and "\<forall>(now, _, _) \<in> set reqs. now \<le> t0 + sint (rotateRate f)"
    and "t1 \<le> t0 + sint (rotateRate f)"
  shows "\<exists>err f3. check f2 t1 ts nonce = Some (Some err, f3)"
proof -
  have f1: "filter_ok f1" "rotateRate f1 = rotateRate f"
    using check_ok [OF assms(1), of t0 ts nonce] assms(3) by auto
  have f2: "filter_ok f2" "rotateRate f2 = rotateRate f1"
    using check_run_ok [OF f1(1), of reqs] assms(4) by auto
  have k1: "kept f1 (digest ts nonce) t0"
    by (rule accepted_kept [OF assms(1,2,3)])
  have "kept f2 (digest ts nonce) t0"
    by (rule kept_run [OF f1(1) k1 _ assms(4)]) (use f1(2) assms(5) in simp)
  then show ?thesis
    by (rule kept_rejected [OF f2(1)]) (use f1(2) f2(2) assms(6) in simp)
qed

theorem replay_refused_within_period_witness:
  "\<exists>f1 f2 rs err f3. check (newFilter sample_options 0) 0 0 [7] = Some (None, f1)
     \<and> check_run f1 [(1000000000, 5, [8]), (60000000000, 9, [9])] = Some (rs, f2)
     \<and> check f2 60000000000 0 [7] = Some (Some err, f3)"
proof -
  obtain f1 where f1: "check (newFilter sample_options 0) 0 0 [7] = Some (None, f1)"
    using sample_accepts by blast
  then have "filter_ok f1"
    using check_ok [OF sample_filter(1), of 0 0 0 "[7]"] by auto
  then obtain rs f2 where run: "check_run f1 [(1000000000, 5, [8]), (60000000000, 9, [9])] = Some (rs, f2)"
    using check_run_ok by blast
  have "\<exists>err f3. check f2 60000000000 0 [7] = Some (Some err, f3)"
    by (rule replay_refused_within_period [OF sample_filter(1) _ f1 run]) (simp_all add: sample_filter)
  with f1 run show ?thesis
    by blast
qed

text \<open>C17. Replay protection: when the filter's rotation period covers both sides of the skew window
  (the defaults, 60 s against 5 s, do), no timestamp and nonce are accepted twice in the life of
  the server, however many requests come in between and however far apart the two arrive. The
  clock must not run backwards past the second request, and the client timestamp must be less than
  2^63 ns ahead of the server's clock: beyond that \<open>Check\<close> does not see the skew.\<close>

theorem never_accepted_twice:
  assumes "filter_ok f" and "0 < sint (skew f)" and "2 * sint (skew f) \<le> sint (rotateRate f)"
    and first: "check f t0 ts nonce = Some (None, f1)"
    and between: "check_run f1 reqs = Some (rs, f2)" "\<forall>(now, _, _) \<in> set reqs. now \<le> t1"
    and sane: "ts - t0 < 2 ^ 63" "ts - t1 < 2 ^ 63"
  shows "\<exists>err f3. check f2 t1 ts nonce = Some (Some err, f3)"
proof -
  have rate: "0 < sint (rotateRate f)" "0 \<le> sint (skew f)" "sint (skew f) < 2 ^ 63 - 1"
    using assms(2,3) sint_range(2) [of "rotateRate f"] by linarith+
  have f1: "filter_ok f1" "skew f1 = skew f"
    using check_ok [OF assms(1), of t0 ts nonce] first by auto
  have f2: "filter_ok f2" "skew f2 = skew f"
    using check_run_ok [OF f1(1), of reqs] between(1) f1(2) by auto
  show ?thesis
  proof (cases "skew_ok f2 t1 ts")
    case False
    then show ?thesis
      by (simp add: check_def)
  next
    case True
    have "\<bar>t1 - ts\<bar> \<le> sint (skew f)"
      using True skew_ok_iff [of f2 t1 ts] rate sane(2) f2(2) by auto
    moreover have "\<bar>t0 - ts\<bar> \<le> sint (skew f)"
      using accepted_skew [OF first] skew_ok_iff [of f t0 ts] rate sane(1) by auto
    ultimately have t1: "t1 \<le> t0 + sint (rotateRate f)"
      using assms(3) by linarith
    then have reqs: "\<forall>(now, _, _) \<in> set reqs. now \<le> t0 + sint (rotateRate f)"
      using between(2) by fastforce
    have k1: "kept f1 (digest ts nonce) t0"
      by (rule accepted_kept [OF assms(1) rate(1) first])
    have rr: "rotateRate f1 = rotateRate f" "rotateRate f2 = rotateRate f"
      using check_ok [OF assms(1), of t0 ts nonce] first check_run_ok [OF f1(1), of reqs] between(1)
      by auto
    have "kept f2 (digest ts nonce) t0"
      by (rule kept_run [OF f1(1) k1 _ between(1)]) (use reqs rr in simp)
    then show ?thesis
      by (rule kept_rejected [OF f2(1)]) (use t1 rr in simp)
  qed
qed

theorem never_accepted_twice_witness:
  "\<exists>f1 f2 rs err f3. check (newFilter sample_options 0) 0 0 [7] = Some (None, f1)
     \<and> check_run f1 [(1000000000, 5, [8]), (70000000000, 9, [9])] = Some (rs, f2)
     \<and> check f2 70000000000 0 [7] = Some (Some err, f3)"
proof -
  obtain f1 where f1: "check (newFilter sample_options 0) 0 0 [7] = Some (None, f1)"
    using sample_accepts by blast
  then have "filter_ok f1"
    using check_ok [OF sample_filter(1), of 0 0 0 "[7]"] by auto
  then obtain rs f2 where run: "check_run f1 [(1000000000, 5, [8]), (70000000000, 9, [9])] = Some (rs, f2)"
    using check_run_ok by blast
  have "\<exists>err f3. check f2 70000000000 0 [7] = Some (Some err, f3)"
    by (rule never_accepted_twice [OF sample_filter(1) _ _ f1 run]) (simp_all add: sample_filter)
  with f1 run show ?thesis
    by blast
qed

text \<open>C19. The timestamp window: \<open>Check\<close> lets a timestamp through exactly when it is within \<open>skew\<close> of
  the server's clock, or at least 2^63 ns (292 years) ahead of it: there \<open>Time.Sub\<close> saturates at
  the least duration, whose negation in \<open>abs\<close> wraps back to itself and is not above the limit.
  Anything else is refused with \<open>ErrSkew\<close> and leaves the filter as it was.\<close>

theorem skew_window:
  assumes "0 \<le> sint (skew f)" "sint (skew f) < 2 ^ 63 - 1"
  shows "(skew_ok f now ts \<longleftrightarrow> \<bar>now - ts\<bar> \<le> sint (skew f) \<or> now - ts \<le> - (2 ^ 63))
    \<and> (check f now ts nonce = Some (Some ErrSkew, f) \<longleftrightarrow> \<not> skew_ok f now ts)"
proof -
  have "check f now ts nonce \<noteq> Some (Some ErrSkew, f)" if "skew_ok f now ts"
    using that by (auto simp: check_def check_commit_def Let_def split: option.splits if_splits)
  then show ?thesis
    using skew_ok_iff [OF assms] by (auto simp: check_def)
qed

theorem skew_window_witness:
  "skew_ok (newFilter sample_options 0) 0 (2 ^ 63) \<and> \<not> skew_ok (newFilter sample_options 0) 0 (2 ^ 62)"
  using skew_window [of "newFilter sample_options 0" 0 "2 ^ 63" "[]"]
    skew_window [of "newFilter sample_options 0" 0 "2 ^ 62" "[]"]
  by (simp add: sample_filter)

text \<open>A new filter is well formed and empty, so it accepts its first request exactly when the
  timestamp is in the window; the number of bits is the requested one (or the default) rounded up
  to a multiple of 64. The rounding wraps for sizes above 2^64 - 64, which the hypothesis excludes.\<close>

theorem new_filter_accepts:
  assumes "unat (bits_or_default opts) \<le> 2 ^ 64 - 64" and "0 \<le> Hashes opts"
  shows "filter_ok (newFilter opts t) \<and> 64 dvd unat (fbits (newFilter opts t))
    \<and> unat (bits_or_default opts) \<le> unat (fbits (newFilter opts t))
    \<and> unat (fbits (newFilter opts t)) < unat (bits_or_default opts) + 64
    \<and> (\<exists>r f'. check (newFilter opts t) now ts nonce = Some (r, f') \<and>
         r = (if skew_ok (newFilter opts t) now ts then None else Some ErrSkew))"
proof -
  have ok: "filter_ok (newFilter opts t)"
    by (rule newFilter_ok [OF assms(1)])
  have "0 < hashes (newFilter opts t)"
    using assms(2) by (simp add: newFilter_def Let_def DefaultHashes_def)
  then have "\<exists>f'. check (newFilter opts t) now ts nonce = Some (None, f')"
    if "skew_ok (newFilter opts t) now ts"
    using that by (intro fresh_accepted ok newFilter_marked)
  then have "\<exists>r f'. check (newFilter opts t) now ts nonce = Some (r, f') \<and>
      r = (if skew_ok (newFilter opts t) now ts then None else Some ErrSkew)"
    by (simp add: check_def)
  with ok show ?thesis
    using round_up_64_ok [OF bits_or_default_pos assms(1)] by (simp add: newFilter_fbits)
qed

theorem new_filter_accepts_witness:
  "filter_ok (newFilter sample_options 0) \<and>
   (\<exists>f'. check (newFilter sample_options 0) 0 1 [7] = Some (None, f'))"
  using new_filter_accepts [of sample_options 0 0 1 "[7]"]
  by (simp add: skew_ok_iff sample_filter bits_or_default_def) (simp add: sample_options_def)

end
