(* ===== verification/ReplayConc.thy ===== *)
theory ReplayConc
  imports Replay
begin

text \<open>
  \<^verbatim>\<open>Check\<close> under concurrency. A server calls it from many goroutines; the mutex makes
  \<^verbatim>\<open>maybeRotate\<close>, the first lookup (read lock) and the second lookup with the insertion (write
  lock) one step each, and the scheduler may put steps of other calls in between.

  A call is a thread: \<open>Idle\<close>, past the skew check with its clock reading (\<open>Begun\<close>), past
  \<^verbatim>\<open>maybeRotate\<close> (\<open>Rotated\<close>), past the first lookup with a miss (\<open>Missed\<close>), or finished with a
  verdict. Two ghost fields record history: \<open>epoch\<close> counts rotations and \<open>accepted\<close> lists the
  accepted keys, oldest first, with the epoch of their insertion.
\<close>

datatype thread =
    Idle
  | Begun time time bytes
  | Rotated bytes
  | Missed bytes
  | Done "replay_err option"

record server =
  filt :: replay_filter
  threads :: "nat \<Rightarrow> thread"
  epoch :: nat
  accepted :: "(bytes \<times> nat) list"

definition rotates :: "replay_filter \<Rightarrow> time \<Rightarrow> bool" where
  "rotates f now \<longleftrightarrow> \<not> now < rotateAt f"

inductive check_step :: "server \<Rightarrow> server \<Rightarrow> bool" where
  skewed: "threads s i = Idle \<Longrightarrow> \<not> skew_ok (filt s) now ts \<Longrightarrow>
    check_step s (s\<lparr>threads := (threads s)(i := Done (Some ErrSkew))\<rparr>)"
| admit: "threads s i = Idle \<Longrightarrow> skew_ok (filt s) now ts \<Longrightarrow>
    check_step s (s\<lparr>threads := (threads s)(i := Begun now ts nonce)\<rparr>)"
| rotate: "threads s i = Begun now ts nonce \<Longrightarrow>
    check_step s (s\<lparr>filt := maybeRotate (filt s) now,
      threads := (threads s)(i := Rotated (digest ts nonce)),
      epoch := (if rotates (filt s) now then Suc (epoch s) else epoch s)\<rparr>)"
| look_hit: "threads s i = Rotated key \<Longrightarrow> seen (filt s) key = Some True \<Longrightarrow>
    check_step s (s\<lparr>threads := (threads s)(i := Done (Some ErrReplay))\<rparr>)"
| look_miss: "threads s i = Rotated key \<Longrightarrow> seen (filt s) key = Some False \<Longrightarrow>
    check_step s (s\<lparr>threads := (threads s)(i := Missed key)\<rparr>)"
| commit: "threads s i = Missed key \<Longrightarrow> check_commit (filt s) key = Some (r, f') \<Longrightarrow>
    check_step s (s\<lparr>filt := f', threads := (threads s)(i := Done r),
      accepted := (if r = None then accepted s @ [(key, epoch s)] else accepted s)\<rparr>)"

definition start_server :: "replay_filter \<Rightarrow> server" where
  "start_server f = \<lparr>filt = f, threads = (\<lambda>_. Idle), epoch = 0, accepted = []\<rparr>"

inductive reachable :: "replay_filter \<Rightarrow> server \<Rightarrow> bool" for f where
  start: "reachable f (start_server f)"
| step: "reachable f s \<Longrightarrow> check_step s t \<Longrightarrow> reachable f t"

text \<open>
  The invariant: the filter is well formed, and a key accepted in this epoch is in the current
  bloom, one accepted in the epoch before is in the previous bloom. The history is spaced: the
  same key is accepted again only two epochs later.
\<close>

definition remembered :: "server \<Rightarrow> bool" where
  "remembered s \<longleftrightarrow> (\<forall>(k, e) \<in> set (accepted s). e \<le> epoch s
     \<and> (e = epoch s \<longrightarrow> in_curr (filt s) k) \<and> (Suc e = epoch s \<longrightarrow> in_prev (filt s) k))"

definition spaced :: "(bytes \<times> nat) list \<Rightarrow> bool" where
  "spaced acc \<longleftrightarrow> (\<forall>i j. i < j \<and> j < length acc \<and> fst (acc ! i) = fst (acc ! j)
     \<longrightarrow> snd (acc ! i) + 2 \<le> snd (acc ! j))"

definition conc_inv :: "server \<Rightarrow> bool" where
  "conc_inv s \<longleftrightarrow> filter_ok (filt s) \<and> remembered s \<and> spaced (accepted s)"

lemma spaced_snoc:
  assumes "spaced acc" and "\<forall>(k', e') \<in> set acc. k' = k \<longrightarrow> e' + 2 \<le> e"
  shows "spaced (acc @ [(k, e)])"
  unfolding spaced_def
proof (intro allI impI)
  fix i j
  assume *: "i < j \<and> j < length (acc @ [(k, e)])
    \<and> fst ((acc @ [(k, e)]) ! i) = fst ((acc @ [(k, e)]) ! j)"
  show "snd ((acc @ [(k, e)]) ! i) + 2 \<le> snd ((acc @ [(k, e)]) ! j)"
  proof (cases "j < length acc")
    case True
    have "(acc @ [(k, e)]) ! i = acc ! i" "(acc @ [(k, e)]) ! j = acc ! j"
      using * True by (simp_all add: nth_append)
    then show ?thesis
      using * True assms(1) unfolding spaced_def by metis
  next
    case False
    then have j: "j = length acc"
      using * by simp
    then have "i < length acc" "(acc @ [(k, e)]) ! i = acc ! i" "(acc @ [(k, e)]) ! j = (k, e)"
      using * by (simp_all add: nth_append)
    then have "acc ! i \<in> set acc" "fst (acc ! i) = k"
      using * by simp_all
    then have "snd (acc ! i) + 2 \<le> e"
      using assms(2) by (metis (mono_tags, lifting) case_prod_beta')
    then show ?thesis
      using * j by (simp add: nth_append)
  qed
qed

lemma remembered_rotate:
  assumes "remembered s"
  shows "remembered (s\<lparr>filt := maybeRotate (filt s) now, threads := th,
    epoch := (if rotates (filt s) now then Suc (epoch s) else epoch s)\<rparr>)"
proof (cases "rotates (filt s) now")
  case True
  then have f: "maybeRotate (filt s) now = (filt s)\<lparr>prev := curr (filt s),
      curr := newBloom (fbits (filt s)), rotateAt := time_add now (rotateRate (filt s))\<rparr>"
    by (simp add: maybeRotate_def rotates_def)
  have "in_prev (maybeRotate (filt s) now) k = in_curr (filt s) k" for k
    by (simp add: f in_prev_def in_curr_def)
  with True assms show ?thesis
    by (fastforce simp: remembered_def)
next
  case False
  then have "maybeRotate (filt s) now = filt s"
    by (simp add: maybeRotate_def rotates_def)
  with False assms show ?thesis
    by (simp add: remembered_def)
qed

lemma commit_inv:
  assumes inv: "conc_inv s" and commit: "check_commit (filt s) key = Some (r, f')"
  shows "conc_inv (s\<lparr>filt := f', threads := th,
    accepted := (if r = None then accepted s @ [(key, epoch s)] else accepted s)\<rparr>)"
proof (cases "in_curr (filt s) key \<or> in_prev (filt s) key")
  case True
  then have "r = Some ErrReplay" "f' = filt s"
    using commit check_commit_hit [of "filt s" key] inv by (simp_all add: conc_inv_def)
  with inv show ?thesis
    by (simp add: conc_inv_def remembered_def)
next
  case False
  have ok: "filter_ok (filt s)" and rem: "remembered s" and sp: "spaced (accepted s)"
    using inv by (simp_all add: conc_inv_def)
  obtain b where b: "check_commit (filt s) key = Some (None, (filt s)\<lparr>curr := b\<rparr>)"
    "filter_ok ((filt s)\<lparr>curr := b\<rparr>)" "in_curr ((filt s)\<lparr>curr := b\<rparr>) key"
    "\<And>k. in_curr (filt s) k \<Longrightarrow> in_curr ((filt s)\<lparr>curr := b\<rparr>) k"
    "\<And>k. in_prev ((filt s)\<lparr>curr := b\<rparr>) k = in_prev (filt s) k"
    using check_commit_fresh [OF ok, of key] False by metis
  have r: "r = None" and f': "f' = (filt s)\<lparr>curr := b\<rparr>"
    using commit b(1) by simp_all
  have "\<forall>(k, e) \<in> set (accepted s). k = key \<longrightarrow> e + 2 \<le> epoch s"
  proof clarify
    fix k e
    assume "(key, e) \<in> set (accepted s)"
    then have "e \<le> epoch s" "e \<noteq> epoch s" "Suc e \<noteq> epoch s"
      using rem False by (fastforce simp: remembered_def)+
    then show "e + 2 \<le> epoch s"
      by linarith
  qed
  then have "spaced (accepted s @ [(key, epoch s)])"
    by (rule spaced_snoc [OF sp])
  moreover have "remembered (s\<lparr>filt := f', threads := th, accepted := accepted s @ [(key, epoch s)]\<rparr>)"
    using rem b(3,4,5) f' by (fastforce simp: remembered_def)
  ultimately show ?thesis
    using b(2) r f' by (simp add: conc_inv_def)
qed

lemma check_step_inv: "check_step s t \<Longrightarrow> conc_inv s \<Longrightarrow> conc_inv t"
proof (induction rule: check_step.induct)
  case (rotate s i now ts nonce)
  then show ?case
    using maybeRotate_ok [of "filt s" now] remembered_rotate [of s now]
    by (simp add: conc_inv_def)
next
  case (commit s i key r f')
  show ?case
    by (rule commit_inv [OF commit.prems commit.hyps(2)])
qed (simp_all add: conc_inv_def remembered_def)

lemma start_inv: "filter_ok f \<Longrightarrow> conc_inv (start_server f)"
  by (simp add: conc_inv_def start_server_def remembered_def spaced_def)

lemma reachable_inv: "reachable f s \<Longrightarrow> filter_ok f \<Longrightarrow> conc_inv s"
  by (induction rule: reachable.induct) (blast intro: start_inv check_step_inv)+

text \<open>C18. No interleaving of concurrent \<open>Check\<close> calls accepts a key twice while it is
  remembered: in the history of every reachable state, two acceptances of the same timestamp and
  nonce digest are at least two rotations of the filter apart.\<close>

theorem concurrent_checks_spaced:
  assumes "filter_ok f" and "reachable f s" and "i < j" and "j < length (accepted s)"
    and "fst (accepted s ! i) = fst (accepted s ! j)"
  shows "snd (accepted s ! i) + 2 \<le> snd (accepted s ! j)"
  using reachable_inv [OF assms(2,1)] assms(3,4,5) by (simp add: conc_inv_def spaced_def)

text \<open>Whole calls as runs of steps: a call that is accepted, and a call that got as far as rotating.\<close>

lemma rotate_steps:
  assumes "reachable f s" and "threads s i = Idle" and "skew_ok (filt s) now ts"
  shows "\<exists>s'. reachable f s' \<and> filt s' = maybeRotate (filt s) now \<and> accepted s' = accepted s
    \<and> epoch s' = (if rotates (filt s) now then Suc (epoch s) else epoch s)
    \<and> threads s' = (threads s)(i := Rotated (digest ts nonce))"
proof -
  let ?s1 = "s\<lparr>threads := (threads s)(i := Begun now ts nonce)\<rparr>"
  have "reachable f ?s1"
    by (rule reachable.step [OF assms(1) admit [of s i now ts nonce, OF assms(2,3)]])
  then have "reachable f (?s1\<lparr>filt := maybeRotate (filt ?s1) now,
      threads := (threads ?s1)(i := Rotated (digest ts nonce)),
      epoch := (if rotates (filt ?s1) now then Suc (epoch ?s1) else epoch ?s1)\<rparr>)"
    by (rule reachable.step) (rule rotate [of ?s1 i now ts nonce], simp)
  then show ?thesis
    by (intro exI conjI) (assumption, simp_all)
qed

lemma accept_steps:
  assumes f: "filter_ok f" and r: "reachable f s" and "threads s i = Idle" and "skew_ok (filt s) now ts"
    and new: "\<not> in_curr (maybeRotate (filt s) now) (digest ts nonce)"
      "\<not> in_prev (maybeRotate (filt s) now) (digest ts nonce)"
  shows "\<exists>s' b. reachable f s' \<and> filt s' = (maybeRotate (filt s) now)\<lparr>curr := b\<rparr>
    \<and> epoch s' = (if rotates (filt s) now then Suc (epoch s) else epoch s)
    \<and> accepted s' = accepted s @ [(digest ts nonce, epoch s')]
    \<and> threads s' = (threads s)(i := Done None)"
proof -
  let ?key = "digest ts nonce"
  obtain s1 where s1: "reachable f s1" "filt s1 = maybeRotate (filt s) now" "accepted s1 = accepted s"
    "epoch s1 = (if rotates (filt s) now then Suc (epoch s) else epoch s)"
    "threads s1 = (threads s)(i := Rotated ?key)"
    using rotate_steps [OF r assms(3,4), of nonce] by blast
  have ok: "filter_ok (filt s1)"
    using reachable_inv [OF s1(1) f] by (simp add: conc_inv_def)
  let ?s2 = "s1\<lparr>threads := (threads s1)(i := Missed ?key)\<rparr>"
  have "seen (filt s1) ?key = Some False"
    using new seen_eq [OF ok] by (simp add: s1(2))
  then have s2: "reachable f ?s2"
    by (intro reachable.step [OF s1(1)] look_miss) (simp_all add: s1(5))
  obtain b where b: "check_commit (filt s1) ?key = Some (None, (filt s1)\<lparr>curr := b\<rparr>)"
    using check_commit_fresh [OF ok, of ?key] new s1(2) by metis
  then have "check_step ?s2 (?s2\<lparr>filt := (filt s1)\<lparr>curr := b\<rparr>, threads := (threads ?s2)(i := Done None),
      accepted := (if None = (None :: replay_err option) then accepted ?s2 @ [(?key, epoch ?s2)] else accepted ?s2)\<rparr>)"
    by (intro commit) simp_all
  then have "reachable f (?s2\<lparr>filt := (filt s1)\<lparr>curr := b\<rparr>, threads := (threads ?s2)(i := Done None),
      accepted := accepted ?s2 @ [(?key, epoch ?s2)]\<rparr>)"
    using reachable.step [OF s2] by simp
  then show ?thesis
    by (intro exI conjI) (assumption, simp_all add: s1)
qed

definition fast_options :: options where
  "fast_options = \<lparr>Bits = 64, Hashes = 0, ClockSkew = 0, RotateRate = 1\<rparr>"

lemma fast_filter:
  "filter_ok (newFilter fast_options 0)" "sint (skew (newFilter fast_options 0)) = 5000000000"
  "sint (rotateRate (newFilter fast_options 0)) = 1" "rotateAt (newFilter fast_options 0) = 1"
  "hashes (newFilter fast_options 0) = 7"
proof -
  show "filter_ok (newFilter fast_options 0)"
    by (rule newFilter_ok) (simp add: bits_or_default_def fast_options_def)
  show "sint (skew (newFilter fast_options 0)) = 5000000000"
    "sint (rotateRate (newFilter fast_options 0)) = 1" "rotateAt (newFilter fast_options 0) = 1"
    "hashes (newFilter fast_options 0) = 7"
    by (simp_all add: newFilter_def Let_def fast_options_def DefaultClockSkew_def
        DefaultHashes_def time_add_def)
qed

theorem concurrent_checks_spaced_witness:
  "\<exists>s. reachable (newFilter fast_options 0) s
     \<and> accepted s = [(digest 0 [7], 0), (digest 0 [7], 2)]
     \<and> snd (accepted s ! 0) + 2 \<le> snd (accepted s ! 1)"
proof -
  let ?f = "newFilter fast_options 0" and ?key = "digest 0 [7]"
  have skew: "skew_ok f now 0" if "sint (skew f) = 5000000000" "now \<in> {0, 1, 2}" for f now
    using that by (auto simp: skew_ok_iff)
  have empty: "\<not> in_curr f k" "\<not> in_prev f k" if "filter_ok f" "hashes f = 7"
    "marked (bbits (curr f)) = {}" "marked (bbits (prev f)) = {}" for f k
    using bloom.member_ok [OF filter_okD(1) [OF that(1)]] bloom.member_ok [OF filter_okD(2) [OF that(1)]] that
    by (simp_all add: in_curr_def in_prev_def bloom_pos_def)
  have rot0: "maybeRotate ?f 0 = ?f"
    by (simp add: maybeRotate_def fast_filter)
  obtain s1 b where s1: "reachable ?f s1" "filt s1 = ?f\<lparr>curr := b\<rparr>" "epoch s1 = 0"
    "accepted s1 = [(?key, 0)]" "threads s1 = (\<lambda>_. Idle)(0 := Done None)"
    using accept_steps [OF fast_filter(1) reachable.start, of 0 0 0 "[7]"]
      skew [OF fast_filter(2)] empty [OF fast_filter(1,5) newFilter_marked]
    by (auto simp: start_server_def rot0 rotates_def fast_filter(4))
  obtain s2 where s2: "reachable ?f s2" "filt s2 = maybeRotate (filt s1) 1" "epoch s2 = 1"
    "accepted s2 = [(?key, 0)]" "threads s2 = (threads s1)(1 := Rotated (digest 0 [8]))"
    using rotate_steps [OF s1(1), of 1 1 0 "[8]"] skew [of "filt s1" 1] s1
    by (auto simp: rotates_def fast_filter)
  have f2: "filt s2 = ?f\<lparr>curr := newBloom (fbits ?f), prev := b, rotateAt := 2\<rparr>"
    by (simp add: s2 s1 maybeRotate_def fast_filter time_add_def)
  have ok2: "filter_ok (filt s2)"
    using reachable_inv [OF s2(1) fast_filter(1)] by (simp add: conc_inv_def)
  have f3: "maybeRotate (filt s2) 2
      = ?f\<lparr>curr := newBloom (fbits ?f), prev := newBloom (fbits ?f), rotateAt := 3\<rparr>"
    by (simp add: f2 maybeRotate_def fast_filter time_add_def)
  have new: "\<not> in_curr (maybeRotate (filt s2) 2) ?key" "\<not> in_prev (maybeRotate (filt s2) 2) ?key"
    by (rule empty [OF maybeRotate_ok [OF ok2]]; simp add: f3 fast_filter)+
  have idle: "threads s2 2 = Idle" and sk: "skew_ok (filt s2) 2 0" and rot: "rotates (filt s2) 2"
    by (simp_all add: s2(5) s1(5) f2 skew fast_filter rotates_def)
  obtain s3 where s3: "reachable ?f s3" "accepted s3 = [(?key, 0), (?key, 2)]"
    using accept_steps [OF fast_filter(1) s2(1) idle sk new] by (auto simp: rot s2(3,4))
  then have "snd (accepted s3 ! 0) + 2 \<le> snd (accepted s3 ! 1)"
    by (intro concurrent_checks_spaced [OF fast_filter(1) s3(1)]) simp_all
  with s3 show ?thesis
    by blast
qed

end
