(* ===== verification/Reader.thy ===== *)
theory Reader
  imports Base
begin

text \<open>
  \<^verbatim>\<open>io.Reader\<close> and \<^verbatim>\<open>io.ReadFull\<close> as the program uses them.

  A reader is a function \<open>rd\<close>: for a buffer of \<open>k\<close> bytes and a state it gives the bytes
  it put into the buffer, the error (\<open>None\<close> for Go's \<open>nil\<close>) and the new state. \<open>read_full\<close> is
  the loop of \<^verbatim>\<open>io.ReadAtLeast\<close> with \<open>min = len(buf)\<close>; it repeats while the reader
  returns short counts, so it need not return: the result \<open>None\<close> means that it does not.

  The locale \<open>byte_source\<close> is the contract that the code relies on: what a reader hands out is a
  prefix of a fixed byte stream, it makes progress, and it fails only when the stream is used
  up. Under it \<open>read_full\<close> returns, and its result depends on the stream alone, not on how the
  network cut it into segments. \<open>seg_read\<close> is a \<^verbatim>\<open>net.Conn\<close> as the code sees it, a list of
  the segments that successive reads deliver and the error that ends the stream.
\<close>

datatype io_err = EOF | UnexpectedEOF | NetErr string

type_synonym 's reader = "nat \<Rightarrow> 's \<Rightarrow> bytes \<times> io_err option \<times> 's"

definition full_err :: "nat \<Rightarrow> bytes \<Rightarrow> io_err \<Rightarrow> io_err option" where
  "full_err n got e =
     (if n \<le> length got then None
      else if got \<noteq> [] \<and> e = EOF then Some UnexpectedEOF
      else Some e)"

partial_function (option) read_loop ::
  "'s reader \<Rightarrow> nat \<Rightarrow> bytes \<Rightarrow> 's \<Rightarrow> (bytes \<times> io_err option \<times> 's) option" where
  "read_loop rd n acc s =
     (if n \<le> length acc then Some (acc, None, s)
      else (case rd (n - length acc) s of (got, e, s') \<Rightarrow>
        (case e of
           None \<Rightarrow> read_loop rd n (acc @ got) s'
         | Some err \<Rightarrow> Some (acc @ got, full_err n (acc @ got) err, s'))))"

definition read_full :: "'s reader \<Rightarrow> nat \<Rightarrow> 's \<Rightarrow> (bytes \<times> io_err option \<times> 's) option" where
  "read_full rd n s = read_loop rd n [] s"

declare read_full_def [go_defs] read_loop.simps [go_defs] full_err_def [go_defs]

subsection \<open>Computations over a reader: fallible, stateful, possibly not returning\<close>

type_synonym ('s, 'e, 'a) io = "'s \<Rightarrow> (('e + 'a) \<times> 's) option"

definition io_ret :: "'a \<Rightarrow> ('s, 'e, 'a) io" where
  "io_ret x = (\<lambda>s. Some (Inr x, s))"

definition io_throw :: "'e \<Rightarrow> ('s, 'e, 'a) io" where
  "io_throw e = (\<lambda>s. Some (Inl e, s))"

definition io_bind :: "('s, 'e, 'a) io \<Rightarrow> ('a \<Rightarrow> ('s, 'e, 'b) io) \<Rightarrow> ('s, 'e, 'b) io" where
  "io_bind m f = (\<lambda>s.
     (case m s of
        None \<Rightarrow> None
      | Some (Inl e, s') \<Rightarrow> Some (Inl e, s')
      | Some (Inr x, s') \<Rightarrow> f x s'))"

text \<open>\<^verbatim>\<open>if _, err := io.ReadFull(r, buf); err != nil { return wrap(err) }\<close>\<close>

definition read_n :: "'s reader \<Rightarrow> (io_err \<Rightarrow> 'e) \<Rightarrow> nat \<Rightarrow> ('s, 'e, bytes) io" where
  "read_n rd wrap n = (\<lambda>s.
     (case read_full rd n s of
        None \<Rightarrow> None
      | Some (got, None, s') \<Rightarrow> Some (Inr got, s')
      | Some (got, Some e, s') \<Rightarrow> Some (Inl (wrap e), s')))"

declare io_ret_def [go_defs] io_throw_def [go_defs] io_bind_def [go_defs] read_n_def [go_defs]

lemma io_bind_ret [simp]: "io_bind (io_ret x) f = f x"
  by (simp add: io_bind_def io_ret_def)

lemma io_bind_throw [simp]: "io_bind (io_throw e) f = io_throw e"
  by (simp add: io_bind_def io_throw_def)

subsection \<open>The contract of a byte source\<close>

text \<open>
  \<open>stream_full n\<close> is what \<open>read_full\<close> has to do on a stream, given as the bytes that are
  still to come and the error after them.
\<close>

type_synonym stream = "bytes \<times> io_err"

definition stream_full :: "nat \<Rightarrow> stream \<Rightarrow> bytes \<times> io_err option \<times> stream" where
  "stream_full n st = (case st of (bs, e) \<Rightarrow>
     if n \<le> length bs then (take n bs, None, (drop n bs, e))
     else (bs, full_err n bs e, ([], e)))"

definition stream_n :: "(io_err \<Rightarrow> 'e) \<Rightarrow> nat \<Rightarrow> stream \<Rightarrow> ('e + bytes) \<times> stream" where
  "stream_n wrap n st = (case stream_full n st of
       (got, None, st') \<Rightarrow> (Inr got, st')
     | (got, Some e, st') \<Rightarrow> (Inl (wrap e), st'))"

text \<open>
  \<open>short e bs\<close> is the error of a read that wanted more than the bytes \<open>bs\<close> that were left
  before the stream ended with \<open>e\<close>.
\<close>

definition short :: "io_err \<Rightarrow> bytes \<Rightarrow> io_err" where
  "short e bs = (if bs \<noteq> [] \<and> e = EOF then UnexpectedEOF else e)"

lemma stream_full_eq:
  "stream_full n (bs, e) =
     (if length bs < n then (bs, Some (short e bs), ([], e)) else (take n bs, None, (drop n bs, e)))"
  by (simp add: stream_full_def full_err_def short_def)

lemma stream_n_eq:
  "stream_n wrap n (bs, e) =
     (if length bs < n then (Inl (wrap (short e bs)), ([], e)) else (Inr (take n bs), (drop n bs, e)))"
  by (simp add: stream_n_def stream_full_def full_err_def short_def)

text \<open>Sequencing on streams, the counterpart of \<open>io_bind\<close>.\<close>

type_synonym ('e, 'a) parser = "stream \<Rightarrow> ('e + 'a) \<times> stream"

definition st_ret :: "'a \<Rightarrow> ('e, 'a) parser" where
  "st_ret x = (\<lambda>st. (Inr x, st))"

definition st_throw :: "'e \<Rightarrow> ('e, 'a) parser" where
  "st_throw e = (\<lambda>st. (Inl e, st))"

definition st_bind :: "('e, 'a) parser \<Rightarrow> ('a \<Rightarrow> ('e, 'b) parser) \<Rightarrow> ('e, 'b) parser" where
  "st_bind p q = (\<lambda>st. (case p st of (Inl e, st') \<Rightarrow> (Inl e, st') | (Inr x, st') \<Rightarrow> q x st'))"

named_theorems refines_intros \<open>a reader computation refines a stream parser\<close>

locale byte_source =
  fixes rd :: "'s reader"
    and content :: "'s \<Rightarrow> bytes"
    and final :: "'s \<Rightarrow> io_err"
    and pending :: "'s \<Rightarrow> nat"
  assumes read_ok: "0 < k \<Longrightarrow> rd k s = (got, None, s') \<Longrightarrow>
      content s = got @ content s' \<and> length got \<le> k \<and> final s' = final s \<and> pending s' < pending s"
    and read_err: "0 < k \<Longrightarrow> rd k s = (got, Some e, s') \<Longrightarrow>
      content s = got \<and> length got \<le> k \<and> e = final s \<and> content s' = [] \<and> final s' = final s"
begin

lemma read_loop_spec:
  "length acc < n \<Longrightarrow>
   \<exists>s'. read_loop rd n acc s =
     (if n \<le> length (acc @ content s)
      then Some (take n (acc @ content s), None, s')
      else Some (acc @ content s, full_err n (acc @ content s) (final s), s'))
    \<and> content s' = drop (n - length acc) (content s) \<and> final s' = final s"
proof (induction "pending s" arbitrary: acc s rule: less_induct)
  case less
  obtain got e t where rd: "rd (n - length acc) s = (got, e, t)"
    by (metis prod_cases3)
  have pos: "0 < n - length acc"
    using less.prems by simp
  show ?case
  proof (cases e)
    case None
    with rd have ok: "content s = got @ content t" "length got \<le> n - length acc"
      "final t = final s" "pending t < pending s"
      using read_ok [OF pos] by auto
    have step: "read_loop rd n acc s = read_loop rd n (acc @ got) t"
      using less.prems by (subst read_loop.simps) (simp add: rd None)
    show ?thesis
    proof (cases "length (acc @ got) < n")
      case True
      obtain s' where "read_loop rd n (acc @ got) t =
          (if n \<le> length ((acc @ got) @ content t)
           then Some (take n ((acc @ got) @ content t), None, s')
           else Some ((acc @ got) @ content t, full_err n ((acc @ got) @ content t) (final t), s'))"
        and "content s' = drop (n - length (acc @ got)) (content t)" and "final s' = final t"
        using less.hyps [OF ok(4) True] by blast
      then show ?thesis
        by (intro exI [of _ s']) (simp add: step ok)
    next
      case False
      then have "length acc + length got = n"
        using ok(2) less.prems by simp
      then show ?thesis
        by (subst step, subst read_loop.simps) (auto simp: ok(1,3))
    qed
  next
    case (Some err)
    with rd have err: "content s = got" "length got \<le> n - length acc" "err = final s"
      "content t = []" "final t = final s"
      using read_err [OF pos] by auto
    show ?thesis
      using less.prems err
      by (subst read_loop.simps) (auto simp: rd Some full_err_def)
  qed
qed

text \<open>\<open>read_full\<close> returns, and refines \<open>stream_full\<close>.\<close>

definition view :: "'s \<Rightarrow> stream" where
  "view s = (content s, final s)"

lemma read_full_view:
  "\<exists>got e s'. read_full rd n s = Some (got, e, s') \<and> stream_full n (view s) = (got, e, view s')"
proof (cases n)
  case 0
  then show ?thesis
    by (auto simp: read_full_def read_loop.simps stream_full_def view_def)
next
  case (Suc m)
  then have "length [] < n"
    by simp
  from read_loop_spec [OF this, of s] show ?thesis
    by (auto simp: read_full_def stream_full_def view_def)
qed

lemma read_n_view:
  "\<exists>r s'. read_n rd wrap n s = Some (r, s') \<and> stream_n wrap n (view s) = (r, view s')"
proof -
  obtain got e s' where "read_full rd n s = Some (got, e, s')"
    and "stream_full n (view s) = (got, e, view s')"
    using read_full_view by blast
  then show ?thesis
    by (cases e) (simp_all add: read_n_def stream_n_def)
qed

text \<open>
  A computation refines a parser when from every state it returns, with the parser's result on
  the state's stream and the parser's remaining stream.
\<close>

definition refines :: "('s, 'e, 'a) io \<Rightarrow> ('e, 'a) parser \<Rightarrow> bool" where
  "refines m p \<longleftrightarrow> (\<forall>s. \<exists>r s'. m s = Some (r, s') \<and> p (view s) = (r, view s'))"

lemma refines_read_n [refines_intros]: "refines (read_n rd wrap n) (stream_n wrap n)"
  unfolding refines_def using read_n_view by blast

lemma refines_ret [refines_intros]: "refines (io_ret x) (st_ret x)"
  by (simp add: refines_def io_ret_def st_ret_def)

lemma refines_throw [refines_intros]: "refines (io_throw e) (st_throw e)"
  by (simp add: refines_def io_throw_def st_throw_def)

lemma refines_bind [refines_intros]:
  assumes m: "refines m p" and f: "\<And>x. refines (f x) (q x)"
  shows "refines (io_bind m f) (st_bind p q)"
  unfolding refines_def
proof
  fix s
  obtain r s' where ms: "m s = Some (r, s')" "p (view s) = (r, view s')"
    using m unfolding refines_def by blast
  show "\<exists>r s'. io_bind m f s = Some (r, s') \<and> st_bind p q (view s) = (r, view s')"
  proof (cases r)
    case (Inl e)
    with ms show ?thesis
      by (simp add: io_bind_def st_bind_def)
  next
    case (Inr x)
    with ms f [of x] show ?thesis
      by (simp add: io_bind_def st_bind_def refines_def)
  qed
qed

lemma refines_if [refines_intros]:
  "refines m p \<Longrightarrow> refines n q \<Longrightarrow> refines (if b then m else n) (if b then p else q)"
  by simp

lemma refinesD:
  "refines m p \<Longrightarrow> map_option (\<lambda>(r, s'). (r, (content s', final s'))) (m s) = Some (p (content s, final s))"
  unfolding refines_def view_def by (metis (no_types, lifting) case_prod_conv option.simps(9))

end

subsection \<open>A connection: the segments the network delivers\<close>

type_synonym conn = "bytes list \<times> io_err"

fun seg_read :: "conn reader" where
  "seg_read k ([], e) = ([], Some e, ([], e))"
| "seg_read k (seg # segs, e) =
     (take k seg, None, (if length seg \<le> k then segs else drop k seg # segs, e))"

definition conn_content :: "conn \<Rightarrow> bytes" where
  "conn_content c = concat (fst c)"

definition conn_pending :: "conn \<Rightarrow> nat" where
  "conn_pending c = length (fst c) + length (conn_content c)"

lemma conn_content_simps [simp]:
  "conn_content ([], e) = []"
  "conn_content (seg # segs, e) = seg @ conn_content (segs, e)"
  by (simp_all add: conn_content_def)

interpretation sock: byte_source seg_read conn_content snd conn_pending
proof unfold_locales
  fix k s got s'
  assume "0 < (k :: nat)" and "seg_read k s = (got, None, s')"
  then show "conn_content s = got @ conn_content s' \<and> length got \<le> k \<and> snd s' = snd s
      \<and> conn_pending s' < conn_pending s"
    by (cases "(k, s)" rule: seg_read.cases) (auto simp: conn_pending_def)
next
  fix k s got e s'
  assume "0 < (k :: nat)" and "seg_read k s = (got, Some e, s')"
  then show "conn_content s = got \<and> length got \<le> k \<and> e = snd s \<and> conn_content s' = []
      \<and> snd s' = snd s"
    by (cases "(k, s)" rule: seg_read.cases) auto
qed

end
