(* ===== verification/GoStrings.thy ===== *)
theory GoStrings
  imports Base
begin

text \<open>
  The part of Go's \<^verbatim>\<open>strings\<close> package that the program uses. \<^verbatim>\<open>ToLower\<close> and \<^verbatim>\<open>TrimSpace\<close> have their
  ASCII behaviour written out; on text with other characters they consult the Unicode tables, which
  are the argument \<open>uni\<close>. \<^verbatim>\<open>s[:i]\<close> with \<^verbatim>\<open>i = strings.Index...\<close> is a \<open>takeWhile\<close>.
\<close>

definition is_ascii :: "char \<Rightarrow> bool" where
  "is_ascii c \<longleftrightarrow> of_char c < (128 :: nat)"

definition lower_char :: "char \<Rightarrow> char" where
  "lower_char c = (if 65 \<le> (of_char c :: nat) \<and> of_char c \<le> (90 :: nat) then char_of (of_char c + (32 :: nat)) else c)"

definition ToLower :: "(string \<Rightarrow> string) \<Rightarrow> string \<Rightarrow> string" where
  "ToLower uni s = (if list_all is_ascii s then map lower_char s else uni s)"

definition is_space :: "char \<Rightarrow> bool" where
  "is_space c \<longleftrightarrow> (of_char c :: nat) \<in> {9, 10, 11, 12, 13, 32}"

definition trim_ascii :: "string \<Rightarrow> string" where
  "trim_ascii s = rev (dropWhile is_space (rev (dropWhile is_space s)))"

definition TrimSpace :: "(string \<Rightarrow> string) \<Rightarrow> string \<Rightarrow> string" where
  "TrimSpace uni s = (if list_all is_ascii s then trim_ascii s else uni s)"

definition HasPrefix :: "string \<Rightarrow> string \<Rightarrow> bool" where
  "HasPrefix s pre \<longleftrightarrow> take (length pre) s = pre"

definition TrimSuffix :: "string \<Rightarrow> string \<Rightarrow> string" where
  "TrimSuffix s suf =
     (if length suf \<le> length s \<and> drop (length s - length suf) s = suf
      then take (length s - length suf) s else s)"

fun Index :: "string \<Rightarrow> string \<Rightarrow> nat option" where
  "Index [] pat = (if pat = [] then Some 0 else None)"
| "Index (c # cs) pat = (if HasPrefix (c # cs) pat then Some 0 else map_option Suc (Index cs pat))"

fun split_on :: "char \<Rightarrow> string \<Rightarrow> string list" where
  "split_on d [] = [[]]"
| "split_on d (c # cs) =
     (if c = d then [] # split_on d cs
      else (case split_on d cs of [] \<Rightarrow> [[c]] | x # xs \<Rightarrow> (c # x) # xs))"

lemma split_on_nonempty [simp]: "split_on d s \<noteq> []"
  by (induction s) (auto split: list.splits)

text \<open>Splitting at a separator undoes joining with it.\<close>

lemma split_on_plain: "d \<notin> set s \<Longrightarrow> split_on d s = [s]"
  by (induction s) auto

lemma split_on_append: "d \<notin> set s \<Longrightarrow> split_on d (s @ d # t) = s # split_on d t"
  by (induction s) auto

lemma Index_skip:
  assumes "pat \<noteq> []" "hd pat \<notin> set s"
  shows "Index (s @ pat @ t) pat = Some (length s)"
  using assms(2)
proof (induction s)
  case Nil
  then show ?case
    using assms(1) by (cases pat) (auto simp: HasPrefix_def)
next
  case (Cons c s)
  then have "\<not> HasPrefix (c # s @ pat @ t) pat"
    using assms(1) by (cases pat) (auto simp: HasPrefix_def)
  with Cons show ?case
    by simp
qed

lemma Index_absent: "x \<in> set pat \<Longrightarrow> x \<notin> set s \<Longrightarrow> Index s pat = None"
proof (induction s)
  case (Cons c s)
  have "\<not> HasPrefix (c # s) pat"
    using Cons.prems in_set_takeD [of x "length pat" "c # s"] by (auto simp: HasPrefix_def)
  with Cons show ?case
    by simp
qed auto

lemma Index_None: "pat \<noteq> [] \<Longrightarrow> hd pat \<notin> set s \<Longrightarrow> Index s pat = None"
  by (rule Index_absent [of "hd pat"]) simp_all

lemma TrimSuffix_dot: "TrimSuffix (s @ ''.'') ''.'' = s"
  by (simp add: TrimSuffix_def)

lemma TrimSuffix_other: "s = [] \<or> last s \<noteq> c \<Longrightarrow> TrimSuffix s [c] = s"
  by (cases s rule: rev_cases) (auto simp: TrimSuffix_def)

end
