(* ===== verification/Blocklist.thy ===== *)
theory Blocklist
  imports Bitset Reader GoStrings
begin

text \<open>
  The block list, \<^verbatim>\<open>pkg/blocklist/rkn.go\<close>: a Bloom filter of normalised host names with FNV-1a
  hashing, filled from a plain list or from the XML register.

  A panic is \<open>None\<close>. The locks serialise the operations, so the model is sequential. The XML decoder
  is its sequence of tokens. \<open>uni_lower\<close> and \<open>uni_trim\<close> are the Unicode cases of \<^verbatim>\<open>strings\<close>.
\<close>

record blockset =
  sbits :: "u64 list"
  sm :: u64
  sk :: int
  numItems :: int
  loadedAt :: "int option"

definition NewSet :: "u64 \<Rightarrow> int \<Rightarrow> blockset" where
  "NewSet m k = (let m' = round_up_64 m in
     \<lparr>sbits = replicate (unat (m' div 64)) 0, sm = m', sk = k, numItems = 0, loadedAt = None\<rparr>)"

definition Len :: "blockset \<Rightarrow> int" where "Len s = numItems s"
definition LoadedAt :: "blockset \<Rightarrow> int option" where "LoadedAt s = loadedAt s"

declare Len_def [simp] LoadedAt_def [simp]

definition fnv64a :: "bytes \<Rightarrow> u64" where
  "fnv64a b = foldl (\<lambda>h x. (h XOR ucast x) * 1099511628211) 14695981039346656037 b"

definition set_idx :: "u64 \<Rightarrow> string \<Rightarrow> nat \<Rightarrow> u64 option" where
  "set_idx m v i = (if m = 0 then None else Some (fnv64a (word_of_nat i # bytes_of v) mod m))"

definition normalize :: "(string \<Rightarrow> string) \<Rightarrow> string \<Rightarrow> string" where
  "normalize uni_lower s0 =
     (let s1 = ToLower uni_lower s0;
          s2 = TrimSuffix s1 ''.'';
          s3 = (case Index s2 ''://'' of Some i \<Rightarrow> drop (i + 3) s2 | None \<Rightarrow> s2);
          s4 = takeWhile (\<lambda>c. c \<notin> set ''/?#'') s3
      in takeWhile (\<lambda>c. c \<noteq> CHR '':'') s4)"

definition set_add :: "string \<Rightarrow> blockset \<Rightarrow> blockset option" where
  "set_add v s =
     map_option (\<lambda>bits. s\<lparr>sbits := bits, numItems := numItems s + 1\<rparr>)
       (set_loop (set_idx (sm s) v) 0 (nat (sk s)) (sbits s))"

definition set_test :: "string \<Rightarrow> blockset \<Rightarrow> bool option" where
  "set_test v s = test_loop (set_idx (sm s) v) 0 (nat (sk s)) (sbits s)"

definition Contains :: "(string \<Rightarrow> string) \<Rightarrow> blockset \<Rightarrow> string \<Rightarrow> bool option" where
  "Contains uni_lower s host =
     (let v = normalize uni_lower host in if v = [] then Some False else set_test v s)"

subsection \<open>Loading\<close>

text \<open>The reading loop of \<^verbatim>\<open>LoadDomains\<close>; \<open>None\<close> is a reader that never ends.\<close>

partial_function (option) read_all :: "'s reader \<Rightarrow> bytes \<Rightarrow> 's \<Rightarrow> (bytes \<times> io_err option \<times> 's) option" where
  "read_all rd buf s =
     (case rd 4096 s of (got, e, s') \<Rightarrow>
        (case e of
           None \<Rightarrow> read_all rd (buf @ got) s'
         | Some err \<Rightarrow> if err = EOF then Some (buf @ got, None, s') else Some (buf @ got, Some err, s')))"

fun add_lines :: "(string \<Rightarrow> string) \<Rightarrow> (string \<Rightarrow> string) \<Rightarrow> string list \<Rightarrow> blockset \<Rightarrow> blockset option" where
  "add_lines uni_lower uni_trim [] s = Some s"
| "add_lines uni_lower uni_trim (l # ls) s =
     (let v = normalize uni_lower (TrimSpace uni_trim l) in
      if v \<noteq> [] \<and> \<not> HasPrefix v ''#''
      then Option.bind (set_add v s) (add_lines uni_lower uni_trim ls)
      else add_lines uni_lower uni_trim ls s)"

definition LoadDomains ::
  "(string \<Rightarrow> string) \<Rightarrow> (string \<Rightarrow> string) \<Rightarrow> int \<Rightarrow> 's reader \<Rightarrow> 's \<Rightarrow> blockset
     \<Rightarrow> (io_err option \<times> blockset) option" where
  "LoadDomains uni_lower uni_trim now rd st s =
     (case read_all rd [] st of
        None \<Rightarrow> None
      | Some (_, Some e, _) \<Rightarrow> Some (Some e, s)
      | Some (buf, None, _) \<Rightarrow>
          map_option (\<lambda>s'. (None, s'\<lparr>loadedAt := Some now\<rparr>))
            (add_lines uni_lower uni_trim (split_on (CHR 0x0A) (string_of buf)) s))"

text \<open>A token of the decoder: the start of an element with what \<^verbatim>\<open>DecodeElement\<close> makes of it, another
  token, or the error that ends the stream.\<close>

datatype xml_token = StartElement string "string + string" | OtherToken | TokenError string

fun LoadXML ::
  "(string \<Rightarrow> string) \<Rightarrow> (string \<Rightarrow> string) \<Rightarrow> int \<Rightarrow> xml_token list \<Rightarrow> blockset
     \<Rightarrow> (string option \<times> blockset) option" where
  "LoadXML uni_lower uni_trim now [] s = Some (None, s\<lparr>loadedAt := Some now\<rparr>)"
| "LoadXML uni_lower uni_trim now (OtherToken # ts) s = LoadXML uni_lower uni_trim now ts s"
| "LoadXML uni_lower uni_trim now (TokenError e # ts) s = Some (Some e, s)"
| "LoadXML uni_lower uni_trim now (StartElement name content # ts) s =
     (if ToLower uni_lower name \<in> {''domain'', ''ip'', ''ipv6'', ''url''} then
        (case content of
           Inl e \<Rightarrow> Some (Some e, s)
         | Inr text \<Rightarrow>
             let v = normalize uni_lower (TrimSpace uni_trim text) in
             if v \<noteq> []
             then Option.bind (set_add v s) (LoadXML uni_lower uni_trim now ts)
             else LoadXML uni_lower uni_trim now ts s)
      else LoadXML uni_lower uni_trim now ts s)"

subsection \<open>The set meets the interface of an approximate set\<close>

definition set_ok :: "blockset \<Rightarrow> bool" where
  "set_ok s \<longleftrightarrow> sm s \<noteq> 0 \<and> 64 dvd unat (sm s) \<and> length (sbits s) = unat (sm s) div 64"

definition set_pos :: "blockset \<Rightarrow> string \<Rightarrow> nat set" where
  "set_pos s v = (\<lambda>i. unat (the (set_idx (sm s) v i))) ` {0..<nat (sk s)}"

lemma set_idx_range:
  assumes "set_ok s"
  shows "\<exists>idx. set_idx (sm s) v i = Some idx \<and> unat idx < 64 * length (sbits s)"
proof -
  have m: "sm s \<noteq> 0" "64 * length (sbits s) = unat (sm s)"
    using assms by (auto simp: set_ok_def)
  have "0 < unat (sm s)"
    using m(1) by (simp add: unat_gt_0)
  then show ?thesis
    using m by (simp add: set_idx_def unat_mod)
qed

interpretation blocked: approx_set set_add set_test set_ok "\<lambda>s. marked (sbits s)" set_pos
proof unfold_locales
  fix s v
  assume ok: "set_ok s"
  obtain bits where "set_loop (set_idx (sm s) v) 0 (nat (sk s)) (sbits s) = Some bits"
    "length bits = length (sbits s)"
    "marked bits = marked (sbits s) \<union> (\<lambda>j. unat (the (set_idx (sm s) v j))) ` {0..<0 + nat (sk s)}"
    by (rule set_loop_marked [of "set_idx (sm s) v" "sbits s" 0 "nat (sk s)", OF set_idx_range [OF ok]])
  then show "\<exists>s'. set_add v s = Some s' \<and> set_ok s' \<and> marked (sbits s') = marked (sbits s) \<union> set_pos s v
      \<and> set_pos s' = set_pos s"
    using ok by (simp add: set_add_def set_ok_def set_pos_def fun_eq_iff)
next
  fix s v
  assume ok: "set_ok s"
  show "set_test v s = Some (set_pos s v \<subseteq> marked (sbits s))"
    unfolding set_test_def set_pos_def
    by (subst test_loop_marked [OF set_idx_range [OF ok]]) auto
qed

lemma NewSet_ok: "m \<noteq> 0 \<Longrightarrow> unat m \<le> 2 ^ 64 - 64 \<Longrightarrow> set_ok (NewSet m k)"
  using round_up_64_ok [of m] by (simp add: NewSet_def set_ok_def Let_def unat_div)

context byte_source
begin

lemma read_all_content:
  "\<exists>s'. read_all rd buf s = Some (buf @ content s, (if final s = EOF then None else Some (final s)), s')"
proof (induction "pending s" arbitrary: buf s rule: less_induct)
  case less
  obtain got e t where rd: "rd 4096 s = (got, e, t)"
    by (metis prod_cases3)
  show ?case
  proof (cases e)
    case None
    then have t: "content s = got @ content t" "pending t < pending s" "final t = final s"
      using read_ok [of 4096 s got t] rd by simp_all
    then show ?thesis
      using less.hyps [OF t(2), of "buf @ got"] None by (subst read_all.simps) (auto simp: rd)
  next
    case (Some err)
    then have "content s = got" "err = final s"
      using read_err [of 4096 s got err t] rd by simp_all
    then show ?thesis
      using Some by (subst read_all.simps) (simp add: rd)
  qed
qed

end

subsection \<open>What loading inserts\<close>

lemma normalize_plain_head: "c \<in> set ''/?#'' \<Longrightarrow> hd (normalize uni_lower s) = c \<Longrightarrow> normalize uni_lower s = []"
proof -
  assume c: "c \<in> set ''/?#''" "hd (normalize uni_lower s) = c"
  have "x \<notin> set ''/?#''" if "x \<in> set (normalize uni_lower s)" for x
    using that by (auto simp: normalize_def Let_def dest!: set_takeWhileD)
  then show ?thesis
    using c by (metis hd_in_set)
qed

text \<open>The test for comment lines never fires: a normalised line does not start with a hash.\<close>

lemma no_hash: "v = normalize uni_lower s \<Longrightarrow> v \<noteq> [] \<Longrightarrow> \<not> HasPrefix v ''#''"
proof (rule notI)
  assume v: "v = normalize uni_lower s" "v \<noteq> []" "HasPrefix v ''#''"
  have "hd v = CHR ''#''"
    using v(2,3) by (cases v) (simp_all add: HasPrefix_def)
  then show False
    using normalize_plain_head [of "CHR ''#''" uni_lower s] v(1,2) by simp
qed

definition line_keys :: "(string \<Rightarrow> string) \<Rightarrow> (string \<Rightarrow> string) \<Rightarrow> string list \<Rightarrow> string list" where
  "line_keys uni_lower uni_trim ls = filter (\<lambda>v. v \<noteq> []) (map (\<lambda>l. normalize uni_lower (TrimSpace uni_trim l)) ls)"

lemma add_lines_keys:
  "add_lines uni_lower uni_trim ls s = blocked.insert_all (line_keys uni_lower uni_trim ls) s"
proof (induction ls arbitrary: s)
  case (Cons l ls)
  let ?v = "normalize uni_lower (TrimSpace uni_trim l)"
  have IH: "add_lines uni_lower uni_trim ls = blocked.insert_all (line_keys uni_lower uni_trim ls)"
    using Cons.IH by (rule ext)
  show ?case
  proof (cases "?v = []")
    case True
    then show ?thesis
      by (simp add: line_keys_def Let_def IH)
  next
    case False
    then have "\<not> HasPrefix ?v ''#''"
      by (rule no_hash [OF refl])
    with False show ?thesis
      by (simp add: line_keys_def Let_def IH)
  qed
qed (simp add: line_keys_def)

text \<open>The keys of a register, up to the first error, which comes second.\<close>

fun xml_keys :: "(string \<Rightarrow> string) \<Rightarrow> (string \<Rightarrow> string) \<Rightarrow> xml_token list \<Rightarrow> string list \<times> string option" where
  "xml_keys uni_lower uni_trim [] = ([], None)"
| "xml_keys uni_lower uni_trim (OtherToken # ts) = xml_keys uni_lower uni_trim ts"
| "xml_keys uni_lower uni_trim (TokenError e # ts) = ([], Some e)"
| "xml_keys uni_lower uni_trim (StartElement name content # ts) =
     (if ToLower uni_lower name \<in> {''domain'', ''ip'', ''ipv6'', ''url''} then
        (case content of
           Inl e \<Rightarrow> ([], Some e)
         | Inr text \<Rightarrow> (let v = normalize uni_lower (TrimSpace uni_trim text); (vs, e) = xml_keys uni_lower uni_trim ts in
             (if v \<noteq> [] then v # vs else vs, e)))
      else xml_keys uni_lower uni_trim ts)"

lemma LoadXML_keys:
  "LoadXML uni_lower uni_trim now ts s = map_option
     (\<lambda>s'. (snd (xml_keys uni_lower uni_trim ts),
        case snd (xml_keys uni_lower uni_trim ts) of None \<Rightarrow> s'\<lparr>loadedAt := Some now\<rparr> | Some _ \<Rightarrow> s'))
     (blocked.insert_all (fst (xml_keys uni_lower uni_trim ts)) s)"
proof (induction uni_lower uni_trim ts arbitrary: s rule: xml_keys.induct)
  case (4 uni_lower uni_trim name content ts)
  show ?case
  proof (cases "ToLower uni_lower name \<in> {''domain'', ''ip'', ''ipv6'', ''url''}")
    case True
    then show ?thesis
      using 4 by (cases content) (auto simp: Let_def split_beta split: bind_split)
  next
    case False
    then show ?thesis
      using 4(2) [OF False] by simp
  qed
qed auto

lemma set_add_fields: "set_add v s = Some s' \<Longrightarrow> numItems s' = numItems s + 1 \<and> sm s' = sm s \<and> sk s' = sk s \<and> loadedAt s' = loadedAt s"
  by (auto simp: set_add_def)

lemma insert_all_count: "blocked.insert_all vs s = Some s' \<Longrightarrow> numItems s' = numItems s + int (length vs)"
proof (induction vs arbitrary: s)
  case (Cons v vs)
  then obtain t where "set_add v s = Some t" "blocked.insert_all vs t = Some s'"
    by (auto simp: bind_eq_Some_conv)
  then show ?case
    using Cons.IH set_add_fields by fastforce
qed simp

lemma set_test_loadedAt [simp]: "set_test v (s\<lparr>loadedAt := t\<rparr>) = set_test v s"
  by (simp add: set_test_def)

lemma set_ok_loadedAt [simp]: "set_ok (s\<lparr>loadedAt := t\<rparr>) = set_ok s"
  by (simp add: set_ok_def)

text \<open>What an insertion of keys leaves: a well-formed set, its keys found, nothing lost.\<close>

lemma insert_all_found:
  assumes "set_ok s" "blocked.insert_all vs s = Some s'"
  shows "set_ok s'" "v \<in> set vs \<Longrightarrow> set_test v s' = Some True" "set_test v s = Some True \<Longrightarrow> set_test v s' = Some True"
proof -
  obtain t where t: "blocked.insert_all vs s = Some t" "set_ok t" "set_pos t = set_pos s"
    "marked (sbits t) = marked (sbits s) \<union> (\<Union>k \<in> set vs. set_pos s k)"
    using blocked.insert_all_ok [OF assms(1), of vs] by blast
  then have [simp]: "t = s'"
    using assms(2) by simp
  show "set_ok s'"
    using t(2) by simp
  show "set_test v s' = Some True" if "v \<in> set vs"
    using blocked.no_false_negative [OF assms(1) that assms(2)] .
  show "set_test v s' = Some True" if "set_test v s = Some True"
    using that t by (auto simp: blocked.member_ok assms(1))
qed

lemma Contains_iff:
  "Contains uni_lower s host = Some True \<longleftrightarrow> normalize uni_lower host \<noteq> [] \<and> set_test (normalize uni_lower host) s = Some True"
  by (simp add: Contains_def Let_def)

subsection \<open>Normalisation\<close>

lemma lower_special: "x \<in> set '':/?#.'' \<Longrightarrow> lower_char c = x \<longleftrightarrow> c = x"
proof -
  assume x: "x \<in> set '':/?#.''"
  show ?thesis
  proof (cases "65 \<le> (of_char c :: nat) \<and> of_char c \<le> (90 :: nat)")
    case True
    then have "of_char (lower_char c) = (of_char c :: nat) + 32"
      by (simp add: lower_char_def)
    moreover have "of_char x < (64 :: nat)"
      using x by auto
    ultimately show ?thesis
      using True by auto
  next
    case False
    then show ?thesis
      by (auto simp: lower_char_def)
  qed
qed

lemma lower_not_special: "x \<in> set '':/?#.'' \<Longrightarrow> x \<notin> set s \<Longrightarrow> x \<notin> set (map lower_char s)"
  using lower_special by fastforce

lemma lower_last: "s \<noteq> [] \<Longrightarrow> last s \<noteq> CHR ''.'' \<Longrightarrow> last (map lower_char s) \<noteq> CHR ''.''"
  using lower_special [of "CHR ''.''" "last s"] by (simp add: last_map)

lemma cut_plain: "set h \<inter> set '':/?#'' = {} \<Longrightarrow>
   takeWhile (\<lambda>c. c \<noteq> CHR '':'') (takeWhile (\<lambda>c. c \<notin> set ''/?#'') h) = h"
  by (induction h) auto

lemma cut_rest:
  assumes "set h \<inter> set '':/?#'' = {}" "rest = [] \<or> hd rest \<in> set '':/?#''"
  shows "takeWhile (\<lambda>c. c \<noteq> CHR '':'') (takeWhile (\<lambda>c. c \<notin> set ''/?#'') (h @ rest)) = h"
  using assms by (induction h) (cases rest; auto)+

lemma host_lower:
  assumes "set h \<inter> set '':/?#'' = {}"
  shows "set (map lower_char h) \<inter> set '':/?#'' = {}"
  using assms lower_not_special [of "CHR '':''" h] lower_not_special [of "CHR ''/''" h]
    lower_not_special [of "CHR ''?''" h] lower_not_special [of "CHR ''#''" h] by simp

lemma normalize_plain:
  assumes "list_all is_ascii h" "h \<noteq> []" "set h \<inter> set '':/?#'' = {}" "last h \<noteq> CHR ''.''"
  shows "normalize uni_lower h = map lower_char h"
proof -
  have "TrimSuffix (map lower_char h) ''.'' = map lower_char h"
    using assms(2,4) by (intro TrimSuffix_other disjI2 lower_last)
  moreover have "Index (map lower_char h) ''://'' = None"
    using host_lower [OF assms(3)] by (intro Index_None) auto
  ultimately show ?thesis
    using cut_plain [OF host_lower [OF assms(3)]] assms(1)
    by (simp only: normalize_def ToLower_def Let_def if_True option.case)
qed

lemma normalize_dot:
  assumes "list_all is_ascii h" "h \<noteq> []" "set h \<inter> set '':/?#'' = {}" "last h \<noteq> CHR ''.''"
  shows "normalize uni_lower (h @ ''.'') = map lower_char h"
proof -
  have low: "ToLower uni_lower (h @ ''.'') = map lower_char h @ ''.''"
    using assms(1) by (simp add: ToLower_def is_ascii_def lower_char_def)
  have "Index (map lower_char h) ''://'' = None"
    using host_lower [OF assms(3)] by (intro Index_None) auto
  then show ?thesis
    using cut_plain [OF host_lower [OF assms(3)]]
    by (simp only: normalize_def low TrimSuffix_dot Let_def option.case)
qed

lemma normalize_url:
  assumes "list_all is_ascii h" "list_all is_ascii scheme" "list_all is_ascii rest"
    and "h \<noteq> []" "set h \<inter> set '':/?#'' = {}" "last h \<noteq> CHR ''.''" "CHR '':'' \<notin> set scheme"
    and "rest = [] \<or> hd rest \<in> set '':/?#'' \<and> last rest \<noteq> CHR ''.''"
  shows "normalize uni_lower (scheme @ ''://'' @ h @ rest) = map lower_char h"
proof -
  let ?s = "scheme @ ''://'' @ h @ rest"
  let ?h = "map lower_char h" and ?r = "map lower_char rest" and ?p = "map lower_char scheme"
  have low: "ToLower uni_lower ?s = ?p @ ''://'' @ ?h @ ?r"
    using assms(1-3) by (simp add: ToLower_def is_ascii_def lower_char_def)
  have "last ?s \<noteq> CHR ''.''"
    using assms(4,6,8) by (cases "rest = []") auto
  then have "last (map lower_char ?s) \<noteq> CHR ''.''"
    by (intro lower_last) simp_all
  moreover have "map lower_char ?s = ?p @ ''://'' @ ?h @ ?r"
    by (simp add: lower_char_def)
  ultimately have trim: "TrimSuffix (?p @ ''://'' @ ?h @ ?r) ''.'' = ?p @ ''://'' @ ?h @ ?r"
    using assms(4) by (intro TrimSuffix_other) simp
  have "CHR '':'' \<notin> set ?p"
    using assms(7) by (intro lower_not_special) simp_all
  then have idx: "Index (?p @ ''://'' @ ?h @ ?r) ''://'' = Some (length ?p)"
    by (intro Index_skip) simp_all
  have drop: "drop (length ?p + 3) (?p @ ''://'' @ ?h @ ?r) = ?h @ ?r"
    by simp
  have "?r = [] \<or> hd ?r \<in> set '':/?#''"
    using assms(8) lower_special by (cases rest) auto
  then have "takeWhile (\<lambda>c. c \<noteq> CHR '':'') (takeWhile (\<lambda>c. c \<notin> set ''/?#'') (?h @ ?r)) = ?h"
    using host_lower [OF assms(5)] by (intro cut_rest)
  then show ?thesis
    by (simp only: normalize_def low trim idx drop Let_def option.case)
qed

lemma normalize_colon:
  assumes "list_all is_ascii t" "CHR ''/'' \<notin> set t"
  shows "normalize uni_lower (CHR '':'' # t) = []"
proof -
  let ?t = "CHR '':'' # map lower_char t"
  have low: "ToLower uni_lower (CHR '':'' # t) = ?t"
    using assms(1) by (simp add: ToLower_def is_ascii_def lower_char_def)
  obtain u where u: "TrimSuffix ?t ''.'' = CHR '':'' # u" "set u \<subseteq> set (map lower_char t)"
  proof (cases "map lower_char t" rule: rev_cases)
    case Nil
    then show ?thesis
      using that [of "[]"] by (simp add: TrimSuffix_def)
  next
    case (snoc v c)
    then show ?thesis
      using that [of v] that [of "v @ [c]"] by (cases "c = CHR ''.''") (auto simp: TrimSuffix_def)
  qed
  have "CHR ''/'' \<notin> set (CHR '':'' # u)"
    using u(2) lower_not_special [of "CHR ''/''" t] assms(2) by auto
  then have "Index (CHR '':'' # u) ''://'' = None"
    by (intro Index_absent [of "CHR ''/''"]) simp_all
  then show ?thesis
    by (simp add: normalize_def low u(1) Let_def)
qed

subsection \<open>Properties\<close>

text \<open>C30. No false negatives for a plain list: a load from a connection that ends cleanly does not
  panic; every line of it is found afterwards, under every spelling of its host, unless it
  normalises to nothing; nothing that was found before is lost, and the count grows by the lines
  that were kept. A read error leaves the set as it was.\<close>

theorem LoadDomains_no_false_negative:
  assumes "set_ok s"
  shows "\<exists>s'. LoadDomains uni_lower uni_trim now seg_read (segs, e) s = Some (if e = EOF then None else Some e, s') \<and> set_ok s'
     \<and> (Contains uni_lower s host = Some True \<longrightarrow> Contains uni_lower s' host = Some True)
     \<and> (if e \<noteq> EOF then s' = s
        else LoadedAt s' = Some now
          \<and> Len s' = Len s + int (length (line_keys uni_lower uni_trim (split_on (CHR 0x0A) (string_of (concat segs)))))
          \<and> (line \<in> set (split_on (CHR 0x0A) (string_of (concat segs)))
               \<and> normalize uni_lower (TrimSpace uni_trim line) = normalize uni_lower host \<and> normalize uni_lower host \<noteq> []
             \<longrightarrow> Contains uni_lower s' host = Some True))"
proof -
  obtain c where read: "read_all seg_read [] (segs, e) = Some (concat segs, (if e = EOF then None else Some e), c)"
    using sock.read_all_content [of "[]" "(segs, e)"] by (auto simp: conn_content_def)
  let ?ls = "split_on (CHR 0x0A) (string_of (concat segs))"
  obtain t where t: "blocked.insert_all (line_keys uni_lower uni_trim ?ls) s = Some t"
    using blocked.insert_all_ok [OF assms] by blast
  show ?thesis
  proof (cases "e = EOF")
    case True
    have "normalize uni_lower host \<in> set (line_keys uni_lower uni_trim ?ls)"
      if "line \<in> set ?ls" "normalize uni_lower (TrimSpace uni_trim line) = normalize uni_lower host" "normalize uni_lower host \<noteq> []"
      using that by (force simp: line_keys_def)
    then show ?thesis
      using True read t insert_all_found [OF assms t] insert_all_count [OF t]
      by (simp add: LoadDomains_def add_lines_keys Contains_iff)
  next
    case False
    then show ?thesis
      using read assms by (simp add: LoadDomains_def)
  qed
qed

text \<open>No false negatives for the register: loading does not panic; every host of a domain, IP or URL
  element before the first error is found afterwards and stays found, and the error of the decoder
  is passed on. What was inserted before an error stays inserted.\<close>

theorem LoadXML_no_false_negative:
  assumes "set_ok s" and "xml_keys uni_lower uni_trim ts = (vs, err)"
  shows "\<exists>s'. LoadXML uni_lower uni_trim now ts s = Some (err, s') \<and> set_ok s'
     \<and> numItems s' = numItems s + int (length vs)
     \<and> (normalize uni_lower host \<in> set vs \<and> normalize uni_lower host \<noteq> [] \<or> Contains uni_lower s host = Some True
          \<longrightarrow> Contains uni_lower s' host = Some True)"
proof -
  obtain t where t: "blocked.insert_all vs s = Some t"
    using blocked.insert_all_ok [OF assms(1)] by blast
  show ?thesis
    using insert_all_found [OF assms(1) t] insert_all_count [OF t] assms(2) t
    by (cases err) (auto simp: LoadXML_keys Contains_iff)
qed



theorem LoadDomains_no_false_negative_witness:
  "\<exists>s'. LoadDomains id id 0 seg_read ([bytes_of ''a.b'', [10] @ bytes_of ''Ya.RU''], EOF) (NewSet 128 3) = Some (None, s')
     \<and> Contains id s' ''ya.ru.'' = Some True"
proof -
  have "set_ok (NewSet 128 3)"
    by (rule NewSet_ok) simp_all
  moreover have "''Ya.RU'' \<in> set (split_on (CHR 0x0A) (string_of (concat [bytes_of ''a.b'', [10] @ bytes_of ''Ya.RU''])))"
    by code_simp
  moreover have "normalize id (TrimSpace id ''Ya.RU'') = normalize id ''ya.ru.''" "normalize id ''ya.ru.'' \<noteq> []"
    by code_simp+
  ultimately show ?thesis
    using LoadDomains_no_false_negative [of "NewSet 128 3" id id 0 "[bytes_of ''a.b'', [10] @ bytes_of ''Ya.RU'']" EOF
        "''ya.ru.''" "''Ya.RU''"] by fastforce
qed

theorem LoadXML_no_false_negative_witness:
  "\<exists>s'. LoadXML id id 0 [OtherToken, StartElement ''Domain'' (Inr ''Ya.RU''), TokenError ''bad''] (NewSet 128 3)
       = Some (Some ''bad'', s') \<and> Contains id s' ''ya.ru'' = Some True"
proof -
  have "set_ok (NewSet 128 3)"
    by (rule NewSet_ok) simp_all
  moreover have "xml_keys id id [OtherToken, StartElement ''Domain'' (Inr ''Ya.RU''), TokenError ''bad'']
      = ([''ya.ru''], Some ''bad'')"
    by code_simp
  moreover have "normalize id ''ya.ru'' = ''ya.ru''"
    by code_simp
  ultimately show ?thesis
    using LoadXML_no_false_negative [of "NewSet 128 3" id id
        "[OtherToken, StartElement ''Domain'' (Inr ''Ya.RU''), TokenError ''bad'']" "[''ya.ru'']" "Some ''bad''" 0 "''ya.ru''"]
    by auto
qed

end
