(* ===== verification/GoNum.thy ===== *)
theory GoNum
  imports Base
begin

text \<open>
  Numbers as text: \<^verbatim>\<open>strconv.Itoa\<close>, \<^verbatim>\<open>%d\<close> and \<^verbatim>\<open>%x\<close> printing, and the digit loops that
  read them back. Base 10 and base 16 share the definitions \<open>num_str\<close> and \<open>num_val\<close>; the
  lemmas say that reading undoes printing, that a printed number has digits only and no
  leading zero, and how long it is.
\<close>

definition digit_char :: "nat \<Rightarrow> char" where
  "digit_char d = char_of (if d < 10 then 48 + d else 87 + d)"

definition is_digit :: "char \<Rightarrow> bool" where
  "is_digit c \<longleftrightarrow> 48 \<le> (of_char c :: nat) \<and> (of_char c :: nat) \<le> 57"

definition is_hex :: "char \<Rightarrow> bool" where
  "is_hex c \<longleftrightarrow> is_digit c \<or> (97 \<le> (of_char c :: nat) \<and> (of_char c :: nat) \<le> 102)
     \<or> (65 \<le> (of_char c :: nat) \<and> (of_char c :: nat) \<le> 70)"

definition digit_val :: "char \<Rightarrow> nat" where
  "digit_val c = (let n = of_char c in
     if n \<le> 57 then n - 48 else if n \<le> 70 then n - 55 else n - 87)"

fun num_str :: "nat \<Rightarrow> nat \<Rightarrow> string" where
  "num_str b n =
     (if b < 2 \<or> n < b then [digit_char n]
      else num_str b (n div b) @ [digit_char (n mod b)])"

declare num_str.simps [simp del]

definition num_val :: "nat \<Rightarrow> string \<Rightarrow> nat" where
  "num_val b s = foldl (\<lambda>a c. b * a + digit_val c) 0 s"

text \<open>\<^verbatim>\<open>strconv.Itoa\<close> of a non-negative int, and of any int.\<close>

definition itoa_nat :: "nat \<Rightarrow> string" where
  "itoa_nat n = num_str 10 n"

definition itoa_int :: "int \<Rightarrow> string" where
  "itoa_int i = (if i < 0 then CHR ''-'' # itoa_nat (nat (- i)) else itoa_nat (nat i))"

lemma num_str_small: "n < b \<Longrightarrow> num_str b n = [digit_char n]"
  by (subst num_str.simps) simp

lemma num_str_step: "2 \<le> b \<Longrightarrow> b \<le> n \<Longrightarrow> num_str b n = num_str b (n div b) @ [digit_char (n mod b)]"
  by (subst num_str.simps) simp

lemma num_str_nonempty [simp]: "num_str b n \<noteq> []"
  by (subst num_str.simps) simp

lemma num_val_Nil [simp]: "num_val b [] = 0"
  by (simp add: num_val_def)

lemma num_val_snoc [simp]: "num_val b (s @ [c]) = b * num_val b s + digit_val c"
  by (simp add: num_val_def)

lemma digit_val_char: "d < 16 \<Longrightarrow> digit_val (digit_char d) = d"
  by (simp add: digit_val_def digit_char_def)

lemma is_digit_char: "d < 10 \<Longrightarrow> is_digit (digit_char d)"
  by (simp add: is_digit_def digit_char_def)

lemma is_hex_char: "d < 16 \<Longrightarrow> is_hex (digit_char d)"
  by (simp add: is_hex_def is_digit_def digit_char_def)

lemma digit_char_0_iff: "d < 16 \<Longrightarrow> digit_char d = CHR ''0'' \<longleftrightarrow> d = 0"
proof -
  assume "d < 16"
  moreover have "digit_char 0 = CHR ''0''" and "digit_val (CHR ''0'') = 0"
    by code_simp+
  ultimately show ?thesis
    using digit_val_char [of d] by auto
qed

lemma num_val_str:
  assumes "2 \<le> b" "b \<le> 16"
  shows "num_val b (num_str b n) = n"
proof (induction n rule: less_induct)
  case (less n)
  show ?case
  proof (cases "n < b")
    case True
    then show ?thesis
      using assms num_val_snoc [of b "[]"] by (simp add: num_str_small digit_val_char)
  next
    case False
    then have "n div b < n" and "n mod b < 16"
      using assms by (simp_all add: order_less_le_trans [OF mod_less_divisor])
    with less False assms show ?thesis
      by (simp add: num_str_step digit_val_char)
  qed
qed

lemma num_str_set:
  assumes "2 \<le> b" "b \<le> 16"
  shows "c \<in> set (num_str b n) \<Longrightarrow> \<exists>d < b. c = digit_char d"
proof (induction n rule: less_induct)
  case (less n)
  show ?case
  proof (cases "n < b")
    case True
    with less.prems show ?thesis
      by (auto simp: num_str_small)
  next
    case False
    then have lt: "n div b < n" and "n mod b < b"
      using assms by simp_all
    moreover have "c \<in> set (num_str b (n div b)) \<or> c = digit_char (n mod b)"
      using less.prems False assms by (auto simp: num_str_step)
    ultimately show ?thesis
      using less.IH by blast
  qed
qed

lemma num_str_digits: "c \<in> set (num_str 10 n) \<Longrightarrow> is_digit c"
  using num_str_set [of 10 c n] by (auto simp: is_digit_char)

lemma num_str_hex: "c \<in> set (num_str 16 n) \<Longrightarrow> is_hex c"
  using num_str_set [of 16 c n] by (auto simp: is_hex_char)

lemma num_str_no_leading_zero:
  assumes "2 \<le> b" "b \<le> 16"
  shows "hd (num_str b n) = CHR ''0'' \<Longrightarrow> n = 0"
proof (induction n rule: less_induct)
  case (less n)
  show ?case
  proof (cases "n < b")
    case True
    with less.prems assms show ?thesis
      by (simp add: num_str_small digit_char_0_iff)
  next
    case False
    then have lt: "n div b < n" and "hd (num_str b (n div b)) = CHR ''0''"
      using assms less.prems by (simp_all add: num_str_step)
    then have "n div b = 0"
      using less.IH by blast
    with False assms show ?thesis
      by (simp add: div_eq_0_iff)
  qed
qed

lemma num_str_length:
  assumes "2 \<le> b"
  shows "n < b ^ Suc k \<Longrightarrow> length (num_str b n) \<le> Suc k"
proof (induction k arbitrary: n)
  case 0
  then show ?case
    by (simp add: num_str_small)
next
  case (Suc k)
  show ?case
  proof (cases "n < b")
    case True
    then show ?thesis
      by (simp add: num_str_small)
  next
    case False
    have "n div b < b ^ Suc k"
      using Suc.prems assms by (simp add: less_mult_imp_div_less mult.commute)
    with Suc.IH False assms show ?thesis
      by (simp add: num_str_step)
  qed
qed

lemma digit_neq [simp]:
  "is_digit c \<Longrightarrow> c \<noteq> CHR '':''" "is_digit c \<Longrightarrow> c \<noteq> CHR ''.''"
  "is_digit c \<Longrightarrow> c \<noteq> CHR ''[''" "is_digit c \<Longrightarrow> c \<noteq> CHR '']''"
  "is_digit c \<Longrightarrow> c \<noteq> CHR ''%''"
  by (auto simp: is_digit_def)

lemma itoa_nat_digits: "c \<in> set (itoa_nat n) \<Longrightarrow> is_digit c"
  by (simp add: itoa_nat_def num_str_digits)

lemma itoa_nat_plain:
  "CHR '':'' \<notin> set (itoa_nat n)" "CHR ''['' \<notin> set (itoa_nat n)" "CHR '']'' \<notin> set (itoa_nat n)"
  using itoa_nat_digits by (auto dest: itoa_nat_digits simp: is_digit_def)

lemma itoa_nat_nonempty [simp]: "itoa_nat n \<noteq> []"
  by (simp add: itoa_nat_def)

lemma num_val_itoa [simp]: "num_val 10 (itoa_nat n) = n"
  by (simp add: itoa_nat_def num_val_str)

end
