(* ===== verification/GoNet.thy ===== *)
theory GoNet
  imports GoNum
begin

text \<open>
  The part of Go's \<^verbatim>\<open>net\<close> package that the program calls on address strings:
  \<^verbatim>\<open>net.JoinHostPort\<close>, \<^verbatim>\<open>net.SplitHostPort\<close>, \<^verbatim>\<open>net.ParseIP\<close> and \<^verbatim>\<open>net.IP.String\<close> (with
  \<^verbatim>\<open>netip.ParseAddr\<close> behind it), after the standard library's source. The lemmas give the
  round trips the tunnel needs: splitting what was joined, and parsing a printed IPv4 address.
\<close>

subsection \<open>Host and port\<close>

definition find_index :: "char \<Rightarrow> string \<Rightarrow> nat option" where
  "find_index c s = (if c \<in> set s then Some (length (takeWhile (\<lambda>x. x \<noteq> c) s)) else None)"

definition find_last_index :: "char \<Rightarrow> string \<Rightarrow> nat option" where
  "find_last_index c s = map_option (\<lambda>i. length s - 1 - i) (find_index c (rev s))"

definition join_host_port :: "string \<Rightarrow> string \<Rightarrow> string" where
  "join_host_port host port =
     (if CHR '':'' \<in> set host then ''['' @ host @ '']:'' @ port else host @ '':'' @ port)"

datatype addr_err = MissingPort | TooManyColons | MissingBracket | UnexpectedOpen | UnexpectedClose

definition split_checks :: "string \<Rightarrow> nat \<Rightarrow> nat \<Rightarrow> nat \<Rightarrow> string \<Rightarrow> addr_err + string \<times> string" where
  "split_checks s i j k host =
     (if CHR ''['' \<in> set (drop j s) then Inl UnexpectedOpen
      else if CHR '']'' \<in> set (drop k s) then Inl UnexpectedClose
      else Inr (host, drop (i + 1) s))"

definition split_host_port :: "string \<Rightarrow> addr_err + string \<times> string" where
  "split_host_port s =
     (case find_last_index CHR '':'' s of
        None \<Rightarrow> Inl MissingPort
      | Some i \<Rightarrow>
        if s ! 0 = CHR ''['' then
          (case find_index CHR '']'' s of
             None \<Rightarrow> Inl MissingBracket
           | Some close \<Rightarrow>
             if close + 1 = length s then Inl MissingPort
             else if close + 1 = i then split_checks s i 1 (close + 1) (take (close - 1) (drop 1 s))
             else if s ! (close + 1) = CHR '':'' then Inl TooManyColons
             else Inl MissingPort)
        else if CHR '':'' \<in> set (take i s) then Inl TooManyColons
        else split_checks s i 0 0 (take i s))"

lemma find_index_append:
  "c \<notin> set xs \<Longrightarrow> find_index c (xs @ c # ys) = Some (length xs)"
  by (subst find_index_def, subst takeWhile_append2) auto

lemma find_last_index_append:
  "c \<notin> set ys \<Longrightarrow> find_last_index c (xs @ c # ys) = Some (length xs)"
  by (simp add: find_last_index_def find_index_append)

lemma split_join_plain:
  assumes "CHR '':'' \<notin> set h" "CHR ''['' \<notin> set h" "CHR '']'' \<notin> set h"
    and "CHR '':'' \<notin> set p" "CHR ''['' \<notin> set p" "CHR '']'' \<notin> set p"
  shows "split_host_port (join_host_port h p) = Inr (h, p)"
proof -
  have i: "find_last_index CHR '':'' (h @ CHR '':'' # p) = Some (length h)"
    using assms(4) by (rule find_last_index_append)
  have "(h @ CHR '':'' # p) ! 0 \<noteq> CHR ''[''"
    using assms(2) by (cases h) auto
  then show ?thesis
    using assms i by (simp add: join_host_port_def split_host_port_def split_checks_def)
qed

lemma split_join_bracket:
  assumes "CHR '':'' \<in> set h" "CHR ''['' \<notin> set h" "CHR '']'' \<notin> set h"
    and "CHR '':'' \<notin> set p" "CHR ''['' \<notin> set p" "CHR '']'' \<notin> set p"
  shows "split_host_port (join_host_port h p) = Inr (h, p)"
proof -
  let ?s = "CHR ''['' # h @ CHR '']'' # CHR '':'' # p"
  have i: "find_last_index CHR '':'' ?s = Some (length h + 2)"
    using find_last_index_append [OF assms(4), of "CHR ''['' # h @ [CHR '']'']"] by simp
  have close: "find_index CHR '']'' ?s = Some (length h + 1)"
    using find_index_append [of "CHR '']''" "CHR ''['' # h" "CHR '':'' # p"] assms(3) by simp
  show ?thesis
    using assms i close by (simp add: join_host_port_def split_host_port_def split_checks_def)
qed

lemma split_join:
  assumes "CHR ''['' \<notin> set h" "CHR '']'' \<notin> set h"
    and "CHR '':'' \<notin> set p" "CHR ''['' \<notin> set p" "CHR '']'' \<notin> set p"
  shows "split_host_port (join_host_port h p) = Inr (h, p)"
  using assms split_join_plain split_join_bracket by blast

subsection \<open>IP addresses\<close>

text \<open>\<^verbatim>\<open>parseIPv4Fields\<close>: the loop over the characters, with its state as arguments.\<close>

fun v4_loop :: "bool \<Rightarrow> nat \<Rightarrow> nat \<Rightarrow> bytes \<Rightarrow> string \<Rightarrow> bytes option" where
  "v4_loop at_dot val digs fields [] =
     (if length fields < 3 then None else Some (fields @ [word_of_nat val]))"
| "v4_loop at_dot val digs fields (c # cs) =
     (if is_digit c then
        (if digs = 1 \<and> val = 0 then None
         else if 255 < 10 * val + digit_val c then None
         else v4_loop False (10 * val + digit_val c) (digs + 1) fields cs)
      else if c = CHR ''.'' then
        (if at_dot \<or> cs = [] then None
         else if length fields = 3 then None
         else v4_loop True 0 0 (fields @ [word_of_nat val]) cs)
      else None)"

definition parse_ipv4 :: "string \<Rightarrow> bytes option" where
  "parse_ipv4 s = v4_loop True 0 0 [] s"

text \<open>\<^verbatim>\<open>parseIPv6\<close>: one round of the loop per group of hexadecimal digits.\<close>

function v6_loop :: "bytes \<Rightarrow> nat option \<Rightarrow> string \<Rightarrow> (bytes \<times> nat option \<times> string) option" where
  "v6_loop ip ellipsis s =
     (if 16 \<le> length ip then Some (ip, ellipsis, s)
      else
        (let grp = takeWhile is_hex s; rest = drop (length grp) s;
             ip' = ip @ be16 (word_of_nat (num_val 16 grp))
         in if grp = [] \<or> 4 < length grp then None
            else if rest \<noteq> [] \<and> hd rest = CHR ''.'' then
              (if ellipsis = None \<and> length ip \<noteq> 12 then None
               else if 16 < length ip + 4 then None
               else map_option (\<lambda>v4. (ip @ v4, ellipsis, [])) (parse_ipv4 s))
            else if rest = [] then Some (ip', ellipsis, [])
            else if hd rest \<noteq> CHR '':'' \<or> tl rest = [] then None
            else if hd (tl rest) = CHR '':'' then
              (if ellipsis \<noteq> None then None
               else if tl (tl rest) = [] then Some (ip', Some (length ip'), [])
               else v6_loop ip' (Some (length ip')) (tl (tl rest)))
            else v6_loop ip' ellipsis (tl rest)))"
  by pat_completeness auto
termination
  by (relation "measure (\<lambda>(ip, ellipsis, s). length s)") (auto simp: Let_def neq_Nil_conv dest!: arg_cong [of _ _ length])

declare v6_loop.simps [simp del]

definition v6_finish :: "bytes \<Rightarrow> nat option \<Rightarrow> string \<Rightarrow> bytes option" where
  "v6_finish ip ellipsis s =
     (if s \<noteq> [] then None
      else if length ip < 16 then
        map_option (\<lambda>e. take e ip @ replicate (16 - length ip) 0 @ drop e ip) ellipsis
      else if ellipsis \<noteq> None then None
      else Some ip)"

definition parse_ipv6 :: "string \<Rightarrow> bytes option" where
  "parse_ipv6 s =
     (if take 2 s = ''::'' then
        (if drop 2 s = [] then Some (replicate 16 0)
         else Option.bind (v6_loop [] (Some 0) (drop 2 s)) (\<lambda>(ip, e, r). v6_finish ip e r))
      else Option.bind (v6_loop [] None s) (\<lambda>(ip, e, r). v6_finish ip e r))"

definition v4_in_v6 :: "bytes \<Rightarrow> bytes" where
  "v4_in_v6 v4 = replicate 10 0 @ [255, 255] @ v4"

text \<open>
  \<^verbatim>\<open>net.ParseIP\<close>: the first of \<^verbatim>\<open>.\<close>, \<^verbatim>\<open>:\<close> and \<^verbatim>\<open>%\<close> decides; the result has 16 bytes. An address
  with a zone (or a bare \<^verbatim>\<open>%\<close>) is not an IP for this function.
\<close>

definition parse_ip :: "string \<Rightarrow> bytes option" where
  "parse_ip s =
     (case dropWhile (\<lambda>c. c \<notin> {CHR ''.'', CHR '':'', CHR ''%''}) s of
        [] \<Rightarrow> None
      | c # _ \<Rightarrow>
        if c = CHR ''.'' then map_option v4_in_v6 (parse_ipv4 s)
        else if c = CHR '':'' \<and> CHR ''%'' \<notin> set s then parse_ipv6 s
        else None)"

text \<open>\<^verbatim>\<open>IP.To4\<close>, \<^verbatim>\<open>IP.To16\<close> and \<^verbatim>\<open>IP.String\<close>.\<close>

definition to4 :: "bytes \<Rightarrow> bytes option" where
  "to4 ip =
     (if length ip = 4 then Some ip
      else if length ip = 16 \<and> take 12 ip = v4_in_v6 [] then Some (drop 12 ip)
      else None)"

definition to16 :: "bytes \<Rightarrow> bytes option" where
  "to16 ip =
     (if length ip = 4 then Some (v4_in_v6 ip)
      else if length ip = 16 then Some ip
      else None)"

fun join_with :: "string \<Rightarrow> string list \<Rightarrow> string" where
  "join_with sep [] = []"
| "join_with sep [x] = x"
| "join_with sep (x # y # xs) = x @ sep @ join_with sep (y # xs)"

definition v4_string :: "bytes \<Rightarrow> string" where
  "v4_string ip = join_with ''.'' (map (\<lambda>b. itoa_nat (unat b)) ip)"

fun groups16 :: "bytes \<Rightarrow> nat list" where
  "groups16 (a # b # bs) = unat (uint16 [a, b]) # groups16 bs"
| "groups16 _ = []"

text \<open>The longest run of at least two zero groups, the first one among equals.\<close>

definition zero_run :: "nat list \<Rightarrow> nat \<times> nat" where
  "zero_run ws = foldl
     (\<lambda>(zs, ze) i. let j = i + length (takeWhile (\<lambda>w. w = 0) (drop i ws))
        in if 2 \<le> j - i \<and> ze - zs < j - i then (i, j) else (zs, ze))
     (255, 255) [0..<8]"

definition v6_string :: "bytes \<Rightarrow> string" where
  "v6_string ip =
     (let ws = groups16 ip; hex = map (num_str 16); (zs, ze) = zero_run ws
      in if zs < 8 then
           join_with '':'' (hex (take zs ws)) @ ''::'' @ join_with '':'' (hex (drop ze ws))
         else join_with '':'' (hex ws))"

definition hex_string :: "bytes \<Rightarrow> string" where
  "hex_string bs = concat (map (\<lambda>b. [digit_char (unat b div 16), digit_char (unat b mod 16)]) bs)"

definition ip_string :: "bytes \<Rightarrow> string" where
  "ip_string ip =
     (if ip = [] then ''<nil>''
      else if length ip \<noteq> 4 \<and> length ip \<noteq> 16 then ''?'' @ hex_string ip
      else (case to4 ip of Some v4 \<Rightarrow> v4_string v4 | None \<Rightarrow> v6_string ip))"

lemma length_v4_in_v6 [simp]: "length (v4_in_v6 v4) = 12 + length v4"
  by (simp add: v4_in_v6_def)

lemma to4_v4_in_v6 [simp]: "length v4 = 4 \<Longrightarrow> to4 (v4_in_v6 v4) = Some v4"
  by (simp add: to4_def v4_in_v6_def)

text \<open>
  What the IPv4 parser accepts is what \<open>v4_string\<close> prints: there are no leading zeros. The loop's
  state stands for the text read so far, \<open>v4_prefix\<close>.
\<close>

definition v4_prefix :: "bytes \<Rightarrow> string" where
  "v4_prefix fields = concat (map (\<lambda>b. itoa_nat (unat b) @ ''.'') fields)"

definition v4_digits :: "nat \<Rightarrow> nat \<Rightarrow> string" where
  "v4_digits val digs = (if digs = 0 then [] else itoa_nat val)"

lemma join_with_snoc: "xs \<noteq> [] \<Longrightarrow> join_with sep (xs @ [y]) = join_with sep xs @ sep @ y"
  by (induction sep xs rule: join_with.induct) auto

lemma v4_string_snoc: "v4_string (fields @ [b]) = v4_prefix fields @ itoa_nat (unat b)"
proof (induction fields arbitrary: b rule: rev_induct)
  case (snoc x fields)
  have "v4_string ((fields @ [x]) @ [b]) = v4_string (fields @ [x]) @ ''.'' @ itoa_nat (unat b)"
    unfolding v4_string_def map_append list.map by (rule join_with_snoc) simp
  then show ?case
    by (simp add: snoc v4_prefix_def)
qed (simp add: v4_string_def v4_prefix_def)

lemma itoa_nat_snoc:
  assumes "is_digit c" "0 < val"
  shows "itoa_nat (10 * val + digit_val c) = itoa_nat val @ [c]"
proof -
  have c: "digit_val c < 10" "digit_char (digit_val c) = c"
    using assms(1) by (auto simp: is_digit_def digit_val_def digit_char_def)
  then show ?thesis
    using assms(2) num_str_step [of 10 "10 * val + digit_val c"] by (simp add: itoa_nat_def)
qed

lemma itoa_nat_digit: "is_digit c \<Longrightarrow> itoa_nat (digit_val c) = [c]"
  by (auto simp: itoa_nat_def is_digit_def digit_val_def digit_char_def num_str_small)

lemma v4_loop_text:
  assumes "v4_loop at_dot val digs fields s = Some ip" and "s = [] \<longrightarrow> 0 < digs"
    and "at_dot \<longleftrightarrow> digs = 0" "digs = 0 \<longrightarrow> val = 0" "val \<le> 255" "1 < digs \<longrightarrow> 0 < val"
    and "length fields \<le> 3"
  shows "v4_string ip = v4_prefix fields @ v4_digits val digs @ s \<and> length ip = 4"
  using assms
proof (induction at_dot val digs fields s rule: v4_loop.induct)
  case (1 at_dot val digs fields)
  then show ?case
    by (auto simp: v4_string_snoc v4_digits_def unat_of_nat split: if_splits)
next
  case (2 at_dot val digs fields c cs)
  show ?case
  proof (cases "is_digit c")
    case True
    then have c: "\<not> (digs = 1 \<and> val = 0)" "10 * val + digit_val c \<le> 255"
      and rest: "v4_loop False (10 * val + digit_val c) (digs + 1) fields cs = Some ip"
      using "2.prems"(1) by (auto split: if_splits)
    have pos: "1 < digs + 1 \<longrightarrow> 0 < val"
      using c(1) "2.prems"(6) by (cases digs) auto
    have "v4_string ip = v4_prefix fields @ v4_digits (10 * val + digit_val c) (digs + 1) @ cs \<and> length ip = 4"
      using "2.IH"(1) [OF True c(1) _ rest] c "2.prems"(7) pos by simp
    moreover have "v4_digits (10 * val + digit_val c) (digs + 1) = v4_digits val digs @ [c]"
      using pos "2.prems"(4) True by (auto simp: v4_digits_def itoa_nat_snoc itoa_nat_digit)
    ultimately show ?thesis
      by simp
  next
    case False
    then have d: "c = CHR ''.''" "\<not> (at_dot \<or> cs = [])" "length fields \<noteq> 3"
      and rest: "v4_loop True 0 0 (fields @ [word_of_nat val]) cs = Some ip"
      using "2.prems"(1) by (auto split: if_splits)
    have "v4_string ip = v4_prefix (fields @ [word_of_nat val]) @ v4_digits 0 0 @ cs \<and> length ip = 4"
      using "2.IH"(2) [OF False d(1) d(2) d(3) rest] d "2.prems"(7) by simp
    then show ?thesis
      using d "2.prems"(3,5) by (simp add: v4_prefix_def v4_digits_def unat_of_nat)
  qed
qed

lemma parse_ipv4_text: "parse_ipv4 s = Some ip \<Longrightarrow> v4_string ip = s \<and> length ip = 4"
proof -
  assume p: "parse_ipv4 s = Some ip"
  then have "s \<noteq> []"
    by (auto simp: parse_ipv4_def)
  with p show ?thesis
    using v4_loop_text [of True 0 0 "[]" s ip] by (simp add: parse_ipv4_def v4_prefix_def v4_digits_def)
qed

text \<open>A host without colon is either not an address or an IPv4 literal in printed form.\<close>

lemma parse_ip_no_colon:
  assumes "parse_ip s = Some ip" "CHR '':'' \<notin> set s"
  shows "ip_string ip = s"
proof -
  obtain c r where d: "dropWhile (\<lambda>c. c \<notin> {CHR ''.'', CHR '':'', CHR ''%''}) s = c # r"
    and p: "(if c = CHR ''.'' then map_option v4_in_v6 (parse_ipv4 s)
        else if c = CHR '':'' \<and> CHR ''%'' \<notin> set s then parse_ipv6 s else None) = Some ip"
    using assms(1) by (auto simp: parse_ip_def split: list.splits)
  have "c \<in> set s"
    using d by (metis list.set_intros(1) set_dropWhileD)
  then have "c \<noteq> CHR '':''"
    using assms(2) by blast
  then obtain v4 where v4: "parse_ipv4 s = Some v4" "ip = v4_in_v6 v4"
    using p by (auto split: if_splits)
  have "v4_string v4 = s" "length v4 = 4"
    using parse_ipv4_text [OF v4(1)] by simp_all
  moreover have "ip \<noteq> []"
    using v4(2) by (simp add: v4_in_v6_def)
  ultimately show ?thesis
    by (simp add: ip_string_def v4(2))
qed

text \<open>An address that parses has 16 bytes.\<close>

lemma v6_loop_length:
  assumes "v6_loop ip e s = Some (ip', e', r)" "even (length ip)" "length ip \<le> 16"
  shows "length ip' \<le> 16"
  using assms
proof (induction ip e s rule: v6_loop.induct)
  case (1 ip e s)
  let ?g = "takeWhile is_hex s"
  let ?rest = "drop (length ?g) s" and ?ip = "ip @ be16 (word_of_nat (num_val 16 ?g))"
  show ?case
  proof (cases "16 \<le> length ip")
    case True
    then show ?thesis
      using "1.prems" by (simp add: v6_loop.simps)
  next
    case False
    then have "length ip \<le> 14"
      using "1.prems"(2) by (auto elim!: evenE)
    then have ip: "even (length ?ip)" "length ?ip \<le> 16"
      using "1.prems"(2) by simp_all
    note step = "1.prems"(1) [unfolded v6_loop.simps [of ip e s] Let_def]
    show ?thesis
      using step False ip "1.IH" [OF False refl refl refl] parse_ipv4_text
      by (auto split: if_splits)
  qed
qed

lemma parse_ipv6_length:
  assumes "parse_ipv6 s = Some ip"
  shows "length ip = 16"
proof -
  have fin: "length r = 16" if "v6_finish i e t = Some r" "length i \<le> 16" for i e t r
    using that by (auto simp: v6_finish_def split: if_splits)
  show ?thesis
    using assms by (auto simp: parse_ipv6_def bind_eq_Some_conv split: if_splits dest!: fin v6_loop_length)
qed

lemma parse_ip_length:
  assumes "parse_ip s = Some ip"
  shows "length ip = 16"
  using assms parse_ipv4_text parse_ipv6_length
  by (auto simp: parse_ip_def v4_in_v6_def split: list.splits if_splits)

text \<open>A printed address has hexadecimal digits, dots and colons only, and is short.\<close>

lemma join_with_set: "c \<in> set (join_with sep xs) \<Longrightarrow> c \<in> set sep \<or> (\<exists>x \<in> set xs. c \<in> set x)"
  by (induction sep xs rule: join_with.induct) auto

lemma join_with_length:
  "\<forall>x \<in> set xs. length x \<le> n \<Longrightarrow> length (join_with sep xs) \<le> (n + length sep) * length xs"
  by (induction sep xs rule: join_with.induct) auto

lemma join_with_Nil: "join_with '':'' xs = [] \<longleftrightarrow> xs = [] \<or> xs = [[]]"
  by (cases "('':'', xs)" rule: join_with.cases) auto

lemma groups16_small: "n \<in> set (groups16 ip) \<Longrightarrow> n < 65536"
proof (induction ip rule: groups16.induct)
  case (1 a b bs)
  have "unat (uint16 [a, b]) < 2 ^ LENGTH(16)"
    by (rule unsigned_less)
  with 1 show ?case
    by auto
qed auto

lemma length_groups16: "length (groups16 ip) = length ip div 2"
  by (induction ip rule: groups16.induct) auto

lemma groups16_text:
  assumes "n \<in> set (groups16 ip)"
  shows "length (num_str 16 n) \<le> 4" "c \<in> set (num_str 16 n) \<Longrightarrow> is_hex c"
proof -
  have "n < 16 ^ Suc 3"
    using groups16_small [OF assms] by simp
  then have "length (num_str 16 n) \<le> Suc 3"
    by (intro num_str_length) simp_all
  then show "length (num_str 16 n) \<le> 4"
    by simp
qed (rule num_str_hex)

lemma v4_string_text:
  assumes "length ip = 4"
  shows "c \<in> set (v4_string ip) \<Longrightarrow> is_hex c \<or> c = CHR ''.''" "length (v4_string ip) \<le> 16" "v4_string ip \<noteq> []"
proof -
  show "c \<in> set (v4_string ip) \<Longrightarrow> is_hex c \<or> c = CHR ''.''"
    using itoa_nat_digits by (auto simp: v4_string_def is_hex_def dest!: join_with_set)
  have "length (itoa_nat (unat b)) \<le> 3" for b :: byte
  proof -
    have "unat b < 10 ^ Suc 2"
      by (rule less_le_trans [OF unat_byte]) simp
    then have "length (num_str 10 (unat b)) \<le> Suc 2"
      by (intro num_str_length) simp_all
    then show ?thesis
      by (simp add: itoa_nat_def)
  qed
  then have "length (v4_string ip) \<le> (3 + length ''.'') * length (map (\<lambda>b. itoa_nat (unat b)) ip)"
    unfolding v4_string_def by (intro join_with_length) auto
  then show "length (v4_string ip) \<le> 16"
    using assms by simp
  show "v4_string ip \<noteq> []"
    using assms v4_string_snoc [of "butlast ip" "last ip"] by (cases ip rule: rev_cases) auto
qed

lemma v6_string_text:
  assumes "length ip = 16"
  shows "c \<in> set (v6_string ip) \<Longrightarrow> is_hex c \<or> c = CHR '':''" "length (v6_string ip) \<le> 82" "v6_string ip \<noteq> []"
proof -
  let ?ws = "groups16 ip"
  let ?hex = "map (num_str 16)"
  obtain zs ze where z: "zero_run ?ws = (zs, ze)"
    by fastforce
  have v6: "v6_string ip = (if zs < 8 then
           join_with '':'' (?hex (take zs ?ws)) @ ''::'' @ join_with '':'' (?hex (drop ze ?ws))
         else join_with '':'' (?hex ?ws))"
    by (simp add: v6_string_def Let_def z)
  have part: "c \<in> set '':'' \<or> is_hex c" if "c \<in> set (join_with '':'' (?hex ns))" "set ns \<subseteq> set ?ws" for ns c
    using join_with_set [OF that(1)] that(2) groups16_text(2) by fastforce
  have len: "length (join_with '':'' (?hex ns)) \<le> 5 * length ns" if "set ns \<subseteq> set ?ws" for ns
    using join_with_length [of "?hex ns" 4 "'':''"] that groups16_text(1) by auto
  have ws: "length ?ws = 8"
    using assms by (simp add: length_groups16)
  show "c \<in> set (v6_string ip) \<Longrightarrow> is_hex c \<or> c = CHR '':''"
    using part [of c "take zs ?ws"] part [of c "drop ze ?ws"] part [of c ?ws]
    by (auto simp: v6 set_take_subset set_drop_subset split: if_splits)
  show "length (v6_string ip) \<le> 82"
    using len [OF set_take_subset [of zs ?ws]] len [OF set_drop_subset [of ze ?ws]] len [of ?ws] ws
    by (auto simp: v6 min_def split: if_splits)
  have "?hex ?ws \<noteq> []"
    using ws by auto
  then have "join_with '':'' (?hex ?ws) \<noteq> []"
    using ws by (auto simp: join_with_Nil)
  then show "v6_string ip \<noteq> []"
    by (simp add: v6)
qed

lemma ip_string_text:
  assumes "length ip = 4 \<or> length ip = 16"
  shows "c \<in> set (ip_string ip) \<Longrightarrow> is_hex c \<or> c = CHR ''.'' \<or> c = CHR '':''"
    and "ip_string ip \<noteq> []" and "length (ip_string ip) \<le> 82"
proof -
  have ne: "ip \<noteq> []"
    using assms by auto
  consider (v4) v where "length v = 4" "ip_string ip = v4_string v"
    | (v6) "length ip = 16" "ip_string ip = v6_string ip"
  proof (cases "to4 ip")
    case (Some v)
    then have "length v = 4"
      using assms by (auto simp: to4_def split: if_splits)
    moreover have "ip_string ip = v4_string v"
      using Some assms ne by (auto simp: ip_string_def)
    ultimately show ?thesis
      using that(1) by blast
  next
    case None
    then have "length ip = 16"
      using assms by (auto simp: to4_def split: if_splits)
    moreover have "ip_string ip = v6_string ip"
      using None assms ne by (auto simp: ip_string_def)
    ultimately show ?thesis
      using that(2) by blast
  qed
  note kinds = this
  show "c \<in> set (ip_string ip) \<Longrightarrow> is_hex c \<or> c = CHR ''.'' \<or> c = CHR '':''"
    by (cases rule: kinds) (use v4_string_text(1) v6_string_text(1) in auto)
  show "ip_string ip \<noteq> []"
    by (cases rule: kinds) (use v4_string_text(3) v6_string_text(3) in auto)
  show "length (ip_string ip) \<le> 82"
    by (cases rule: kinds) (use v4_string_text(2) v6_string_text(2) in fastforce)+
qed

end
