(* ===== verification/Protocol.thy ===== *)
theory Protocol
  imports Reader GoNet
begin

text \<open>
  The AVANGARD wire header, \<^verbatim>\<open>pkg/protocol/header.go\<close>: the constants, the \<^verbatim>\<open>Header\<close> struct,
  \<^verbatim>\<open>Encode\<close>, \<^verbatim>\<open>Decode\<close> over any \<^verbatim>\<open>io.Reader\<close>, \<^verbatim>\<open>HostString\<close> and \<^verbatim>\<open>Destination\<close>.

  \<open>parse_header\<close> is the specification of the format on a byte stream, written from the layout
  in the package comment; \<open>decode\<close> refines it for every byte source. The remaining lemmas say
  which headers encode, how long they get, and that encoding and decoding are inverse.
\<close>

subsection \<open>Constants and data\<close>

definition HeaderVersion :: byte where [simp]: "HeaderVersion = 0x01"

definition CmdConnect :: byte where [simp]: "CmdConnect = 0x1"
definition CmdUDPAssociate :: byte where [simp]: "CmdUDPAssociate = 0x2"
definition CmdPing :: byte where [simp]: "CmdPing = 0x3"
definition CmdBind :: byte where [simp]: "CmdBind = 0x4"

definition AtypIPv4 :: byte where [simp]: "AtypIPv4 = 0x1"
definition AtypDomain :: byte where [simp]: "AtypDomain = 0x3"
definition AtypIPv6 :: byte where [simp]: "AtypIPv6 = 0x4"

definition TokenHMACLen :: nat where [simp]: "TokenHMACLen = 16"

definition MaxHeaderLen :: nat where
  [simp]: "MaxHeaderLen = 1 + TokenHMACLen + 1 + 1 + (1 + 255) + 2"

text \<open>
  \<^verbatim>\<open>TokenHMAC\<close> is a \<^verbatim>\<open>[16]byte\<close>; the model keeps its bytes in a list and states the length as
  \<open>wf_header\<close>.
\<close>

record header =
  Version :: byte
  TokenHMAC :: bytes
  Cmd :: byte
  Atyp :: byte
  Addr :: bytes
  Port :: u16

definition wf_header :: "header \<Rightarrow> bool" where
  "wf_header h \<longleftrightarrow> length (TokenHMAC h) = TokenHMACLen"

text \<open>
  The sentinel errors; a \<^verbatim>\<open>fmt.Errorf("%w: ...")\<close> keeps the sentinel and adds a text, and
  \<open>ReadPrefix\<close>, \<open>ReadAddr\<close>, \<open>ReadPort\<close> carry the reader's error.
\<close>

datatype proto_err =
    ErrShortHeader
  | ErrBadVersion
  | ErrBadAtyp "string option"
  | ErrAddrTooLong "string option"
  | ErrBadCmd
  | ReadPrefix io_err
  | ReadAddr io_err
  | ReadPort io_err

subsection \<open>Encoding\<close>

definition validCmd :: "byte \<Rightarrow> bool" where
  "validCmd c \<longleftrightarrow> c = CmdConnect \<or> c = CmdUDPAssociate \<or> c = CmdPing \<or> c = CmdBind"

definition encodeAddr :: "byte \<Rightarrow> bytes \<Rightarrow> proto_err + bytes" where
  "encodeAddr atyp addr =
     (if atyp = AtypIPv4 then
        (if length addr \<noteq> 4 then Inl (ErrBadAtyp (Some ''ipv4 must be 4 bytes'')) else Inr addr)
      else if atyp = AtypIPv6 then
        (if length addr \<noteq> 16 then Inl (ErrBadAtyp (Some ''ipv6 must be 16 bytes'')) else Inr addr)
      else if atyp = AtypDomain then
        (if length addr = 0 \<or> 255 < length addr
         then Inl (ErrAddrTooLong (Some ''domain length 1..255''))
         else Inr (word_of_nat (length addr) # addr))
      else Inl (ErrBadAtyp None))"

definition encode :: "header \<Rightarrow> proto_err + bytes" where
  "encode h =
     (if \<not> validCmd (Cmd h) then Inl ErrBadCmd
      else (case encodeAddr (Atyp h) (Addr h) of
              Inl e \<Rightarrow> Inl e
            | Inr addr_bytes \<Rightarrow>
                (let out = [Version h] @ TokenHMAC h @ [Cmd h, Atyp h] @ addr_bytes @ be16 (Port h)
                 in if MaxHeaderLen < length out then Inl (ErrAddrTooLong None) else Inr out)))"

subsection \<open>Decoding from a reader\<close>

definition decodeAddr :: "'s reader \<Rightarrow> byte \<Rightarrow> ('s, proto_err, bytes) io" where
  "decodeAddr rd atyp =
     (if atyp = AtypIPv4 then read_n rd ReadAddr 4
      else if atyp = AtypIPv6 then read_n rd ReadAddr 16
      else if atyp = AtypDomain then
        io_bind (read_n rd ReadAddr 1) (\<lambda>len_buf.
          let n = unat (len_buf ! 0) in
          if n = 0 then io_throw (ErrBadAtyp (Some ''zero-length domain''))
          else read_n rd ReadAddr n)
      else io_throw (ErrBadAtyp None))"

definition decode :: "'s reader \<Rightarrow> ('s, proto_err, header) io" where
  "decode rd =
     io_bind (read_n rd ReadPrefix (1 + TokenHMACLen + 1 + 1)) (\<lambda>prefix.
       let version = prefix ! 0;
           cmd = prefix ! (1 + TokenHMACLen);
           atyp = prefix ! (1 + TokenHMACLen + 1);
           token = take TokenHMACLen (drop 1 prefix)
       in if version \<noteq> HeaderVersion then io_throw ErrBadVersion
          else if \<not> validCmd cmd then io_throw ErrBadCmd
          else io_bind (decodeAddr rd atyp) (\<lambda>addr.
                 io_bind (read_n rd ReadPort 2) (\<lambda>port_buf.
                   io_ret \<lparr>Version = version, TokenHMAC = token, Cmd = cmd, Atyp = atyp,
                           Addr = addr, Port = uint16 port_buf\<rparr>)))"

definition HostString :: "header \<Rightarrow> string" where
  "HostString h =
     (if Atyp h = AtypIPv4 \<or> Atyp h = AtypIPv6 then ip_string (Addr h)
      else if Atyp h = AtypDomain then string_of (Addr h)
      else [])"

definition Destination :: "header \<Rightarrow> string" where
  "Destination h = join_host_port (HostString h) (itoa_nat (unat (Port h)))"

declare validCmd_def [go_defs] encodeAddr_def [go_defs] encode_def [go_defs]
  decodeAddr_def [go_defs] decode_def [go_defs] HostString_def [go_defs] Destination_def [go_defs]

subsection \<open>The format as a specification on byte streams\<close>

text \<open>How many bytes of address follow a prefix with this address type, and where they start.\<close>

definition parse_addr :: "byte \<Rightarrow> (proto_err, bytes) parser" where
  "parse_addr atyp = (\<lambda>(bs, e).
     if atyp = AtypIPv4 \<or> atyp = AtypIPv6 then
       (let n = (if atyp = AtypIPv4 then 4 else 16) in
        if length bs < n then (Inl (ReadAddr (short e bs)), ([], e))
        else (Inr (take n bs), (drop n bs, e)))
     else if atyp = AtypDomain then
       (case bs of
          [] \<Rightarrow> (Inl (ReadAddr e), ([], e))
        | l # rest \<Rightarrow>
          if l = 0 then (Inl (ErrBadAtyp (Some ''zero-length domain'')), (rest, e))
          else if length rest < unat l then (Inl (ReadAddr (short e rest)), ([], e))
          else (Inr (take (unat l) rest), (drop (unat l) rest, e)))
     else (Inl (ErrBadAtyp None), (bs, e)))"

definition parse_header :: "(proto_err, header) parser" where
  "parse_header = (\<lambda>(bs, e).
     if length bs < 19 then (Inl (ReadPrefix (short e bs)), ([], e))
     else if bs ! 0 \<noteq> 1 then (Inl ErrBadVersion, (drop 19 bs, e))
     else if bs ! 17 \<notin> {1, 2, 3, 4} then (Inl ErrBadCmd, (drop 19 bs, e))
     else (case parse_addr (bs ! 18) (drop 19 bs, e) of
             (Inl err, st) \<Rightarrow> (Inl err, st)
           | (Inr addr, (rest, _)) \<Rightarrow>
             if length rest < 2 then (Inl (ReadPort (short e rest)), ([], e))
             else (Inr \<lparr>Version = 1, TokenHMAC = take 16 (drop 1 bs), Cmd = bs ! 17,
                        Atyp = bs ! 18, Addr = addr, Port = uint16 (take 2 rest)\<rparr>,
                   (drop 2 rest, e))))"

text \<open>The decoder with stream operations for reader operations, the link between the two.\<close>

definition decodeAddr_st :: "byte \<Rightarrow> (proto_err, bytes) parser" where
  "decodeAddr_st atyp =
     (if atyp = AtypIPv4 then stream_n ReadAddr 4
      else if atyp = AtypIPv6 then stream_n ReadAddr 16
      else if atyp = AtypDomain then
        st_bind (stream_n ReadAddr 1) (\<lambda>len_buf.
          if unat (len_buf ! 0) = 0 then st_throw (ErrBadAtyp (Some ''zero-length domain''))
          else stream_n ReadAddr (unat (len_buf ! 0)))
      else st_throw (ErrBadAtyp None))"

definition decode_st :: "(proto_err, header) parser" where
  "decode_st =
     st_bind (stream_n ReadPrefix 19) (\<lambda>prefix.
       if prefix ! 0 \<noteq> HeaderVersion then st_throw ErrBadVersion
       else if \<not> validCmd (prefix ! 17) then st_throw ErrBadCmd
       else st_bind (decodeAddr_st (prefix ! 18)) (\<lambda>addr.
              st_bind (stream_n ReadPort 2) (\<lambda>port_buf.
                st_ret \<lparr>Version = prefix ! 0, TokenHMAC = take 16 (drop 1 prefix),
                        Cmd = prefix ! 17, Atyp = prefix ! 18, Addr = addr,
                        Port = uint16 port_buf\<rparr>)))"

lemma decodeAddr_st_eq: "decodeAddr_st atyp = parse_addr atyp"
proof
  fix st :: stream
  obtain bs e where st: "st = (bs, e)"
    by fastforce
  show "decodeAddr_st atyp st = parse_addr atyp st"
    by (cases bs)
      (auto simp: st decodeAddr_st_def parse_addr_def stream_n_eq st_bind_def st_throw_def short_def
        unat_eq_zero)
qed

lemma parse_addr_cases:
  obtains (fail) err st' where "parse_addr atyp (bs, e) = (Inl err, st')"
    | (ok) addr rest where "parse_addr atyp (bs, e) = (Inr addr, (rest, e))"
proof (cases "fst (parse_addr atyp (bs, e))")
  case (Inl err)
  then show ?thesis
    using fail by (metis prod.collapse)
next
  case (Inr addr)
  then have "snd (snd (parse_addr atyp (bs, e))) = e"
    by (auto simp: parse_addr_def Let_def split: list.splits if_splits)
  with Inr show ?thesis
    using ok by (metis prod.collapse)
qed

lemma decode_st_eq: "decode_st = parse_header"
proof
  fix st :: stream
  obtain bs e where st: "st = (bs, e)"
    by fastforce
  have valid: "validCmd c \<longleftrightarrow> c \<in> {1, 2, 3, 4}" for c
    by (simp add: validCmd_def)
  have nth: "take 19 bs ! 0 = bs ! 0" "take 19 bs ! 17 = bs ! 17" "take 19 bs ! 18 = bs ! 18"
    by simp_all
  have tok: "take 16 (drop (Suc 0) (take 19 bs)) = take 16 (drop (Suc 0) bs)"
    by (simp add: drop_take)
  show "decode_st st = parse_header st"
  proof (cases "length bs < 19 \<or> bs ! 0 \<noteq> 1 \<or> bs ! 17 \<notin> {1, 2, 3, 4}")
    case True
    then show ?thesis
      by (auto simp: st decode_st_def parse_header_def stream_n_eq st_bind_def st_throw_def valid nth)
  next
    case False
    show ?thesis
      by (rule parse_addr_cases [of "bs ! 18" "drop 19 bs" e])
        (use False in \<open>simp_all add: st decode_st_def parse_header_def decodeAddr_st_eq stream_n_eq
           st_bind_def st_ret_def valid nth tok\<close>)
  qed
qed

context byte_source
begin

lemma decodeAddr_refines [refines_intros]: "refines (decodeAddr rd atyp) (decodeAddr_st atyp)"
  unfolding decodeAddr_def decodeAddr_st_def Let_def by (intro refines_intros)

lemma decode_refines: "refines (decode rd) parse_header"
proof -
  have offsets: "(1 :: nat) + 16 = 17" "(17 :: nat) + 1 = 18" "(18 :: nat) + 1 = 19"
    by simp_all
  have "refines (decode rd) decode_st"
    unfolding decode_def decode_st_def Let_def TokenHMACLen_def offsets
    by (intro refines_intros)
  then show ?thesis
    by (simp add: decode_st_eq)
qed

lemma decode_parses:
  "map_option (\<lambda>(r, s'). (r, (content s', final s'))) (decode rd s)
     = Some (parse_header (content s, final s))"
  by (rule refinesD [OF decode_refines])

end

subsection \<open>Encoding and the specification are inverse\<close>

lemma encodeAddr_length: "encodeAddr atyp addr = Inr ab \<Longrightarrow> length ab \<le> 256"
  by (auto simp: encodeAddr_def split: if_splits)

lemma encode_cases:
  assumes "wf_header h"
  shows "encode h = Inr out \<longleftrightarrow> validCmd (Cmd h) \<and> (\<exists>ab. encodeAddr (Atyp h) (Addr h) = Inr ab \<and>
     out = Version h # TokenHMAC h @ Cmd h # Atyp h # ab @ be16 (Port h))"
  using assms encodeAddr_length [of "Atyp h" "Addr h"]
  by (auto simp: encode_def wf_header_def Let_def split: sum.splits)

lemma encodeAddr_ok_iff:
  "(\<exists>ab. encodeAddr atyp addr = Inr ab) \<longleftrightarrow>
     (atyp = AtypIPv4 \<and> length addr = 4) \<or> (atyp = AtypIPv6 \<and> length addr = 16) \<or>
     (atyp = AtypDomain \<and> 1 \<le> length addr \<and> length addr \<le> 255)"
  by (auto simp: encodeAddr_def Suc_le_eq)

lemma unat_len_byte: "length addr \<le> 255 \<Longrightarrow> unat (word_of_nat (length addr) :: byte) = length addr"
  by (simp add: unat_of_nat)

lemma parse_addr_encodeAddr:
  assumes "encodeAddr atyp addr = Inr ab"
  shows "parse_addr atyp (ab @ rest, e) = (Inr addr, (rest, e))"
proof -
  have "(word_of_nat (length addr) :: byte) \<noteq> 0" if "length addr \<noteq> 0" "length addr \<le> 255"
    using unat_len_byte [OF that(2)] that(1) by (metis unat_0)
  then show ?thesis
    using assms
    by (auto simp: encodeAddr_def parse_addr_def Let_def unat_len_byte split: if_splits)
qed

lemma encodeAddr_parse_addr:
  assumes "parse_addr atyp (bs, e) = (Inr addr, (rest, e'))"
  shows "\<exists>ab. encodeAddr atyp addr = Inr ab \<and> bs = ab @ rest"
proof -
  have len: "unat (l :: byte) \<le> 255" for l
    using unat_byte [of l] by linarith
  have num: "unat l = 4 \<Longrightarrow> l = 4" "unat l = 16 \<Longrightarrow> l = 16" for l :: byte
    by (simp_all add: word_unat_eq_iff)
  show ?thesis
    using assms
    by (auto simp: encodeAddr_def parse_addr_def Let_def len unat_eq_zero not_less
        split: if_splits list.splits dest: num)
qed

lemma nth_prefix:
  assumes "length t = 16"
  shows "(v # t @ c # a # ys) ! 17 = c" "(v # t @ c # a # ys) ! 18 = a"
    "drop 19 (v # t @ c # a # ys) = ys"
proof -
  have eq: "v # t @ c # a # ys = (v # t) @ c # a # ys" "v # t @ c # a # ys = (v # t @ [c]) @ a # ys"
    "v # t @ c # a # ys = (v # t @ [c, a]) @ ys"
    by simp_all
  show "(v # t @ c # a # ys) ! 17 = c"
    unfolding eq(1) using assms by (subst nth_append) simp
  show "(v # t @ c # a # ys) ! 18 = a"
    unfolding eq(2) using assms by (subst nth_append) simp
  show "drop 19 (v # t @ c # a # ys) = ys"
    unfolding eq(3) using assms by (subst drop_append) simp
qed

lemma parse_header_encode:
  assumes wf: "wf_header h" and "Version h = HeaderVersion" and enc: "encode h = Inr out"
  shows "parse_header (out @ rest, e) = (Inr h, (rest, e))"
proof -
  from enc wf obtain ab where ab: "validCmd (Cmd h)" "encodeAddr (Atyp h) (Addr h) = Inr ab"
    and out: "out @ rest = Version h # TokenHMAC h @ Cmd h # Atyp h # ab @ be16 (Port h) @ rest"
    by (auto simp: encode_cases)
  have len: "length (TokenHMAC h) = 16"
    using wf by (simp add: wf_header_def)
  have tok: "take 16 (drop 1 (out @ rest)) = TokenHMAC h"
    by (simp add: out len)
  have fields: "19 \<le> length (out @ rest)" "(out @ rest) ! 0 = 1" "(out @ rest) ! 17 = Cmd h"
    "(out @ rest) ! 18 = Atyp h" "drop 19 (out @ rest) = ab @ be16 (Port h) @ rest"
    unfolding out by (simp_all only: nth_prefix [OF len]) (use len assms(2) in simp_all)
  have addr: "parse_addr (Atyp h) (ab @ be16 (Port h) @ rest, e) = (Inr (Addr h), (be16 (Port h) @ rest, e))"
    by (rule parse_addr_encodeAddr [OF ab(2)])
  show ?thesis
    unfolding parse_header_def prod.case fields tok addr
    using fields(1) assms(2) ab(1) by (simp add: validCmd_def)
qed

lemma split_prefix:
  assumes "19 \<le> length bs"
  shows "bs = bs ! 0 # take 16 (drop 1 bs) @ bs ! 17 # bs ! 18 # drop 19 bs"
proof -
  have "bs = bs ! 0 # drop 1 bs"
    using assms by (cases bs) auto
  also have "drop 1 bs = take 16 (drop 1 bs) @ drop 17 bs"
    by (metis append_take_drop_id drop_drop numeral_plus_one semiring_norm(5) add.commute)
  also have "drop 17 bs = bs ! 17 # bs ! 18 # drop 19 bs"
    using assms by (simp add: Cons_nth_drop_Suc [of 17 bs, symmetric] Cons_nth_drop_Suc [of 18 bs, symmetric])
  finally show ?thesis .
qed

lemma encode_parse_header:
  assumes "parse_header (bs, e) = (Inr h, (rest, e'))"
  shows "\<exists>out. encode h = Inr out \<and> bs = out @ rest \<and> wf_header h \<and> Version h = HeaderVersion"
proof -
  from assms have fixed: "\<not> length bs < 19" "bs ! 0 = 1" "validCmd (bs ! 17)"
    by (auto simp: parse_header_def validCmd_def split: if_splits)
  with assms obtain addr rest' e2 where addr: "parse_addr (bs ! 18) (drop 19 bs, e) = (Inr addr, (rest', e2))"
    and port: "2 \<le> length rest'" "rest = drop 2 rest'"
    and h: "h = \<lparr>Version = 1, TokenHMAC = take 16 (drop 1 bs), Cmd = bs ! 17, Atyp = bs ! 18,
                Addr = addr, Port = uint16 (take 2 rest')\<rparr>"
    by (auto simp: parse_header_def validCmd_def split: if_splits prod.splits sum.splits)
  from encodeAddr_parse_addr [OF addr] obtain ab
    where ab: "encodeAddr (bs ! 18) addr = Inr ab" "drop 19 bs = ab @ rest'"
    by blast
  have "bs = bs ! 0 # take 16 (drop 1 bs) @ bs ! 17 # bs ! 18 # drop 19 bs"
    using fixed(1) by (intro split_prefix) simp
  also have "drop 19 bs = ab @ be16 (uint16 (take 2 rest')) @ rest"
    using ab port by (simp add: be16_uint16)
  finally have "bs = (1 # take 16 (drop 1 bs) @ bs ! 17 # bs ! 18 # ab @ be16 (uint16 (take 2 rest'))) @ rest"
    by (simp add: fixed(2))
  moreover have wf: "wf_header h"
    using fixed(1) by (simp add: h wf_header_def)
  ultimately show ?thesis
    using fixed ab h by (auto simp: encode_cases)
qed

subsection \<open>Properties\<close>

text \<open>C16. \<open>Decode\<close> over a connection always returns, and what it returns, which error on which
  malformed or truncated input included, and which bytes it leaves for the payload, is what the
  wire format says of the byte stream: how the network cut the stream into segments does not
  matter.\<close>

theorem decode_conn_parses:
  "map_option (\<lambda>(r, c). (r, (conn_content c, snd c))) (decode seg_read (segs, e))
     = Some (parse_header (concat segs, e))"
  using sock.decode_parses [of "(segs, e)"] by (simp add: conn_content_def)

text \<open>C15. Round trip: a header that \<open>Encode\<close> accepts, sent in any segmentation and followed by any
  payload, is decoded to the same header, and exactly the payload is left to read.\<close>

theorem decode_encode:
  assumes "wf_header h" and "Version h = HeaderVersion"
    and "encode h = Inr out" and "concat segs = out @ payload"
  shows "\<exists>segs'. decode seg_read (segs, e) = Some (Inr h, (segs', e)) \<and> concat segs' = payload"
proof -
  have "map_option (\<lambda>(r, c). (r, (conn_content c, snd c))) (decode seg_read (segs, e))
      = Some (Inr h, (payload, e))"
    using sock.decode_parses [of "(segs, e)"] parse_header_encode [OF assms(1,2,3), of payload e] assms(4)
    by (simp add: conn_content_def)
  then show ?thesis
    by (auto simp: conn_content_def)
qed

text \<open>A concrete request, CONNECT to port 443 of \<^verbatim>\<open>ab\<close>, for the witnesses.\<close>

definition sample_header :: header where
  "sample_header = \<lparr>Version = 1, TokenHMAC = replicate 16 9, Cmd = 1, Atyp = 3,
     Addr = [97, 98], Port = 443\<rparr>"

definition sample_bytes :: bytes where
  "sample_bytes = [1, 9, 9, 9, 9, 9, 9, 9, 9, 9, 9, 9, 9, 9, 9, 9, 9, 1, 3, 2, 97, 98, 1, 187]"

lemma sample_encode: "encode sample_header = Inr sample_bytes"
  by code_simp

lemma sample_wf: "wf_header sample_header" "Version sample_header = HeaderVersion"
  by code_simp+

theorem decode_encode_witness:
  "\<exists>segs'. decode seg_read ([take 2 sample_bytes, [], drop 2 sample_bytes, [42]], EOF)
     = Some (Inr sample_header, (segs', EOF)) \<and> concat segs' = [42]"
  by (rule decode_encode [OF sample_wf sample_encode]) simp

text \<open>Canonical form: whenever the wire format accepts a prefix of the stream, the header read is
  well formed with the current version, \<open>Encode\<close> accepts it, and re-encoding gives back exactly
  the bytes that were consumed. No two byte strings stand for the same request.\<close>

theorem decode_canonical:
  assumes "parse_header (bs, e) = (Inr h, (rest, e'))"
  shows "\<exists>out. encode h = Inr out \<and> bs = out @ rest \<and> wf_header h \<and> Version h = HeaderVersion"
  using assms by (rule encode_parse_header)

theorem decode_canonical_witness:
  "\<exists>out. encode sample_header = Inr out \<and> sample_bytes @ [42] = out @ [42]
     \<and> wf_header sample_header \<and> Version sample_header = HeaderVersion"
  by (rule decode_canonical) (rule parse_header_encode [OF sample_wf sample_encode])

text \<open>Which headers encode: a known command and an address of the length its type asks for (4,
  16, or 1 to 255 bytes). For these the encoded size is 25, 37 or 22 plus the domain's length; it
  is never above \<open>MaxHeaderLen\<close>, so the final size check of \<open>Encode\<close> never fires.\<close>

theorem encode_accepts:
  assumes "wf_header h"
  shows "(case encode h of
      Inr out \<Rightarrow> validCmd (Cmd h) \<and> length out \<le> MaxHeaderLen \<and>
        ((Atyp h = AtypIPv4 \<and> length (Addr h) = 4 \<and> length out = 25) \<or>
         (Atyp h = AtypIPv6 \<and> length (Addr h) = 16 \<and> length out = 37) \<or>
         (Atyp h = AtypDomain \<and> 1 \<le> length (Addr h) \<and> length (Addr h) \<le> 255 \<and>
          length out = 22 + length (Addr h)))
    | Inl err \<Rightarrow>
        (if \<not> validCmd (Cmd h) then err = ErrBadCmd
         else encodeAddr (Atyp h) (Addr h) = Inl err \<and> err \<noteq> ErrAddrTooLong None))"
proof (cases "encode h")
  case (Inl err)
  have no_size: "encode h \<noteq> Inl (ErrAddrTooLong None)"
    using assms encodeAddr_length [of "Atyp h" "Addr h"]
    by (auto simp: encode_def encodeAddr_def Let_def wf_header_def)
  have "encode h = Inr out" if "validCmd (Cmd h)" "encodeAddr (Atyp h) (Addr h) = Inr ab"
    "out = Version h # TokenHMAC h @ Cmd h # Atyp h # ab @ be16 (Port h)" for ab out
    using that encode_cases [OF assms] by blast
  with Inl no_size show ?thesis
    by (cases "encodeAddr (Atyp h) (Addr h)") (auto simp: encode_def)
next
  case (Inr out)
  then obtain ab where ab: "validCmd (Cmd h)" "encodeAddr (Atyp h) (Addr h) = Inr ab"
    "out = Version h # TokenHMAC h @ Cmd h # Atyp h # ab @ be16 (Port h)"
    using assms by (auto simp: encode_cases)
  then show ?thesis
    using Inr assms encodeAddr_length [OF ab(2)]
    by (auto simp: wf_header_def encodeAddr_def Suc_le_eq split: if_splits)
qed

theorem encode_accepts_witness:
  "wf_header sample_header \<and> (case encode sample_header of
      Inr out \<Rightarrow> validCmd (Cmd sample_header) \<and> length out \<le> MaxHeaderLen | Inl err \<Rightarrow> False)"
  using encode_accepts [OF sample_wf(1)] sample_wf(1) by (simp add: sample_encode)

end
