(* ===== verification/Token.thy ===== *)
theory Token
  imports Sha256
begin

text \<open>
  The tunnel token, \<^verbatim>\<open>pkg/auth/token.go\<close>: the first 16 bytes of
  \<^verbatim>\<open>HMAC-SHA256(uuid, channel binding)\<close>, derived by the client and checked by the server.
\<close>

definition TokenLen :: nat where [simp]: "TokenLen = 16"

definition DeriveToken :: "string \<Rightarrow> bytes \<Rightarrow> bytes" where
  "DeriveToken uuid session_nonce = take TokenLen (hmac_sha256 (bytes_of uuid) session_nonce)"

definition VerifyToken :: "string \<Rightarrow> bytes \<Rightarrow> bytes \<Rightarrow> bool" where
  "VerifyToken uuid session_nonce got \<longleftrightarrow>
     constant_time_compare (DeriveToken uuid session_nonce) got = 1"

lemma length_DeriveToken [simp]: "length (DeriveToken uuid nonce) = 16"
  by (simp add: DeriveToken_def)

lemma VerifyToken_iff: "VerifyToken uuid nonce got \<longleftrightarrow> got = DeriveToken uuid nonce"
  by (auto simp: VerifyToken_def constant_time_compare_eq)

text \<open>The constant-time comparison decides equality: \<open>VerifyToken\<close> accepts exactly the token
  that \<open>DeriveToken\<close> computes for the same UUID and session nonce, and a token has 16 bytes, the
  size of the header field.\<close>

theorem verify_token_exact:
  "(VerifyToken uuid nonce got \<longleftrightarrow> got = DeriveToken uuid nonce)
   \<and> length (DeriveToken uuid nonce) = TokenLen"
  by (simp add: VerifyToken_iff)

end
