(* ===== verification/IoCopy.thy ===== *)
theory IoCopy
  imports Reader
begin

text \<open>
  \<^verbatim>\<open>io.Writer\<close> and \<^verbatim>\<open>io.Copy\<close> as the program uses them to splice two connections.

  A writer takes bytes and a state and gives the error (\<open>None\<close> for \<^verbatim>\<open>nil\<close>) and the new state; the
  locale \<open>byte_sink\<close> is its contract: what it accepted is appended to what it holds, all of it
  when there is no error, a prefix of it otherwise; \<open>open_sink\<close> adds states in which it cannot fail. \<open>byte_copy\<close> puts a source and a sink together
  and shows what a copy moves; \<open>peer_write\<close> is a peer that accepts a number of bytes and then
  fails, the sink that the interpretation uses.
\<close>

text \<open>A duplex byte stream: the state of its reading side and of its writing side.\<close>

record ('s, 'w) duplex =
  rx :: 's
  tx :: 'w

type_synonym 'w writer = "bytes \<Rightarrow> 'w \<Rightarrow> io_err option \<times> 'w"

datatype copy_err = ReadFailed io_err | WriteFailed io_err

text \<open>
  The loop of \<^verbatim>\<open>io.copyBuffer\<close> with its 32 KiB buffer: a chunk that was read is written before
  the read error is looked at; \<^verbatim>\<open>EOF\<close> ends the copy without an error.
\<close>

definition copy_buffer :: nat where "copy_buffer = 32 * 1024"

partial_function (option) io_copy ::
  "'s reader \<Rightarrow> 'w writer \<Rightarrow> 's \<Rightarrow> 'w \<Rightarrow> (copy_err option \<times> 's \<times> 'w) option" where
  "io_copy rd wr s w =
     (case rd copy_buffer s of (got, e, s') \<Rightarrow>
       (case (if got = [] then (None, w) else wr got w) of
          (Some we, w') \<Rightarrow> Some (Some (WriteFailed we), s', w')
        | (None, w') \<Rightarrow>
          (case e of
             None \<Rightarrow> io_copy rd wr s' w'
           | Some err \<Rightarrow> Some (if err = EOF then None else Some (ReadFailed err), s', w'))))"

text \<open>A copy that is cut off (its connection is closed by another goroutine) after some rounds.\<close>

fun copy_rounds :: "nat \<Rightarrow> 's reader \<Rightarrow> 'w writer \<Rightarrow> 's \<Rightarrow> 'w \<Rightarrow> 'w" where
  "copy_rounds 0 rd wr s w = w"
| "copy_rounds (Suc n) rd wr s w =
     (case rd copy_buffer s of (got, e, s') \<Rightarrow>
       (case (if got = [] then (None, w) else wr got w) of
          (Some we, w') \<Rightarrow> w'
        | (None, w') \<Rightarrow> (case e of None \<Rightarrow> copy_rounds n rd wr s' w' | Some err \<Rightarrow> w')))"

text \<open>The contract of a writer.\<close>

locale byte_sink =
  fixes wr :: "'w writer"
    and written :: "'w \<Rightarrow> bytes"
  assumes write_ok: "wr b w = (None, w') \<Longrightarrow> written w' = written w @ b"
    and write_err: "wr b w = (Some e, w') \<Longrightarrow> \<exists>n \<le> length b. written w' = written w @ take n b"
begin

lemma write_prefix: "wr b w = (e, w') \<Longrightarrow> \<exists>n \<le> length b. written w' = written w @ take n b"
  by (cases e) (use write_ok write_err in \<open>fastforce+\<close>)

end

locale byte_copy = byte_source rd content final pending + byte_sink wr written
  for rd :: "'s reader" and content final pending and wr :: "'w writer" and written
begin

text \<open>
  A copy returns; the sink got the whole stream when the copy ends without a write error, and
  otherwise a prefix of it.
\<close>

lemma copy_moves:
  "\<exists>err s' w'. io_copy rd wr s w = Some (err, s', w') \<and> final s' = final s
     \<and> (\<exists>n \<le> length (content s). written w' = written w @ take n (content s))
     \<and> ((\<nexists>we. err = Some (WriteFailed we)) \<longrightarrow> written w' = written w @ content s
          \<and> content s' = [] \<and> err = (if final s = EOF then None else Some (ReadFailed (final s))))"
proof (induction "pending s" arbitrary: s w rule: less_induct)
  case less
  obtain got e t where rd: "rd copy_buffer s = (got, e, t)"
    by (metis prod_cases3)
  have pos: "0 < copy_buffer"
    by (simp add: copy_buffer_def)
  obtain we w1 where wr: "(if got = [] then (None, w) else wr got w) = (we, w1)"
    by fastforce
  have w1: "we = None \<Longrightarrow> written w1 = written w @ got" "\<exists>n \<le> length got. written w1 = written w @ take n got"
    using wr write_ok write_prefix by (auto split: if_splits)
  have whole: "\<exists>rest. content s = got @ rest" "final t = final s"
    using rd read_ok [OF pos] read_err [OF pos] by (cases e; fastforce)+
  show ?case
  proof (cases we)
    case (Some err)
    obtain n where n: "n \<le> length got" "written w1 = written w @ take n got"
      using w1(2) by blast
    moreover obtain rest where "content s = got @ rest"
      using whole(1) by blast
    ultimately have "n \<le> length (content s) \<and> written w1 = written w @ take n (content s)"
      by simp
    then show ?thesis
      using whole(2) by (subst io_copy.simps) (auto simp: rd wr Some)
  next
    case ok: None
    show ?thesis
    proof (cases e)
      case None
      with rd have s: "content s = got @ content t" "final t = final s" "pending t < pending s"
        using read_ok [OF pos] by auto
      have step: "io_copy rd wr s w = io_copy rd wr t w1"
        by (subst io_copy.simps) (simp add: rd wr ok None)
      obtain err s' w' n where IH: "io_copy rd wr t w1 = Some (err, s', w')" "final s' = final t"
        "n \<le> length (content t)" "written w' = written w1 @ take n (content t)"
        "(\<nexists>we. err = Some (WriteFailed we)) \<longrightarrow> written w' = written w1 @ content t
          \<and> content s' = [] \<and> err = (if final t = EOF then None else Some (ReadFailed (final t)))"
        using less.hyps [OF s(3), of w1] by blast
      have "length got + n \<le> length (content s)"
        "written w' = written w @ take (length got + n) (content s)"
        using IH(3,4) w1(1) [OF ok] s(1) by simp_all
      then have "\<exists>n \<le> length (content s). written w' = written w @ take n (content s)"
        by blast
      moreover have "(\<nexists>we. err = Some (WriteFailed we)) \<longrightarrow> written w' = written w @ content s
          \<and> content s' = [] \<and> err = (if final s = EOF then None else Some (ReadFailed (final s)))"
        using IH(5) w1(1) [OF ok] s(1,2) by auto
      ultimately show ?thesis
        using IH(1,2) s(2) unfolding step by auto
    next
      case (Some err)
      with rd have "content s = got" "err = final s" "content t = []" "final t = final s"
        using read_err [OF pos] by auto
      then show ?thesis
        using w1(1) [OF ok] by (subst io_copy.simps) (auto simp: rd wr ok Some)
    qed
  qed
qed

lemma copy_rounds_prefix:
  "\<exists>n \<le> length (content s). written (copy_rounds k rd wr s w) = written w @ take n (content s)"
proof (induction k arbitrary: s w)
  case (Suc k)
  obtain got e t where rd: "rd copy_buffer s = (got, e, t)"
    by (metis prod_cases3)
  have pos: "0 < copy_buffer"
    by (simp add: copy_buffer_def)
  obtain we w1 where wr: "(if got = [] then (None, w) else wr got w) = (we, w1)"
    by fastforce
  obtain m where m: "m \<le> length got" "written w1 = written w @ take m got"
    using wr write_prefix [of got w we w1] by (cases "got = []") (auto simp: wr)
  obtain rest where whole: "content s = got @ rest"
    using rd read_ok [OF pos] read_err [OF pos] by (cases e; fastforce)
  have cut: "\<exists>n \<le> length (content s). written w1 = written w @ take n (content s)"
    using m whole by (intro exI [of _ m]) simp
  show ?case
  proof (cases "we = None \<and> e = None")
    case True
    then have t: "content s = got @ content t" and w1: "written w1 = written w @ got"
      using rd read_ok [OF pos] wr write_ok by (auto split: if_splits)
    obtain n where "n \<le> length (content t)" "written (copy_rounds k rd wr t w1) = written w1 @ take n (content t)"
      using Suc.IH by blast
    then show ?thesis
      using True t w1 by (intro exI [of _ "length got + n"]) (simp add: rd wr)
  next
    case False
    then show ?thesis
      using cut by (cases we; cases e) (simp_all add: rd wr)
  qed
qed (auto intro: exI [of _ 0])

end

text \<open>
  A sink that cannot fail in some of its states. \<open>passed w bs w'\<close>: a prefix of \<open>bs\<close> was taken, all of it if the
  sink cannot fail.
\<close>

locale open_sink = byte_sink wr written
  for wr :: "'w writer" and written +
  fixes willing :: "'w \<Rightarrow> bool"
  assumes write_open: "willing w \<Longrightarrow> \<exists>w'. wr b w = (None, w') \<and> willing w'"
begin

definition passed :: "'w \<Rightarrow> bytes \<Rightarrow> 'w \<Rightarrow> bool" where
  "passed w bs w' \<longleftrightarrow> (\<exists>n \<le> length bs. written w' = written w @ take n bs) \<and> (willing w \<longrightarrow> written w' = written w @ bs)"

end

locale open_copy = byte_source rd content final pending + open_sink wr written willing
  for rd :: "'s reader" and content final pending and wr :: "'w writer" and written willing
begin

sublocale byte_copy rd content final pending wr written
  by unfold_locales

lemma io_copy_willing:
  "willing w \<Longrightarrow> \<exists>err s' w'. io_copy rd wr s w = Some (err, s', w') \<and> written w' = written w @ content s \<and> willing w'"
proof (induction "pending s" arbitrary: s w rule: less_induct)
  case less
  obtain got e t where rd: "rd copy_buffer s = (got, e, t)"
    by (metis prod_cases3)
  obtain w1 where wr: "(if got = [] then (None, w) else wr got w) = (None, w1)" "willing w1" "written w1 = written w @ got"
    using write_open [OF less.prems, of got] write_ok [of got w] less.prems by (cases "got = []") auto
  show ?case
  proof (cases e)
    case None
    then have t: "content s = got @ content t" "pending t < pending s"
      using read_ok [of copy_buffer s got t] rd by (simp_all add: copy_buffer_def)
    then show ?thesis
      using less.hyps [OF t(2) wr(2)] None wr by (subst io_copy.simps) (auto simp: rd wr(1))
  next
    case (Some err)
    then have "content s = got"
      using read_err [of copy_buffer s got err t] rd by (simp add: copy_buffer_def)
    then show ?thesis
      using Some wr by (subst io_copy.simps) (simp add: rd wr(1))
  qed
qed

lemma io_copy_passed:
  "\<exists>err s' w'. io_copy rd wr s w = Some (err, s', w') \<and> passed w (content s) w'"
proof -
  obtain err s' w' where c: "io_copy rd wr s w = Some (err, s', w')"
    "\<exists>n \<le> length (content s). written w' = written w @ take n (content s)"
    using copy_moves [of s w] by blast
  moreover have "written w' = written w @ content s" if "willing w"
    using io_copy_willing [OF that, of s] c(1) by auto
  ultimately show ?thesis
    by (auto simp: passed_def)
qed

end

subsection \<open>A peer that takes a number of bytes and then fails\<close>

type_synonym peer = "bytes \<times> nat option"

definition peer_write :: "peer writer" where
  "peer_write b p =
     (case snd p of
        None \<Rightarrow> (None, (fst p @ b, None))
      | Some room \<Rightarrow>
        if length b \<le> room then (None, (fst p @ b, Some (room - length b)))
        else (Some (NetErr ''broken pipe''), (fst p @ take room b, Some 0)))"

interpretation peer: open_sink peer_write fst "\<lambda>w. snd w = None"
proof unfold_locales
  fix b w w'
  assume "peer_write b w = (None, w')"
  then show "fst w' = fst w @ b"
    by (auto simp: peer_write_def split: option.splits if_splits)
next
  fix b w e w'
  assume "peer_write b w = (Some e, w')"
  then have "\<exists>room. room < length b \<and> fst w' = fst w @ take room b"
    by (auto simp: peer_write_def not_le split: option.splits if_splits intro!: exI)
  then show "\<exists>n \<le> length b. fst w' = fst w @ take n b"
    by (meson less_imp_le)
next
  fix w :: peer and b
  assume "snd w = None"
  then show "\<exists>w'. peer_write b w = (None, w') \<and> snd w' = None"
    by (simp add: peer_write_def)
qed

lemma peer_open [simp]: "peer_write b (w, None) = (None, (w @ b, None))"
  by (simp add: peer_write_def)

text \<open>Every byte source can be copied to a peer.\<close>

sublocale byte_source \<subseteq> to_peer: open_copy rd content final pending peer_write fst "\<lambda>w. snd w = None"
  by unfold_locales

text \<open>\<open>delivered w bs w'\<close>: the peer got a prefix of \<open>bs\<close>, all of it if it never refuses bytes.\<close>

definition delivered :: "peer \<Rightarrow> bytes \<Rightarrow> peer \<Rightarrow> bool" where
  "delivered w bs w' \<longleftrightarrow> (\<exists>n \<le> length bs. fst w' = fst w @ take n bs) \<and> (snd w = None \<longrightarrow> fst w' = fst w @ bs)"

lemma passed_delivered: "open_sink.passed fst (\<lambda>w. snd w = None) = delivered"
  by (intro ext) (simp add: peer.passed_def delivered_def)

context byte_source
begin

lemma io_copy_open: "\<exists>err s'. io_copy rd peer_write s (w, None) = Some (err, s', (w @ content s, None))"
  using to_peer.io_copy_willing [of "(w, None)" s] by fastforce

lemma io_copy_delivered:
  "\<exists>err s' w'. io_copy rd peer_write s w = Some (err, s', w') \<and> delivered w (content s) w'"
  using to_peer.io_copy_passed [of s w] by (simp add: passed_delivered)

end

end
