(* ===== verification/Tunnel.thy ===== *)
theory Tunnel
  imports Protocol Token IoCopy
begin

text \<open>
  The tunnel, \<^verbatim>\<open>pkg/tunnel\<close>: the client's \<^verbatim>\<open>DialTunnel\<close> with \<^verbatim>\<open>encodeDest\<close> and \<^verbatim>\<open>parsePort\<close>
  (\<^verbatim>\<open>client.go\<close>), the server's \<^verbatim>\<open>handle\<close>, \<^verbatim>\<open>handleConnect\<close> and \<^verbatim>\<open>tokenValid\<close> (\<^verbatim>\<open>server.go\<close>).

  A handler is a function from the stream, the outcome of the network operations (the dial, the
  race between the header and the timer) and the reader and writer in use to the list of its
  visible actions, in order; deferred closes come last, in the reverse order of their \<^verbatim>\<open>defer\<close>s.
  The result \<open>None\<close> is a handler that never returns. Log lines are not modelled.
\<close>

subsection \<open>The server\<close>

record tunnel_server =
  acceptedUUIDs :: "string list"

definition NewServer :: "string list \<Rightarrow> tunnel_server" where
  "NewServer accepted = \<lparr>acceptedUUIDs = accepted\<rparr>"

text \<open>A \<^verbatim>\<open>TunnelStream\<close> is a duplex byte stream with its channel binding.\<close>

record ('s, 'w) tstream = "('s, 'w) duplex" +
  Channel :: bytes

definition as_tunnel :: "('s, 'w) duplex \<Rightarrow> bytes \<Rightarrow> ('s, 'w) tstream" where
  "as_tunnel d h = \<lparr>rx = rx d, tx = tx d, Channel = h\<rparr>"

text \<open>
  \<open>Splice up down\<close>: both copies have ended, with these states of the upstream's and the client's
  sending sides.
\<close>

datatype 'w act = Dial string | WriteTs 'w | Splice 'w 'w | CloseUpstream | CloseStream

fun tokenValid :: "string list \<Rightarrow> bytes \<Rightarrow> bytes \<Rightarrow> bool" where
  "tokenValid [] got channel = False"
| "tokenValid (u # us) got channel = (if VerifyToken u channel got then True else tokenValid us got channel)"

definition handleConnect ::
  "'s reader \<Rightarrow> 'w writer \<Rightarrow> (string \<Rightarrow> io_err + ('s, 'w) duplex) \<Rightarrow> ('s, 'w) tstream \<Rightarrow> header
     \<Rightarrow> 'w act list option" where
  "handleConnect rd wr dial ts h =
     (let dest = Destination h in
      case dial dest of
        Inl _ \<Rightarrow> Some [Dial dest]
      | Inr upstream \<Rightarrow>
          Option.bind (io_copy rd wr (rx ts) (tx upstream)) (\<lambda>(_, _, up).
            map_option (\<lambda>(_, _, down). [Dial dest, Splice up down, CloseUpstream])
              (io_copy rd wr (rx upstream) (tx ts))))"

text \<open>The part of \<^verbatim>\<open>handle\<close> after the header was read: token check and dispatch.\<close>

definition dispatch ::
  "tunnel_server \<Rightarrow> 's reader \<Rightarrow> 'w writer \<Rightarrow> (string \<Rightarrow> io_err + ('s, 'w) duplex)
     \<Rightarrow> ('s, 'w) tstream \<Rightarrow> header \<Rightarrow> 'w act list option" where
  "dispatch srv rd wr dial ts h =
     (if \<not> tokenValid (acceptedUUIDs srv) (TokenHMAC h) (Channel ts) then Some []
      else if Cmd h = CmdConnect then handleConnect rd wr dial ts h
      else if Cmd h = CmdPing then Some [WriteTs (snd (wr (bytes_of ''PONG'') (tx ts)))]
      else Some [])"

definition handle ::
  "tunnel_server \<Rightarrow> 's reader \<Rightarrow> 'w writer \<Rightarrow> (string \<Rightarrow> io_err + ('s, 'w) duplex) \<Rightarrow> bool
     \<Rightarrow> ('s, 'w) tstream \<Rightarrow> 'w act list option" where
  "handle srv rd wr dial timer_first ts =
     map_option (\<lambda>acts. acts @ [CloseStream])
       (if timer_first then Some []
        else (case decode rd (rx ts) of
                None \<Rightarrow> None
              | Some (Inl _, _) \<Rightarrow> Some []
              | Some (Inr h, s) \<Rightarrow> dispatch srv rd wr dial (ts\<lparr>rx := s\<rparr>) h))"

subsection \<open>The client\<close>

record tunnel_client =
  uuid :: string

datatype tunnel_err =
    SplitError addr_err | BadIP | BadDomainLength | BadPort string
  | DialError io_err | EncodeError proto_err | WriteError io_err

definition encodeDest :: "string \<Rightarrow> tunnel_err + byte \<times> bytes" where
  "encodeDest host =
     (case parse_ip host of
        Some ip \<Rightarrow>
          (case to4 ip of
             Some v4 \<Rightarrow> Inr (AtypIPv4, v4)
           | None \<Rightarrow> (case to16 ip of None \<Rightarrow> Inl BadIP | Some v6 \<Rightarrow> Inr (AtypIPv6, v6)))
      | None \<Rightarrow>
          if length host = 0 \<or> 255 < length host then Inl BadDomainLength
          else Inr (AtypDomain, bytes_of host))"

text \<open>The loop of \<^verbatim>\<open>parsePort\<close>, with its 16-bit accumulator; \<open>all\<close> is the argument, for the error.\<close>

fun port_loop :: "string \<Rightarrow> u16 \<Rightarrow> string \<Rightarrow> tunnel_err + u16" where
  "port_loop all p [] = Inr p"
| "port_loop all p (c # cs) =
     (if \<not> is_digit c then Inl (BadPort all)
      else port_loop all (p * 10 + word_of_nat (digit_val c)) cs)"

definition parsePort :: "string \<Rightarrow> tunnel_err + u16" where
  "parsePort s = port_loop s 0 s"

text \<open>The dialer is its outcome; the result is the stream or error, and whether the stream that
  was dialled has been closed.\<close>

definition DialTunnel ::
  "tunnel_client \<Rightarrow> 'w writer \<Rightarrow> io_err + ('s, 'w) tstream \<Rightarrow> string
     \<Rightarrow> (tunnel_err + ('s, 'w) tstream) \<times> bool" where
  "DialTunnel c wr dialer dest =
     (case split_host_port dest of
        Inl e \<Rightarrow> (Inl (SplitError e), False)
      | Inr (host, port_str) \<Rightarrow>
     (case encodeDest host of
        Inl e \<Rightarrow> (Inl e, False)
      | Inr (atyp, addr) \<Rightarrow>
     (case parsePort port_str of
        Inl e \<Rightarrow> (Inl e, False)
      | Inr port \<Rightarrow>
     (case dialer of
        Inl e \<Rightarrow> (Inl (DialError e), False)
      | Inr ts \<Rightarrow>
          let hdr = \<lparr>Version = HeaderVersion, TokenHMAC = DeriveToken (uuid c) (Channel ts),
                     Cmd = CmdConnect, Atyp = atyp, Addr = addr, Port = port\<rparr>
          in (case encode hdr of
                Inl e \<Rightarrow> (Inl (EncodeError e), True)
              | Inr encoded \<Rightarrow>
                  (case wr encoded (tx ts) of
                     (Some e, _) \<Rightarrow> (Inl (WriteError e), True)
                   | (None, w) \<Rightarrow> (Inr (ts\<lparr>tx := w\<rparr>), False)))))))"

subsection \<open>Tokens, ports and destinations\<close>

lemma tokenValid_iff: "tokenValid us got channel \<longleftrightarrow> (\<exists>u \<in> set us. got = DeriveToken u channel)"
  by (induction us) (auto simp: VerifyToken_iff)

lemma port_loop_digits:
  "\<forall>c \<in> set s. is_digit c \<Longrightarrow>
   port_loop all p s = Inr (p * word_of_nat (10 ^ length s) + word_of_nat (num_val 10 s))"
proof (induction s arbitrary: p rule: rev_induct)
  case (snoc c s)
  have app: "port_loop all p (s @ [c]) =
      (case port_loop all p s of Inl e \<Rightarrow> Inl e | Inr q \<Rightarrow> port_loop all q [c])"
    for p :: u16 and s
    by (induction s arbitrary: p) auto
  show ?case
    using snoc by (simp add: app algebra_simps)
qed simp

lemma port_loop_bad: "\<exists>c \<in> set s. \<not> is_digit c \<Longrightarrow> port_loop all p s = Inl (BadPort all)"
  by (induction s arbitrary: p) auto

lemma parsePort_eq:
  "parsePort s = (if \<forall>c \<in> set s. is_digit c then Inr (word_of_nat (num_val 10 s)) else Inl (BadPort s))"
  using port_loop_digits [of s s 0] port_loop_bad [of s s 0] by (auto simp: parsePort_def)

lemma parsePort_itoa: "p < 65536 \<Longrightarrow> parsePort (itoa_nat p) = Inr (word_of_nat p)"
  using itoa_nat_digits by (auto simp: parsePort_eq)

text \<open>The host that the header names: a literal address in the form Go prints it.\<close>

definition canon_host :: "string \<Rightarrow> string" where
  "canon_host host = (case parse_ip host of Some ip \<Rightarrow> ip_string ip | None \<Rightarrow> host)"

lemma to4_length: "to4 ip = Some v4 \<Longrightarrow> length v4 = 4"
  by (auto simp: to4_def split: if_splits)

lemma to16_length: "to16 ip = Some v6 \<Longrightarrow> length v6 = 16"
  by (auto simp: to16_def split: if_splits)

lemma ip_string_to4:
  assumes "to4 ip = Some v4"
  shows "ip_string v4 = ip_string ip"
proof -
  have len: "length v4 = 4" "length ip = 4 \<or> length ip = 16"
    using to4_length [OF assms] assms by (auto simp: to4_def split: if_splits)
  then have "v4 \<noteq> []" "ip \<noteq> []"
    by auto
  moreover note len
  moreover from len(1) have "to4 v4 = Some v4"
    by (simp add: to4_def)
  ultimately show ?thesis
    using assms by (auto simp: ip_string_def)
qed

lemma ip_string_to16: "to4 ip = None \<Longrightarrow> to16 ip = Some v6 \<Longrightarrow> v6 = ip"
  by (auto simp: to16_def to4_def split: if_splits)

lemma encodeDest_ok:
  assumes "encodeDest host = Inr (atyp, addr)"
  shows "HostString (h\<lparr>Atyp := atyp, Addr := addr\<rparr>) = canon_host host"
    and "\<exists>ab. encodeAddr atyp addr = Inr ab"
  using assms
  by (auto simp: encodeDest_def canon_host_def HostString_def encodeAddr_def Suc_le_eq
      dest: to4_length to16_length ip_string_to4 ip_string_to16 split: option.splits if_splits)

text \<open>The request that \<open>DialTunnel\<close> builds, once the destination is understood.\<close>

definition request :: "tunnel_client \<Rightarrow> bytes \<Rightarrow> byte \<Rightarrow> bytes \<Rightarrow> u16 \<Rightarrow> header" where
  "request c channel atyp addr port =
     \<lparr>Version = HeaderVersion, TokenHMAC = DeriveToken (uuid c) channel, Cmd = CmdConnect,
      Atyp = atyp, Addr = addr, Port = port\<rparr>"

lemma request_wf [simp]: "wf_header (request c channel atyp addr port)"
  by (simp add: request_def wf_header_def)

lemma request_fields [simp]:
  "Version (request c channel atyp addr port) = HeaderVersion"
  "TokenHMAC (request c channel atyp addr port) = DeriveToken (uuid c) channel"
  "Cmd (request c channel atyp addr port) = CmdConnect"
  by (simp_all add: request_def)

lemma request_encodes:
  assumes "encodeDest host = Inr (atyp, addr)"
  shows "\<exists>out. encode (request c channel atyp addr port) = Inr out"
proof -
  obtain ab where ab: "encodeAddr atyp addr = Inr ab"
    using encodeDest_ok(2) [OF assms] by blast
  let ?out = "HeaderVersion # DeriveToken (uuid c) channel @ CmdConnect # atyp # ab @ be16 port"
  have "encode (request c channel atyp addr port) = Inr ?out"
    using ab by (subst encode_cases) (simp_all add: request_def validCmd_def wf_header_def)
  then show ?thesis
    by blast
qed

lemma request_destination:
  assumes "encodeDest host = Inr (atyp, addr)"
  shows "Destination (request c channel atyp addr port) = join_host_port (canon_host host) (itoa_nat (unat port))"
  using encodeDest_ok(1) [OF assms, of "request c channel atyp addr port"]
  by (simp add: Destination_def request_def)

lemma DialTunnel_request:
  assumes "split_host_port dest = Inr (host, ps)" "encodeDest host = Inr (atyp, addr)" "parsePort ps = Inr port"
  shows "\<exists>out. encode (request c (Channel ts) atyp addr port) = Inr out \<and>
    DialTunnel c wr (Inr ts) dest =
      (case wr out (tx ts) of
         (Some e, _) \<Rightarrow> (Inl (WriteError e), True)
       | (None, w) \<Rightarrow> (Inr (ts\<lparr>tx := w\<rparr>), False))"
proof -
  obtain out where "encode (request c (Channel ts) atyp addr port) = Inr out"
    using request_encodes [OF assms(2)] by blast
  then show ?thesis
    by (auto simp: DialTunnel_def assms request_def Let_def)
qed

lemma encodeDest_eq:
  "encodeDest host =
     (case parse_ip host of
        Some ip \<Rightarrow> Inr (case to4 ip of Some v4 \<Rightarrow> (AtypIPv4, v4) | None \<Rightarrow> (AtypIPv6, ip))
      | None \<Rightarrow> if length host = 0 \<or> 255 < length host then Inl BadDomainLength
                else Inr (AtypDomain, bytes_of host))"
  using parse_ip_length [of host] by (auto simp: encodeDest_def to16_def split: option.split)

lemma DialTunnel_opens:
  assumes "split_host_port dest = Inr (host, port)"
    and "\<not> (parse_ip host = None \<and> (host = [] \<or> 255 < length host))" "list_all is_digit port"
  shows "\<exists>h out. DialTunnel c peer_write (Inr \<lparr>rx = r, tx = (w, None), Channel = ch\<rparr>) dest
              = (Inr \<lparr>rx = r, tx = (w @ out, None), Channel = ch\<rparr>, False)
          \<and> encode h = Inr out \<and> Cmd h = CmdConnect \<and> TokenHMAC h = DeriveToken (uuid c) ch
          \<and> Destination h = join_host_port (canon_host host) (itoa_nat (num_val 10 port mod 65536))"
proof -
  let ?p = "word_of_nat (num_val 10 port) :: u16"
  have p: "parsePort port = Inr ?p" "unat ?p = num_val 10 port mod 65536"
    using assms(3) by (simp_all add: parsePort_eq list_all_iff unat_of_nat)
  obtain atyp addr where d: "encodeDest host = Inr (atyp, addr)"
    using assms(2) by (cases "encodeDest host") (auto simp: encodeDest_eq split: option.splits if_splits)
  let ?h = "request c ch atyp addr ?p"
  obtain out where "encode ?h = Inr out"
    "DialTunnel c peer_write (Inr \<lparr>rx = r, tx = (w, None), Channel = ch\<rparr>) dest
       = (Inr \<lparr>rx = r, tx = (w @ out, None), Channel = ch\<rparr>, False)"
    using DialTunnel_request [OF assms(1) d p(1), of c "\<lparr>rx = r, tx = (w, None), Channel = ch\<rparr>" peer_write]
    by (auto simp: peer_write_def)
  moreover have "Destination ?h = join_host_port (canon_host host) (itoa_nat (num_val 10 port mod 65536))"
    using request_destination [OF d, of c ch ?p] p(2) by simp
  ultimately show ?thesis
    by (auto intro!: exI [of _ ?h])
qed

subsection \<open>The branches of the handler\<close>

text \<open>For any kind of stream; the names outside the block are for network connections.\<close>

context open_copy
begin

lemma handleConnect_outcome:
  "(\<exists>e. dial (Destination h) = Inl e \<and> handleConnect rd wr dial ts h = Some [Dial (Destination h)])
   \<or> (\<exists>up u d. dial (Destination h) = Inr up
        \<and> handleConnect rd wr dial ts h = Some [Dial (Destination h), Splice u d, CloseUpstream]
        \<and> passed (tx up) (content (rx ts)) u \<and> passed (tx ts) (content (rx up)) d)"
proof (cases "dial (Destination h)")
  case (Inl e)
  then show ?thesis
    by (simp add: handleConnect_def)
next
  case (Inr up)
  obtain e1 c1 u where "io_copy rd wr (rx ts) (tx up) = Some (e1, c1, u)"
    "passed (tx up) (content (rx ts)) u"
    using io_copy_passed by blast
  moreover obtain e2 c2 d where "io_copy rd wr (rx up) (tx ts) = Some (e2, c2, d)"
    "passed (tx ts) (content (rx up)) d"
    using io_copy_passed by blast
  ultimately show ?thesis
    by (auto simp: handleConnect_def Inr)
qed

lemma handle_cases:
  obtains (timer) "timer_first" "handle srv rd wr dial timer_first ts = Some [CloseStream]"
    | (header) err where "\<not> timer_first" "handle srv rd wr dial timer_first ts = Some [CloseStream]"
        "fst (parse_header (content (rx ts), final (rx ts))) = Inl err"
    | (dispatch) h c where "\<not> timer_first"
        "parse_header (content (rx ts), final (rx ts)) = (Inr h, (content c, final c))"
        "handle srv rd wr dial timer_first ts
          = map_option (\<lambda>a. a @ [CloseStream]) (dispatch srv rd wr dial (ts\<lparr>rx := c\<rparr>) h)"
proof (cases timer_first)
  case True
  then show ?thesis
    using timer by (simp add: handle_def)
next
  case False
  obtain r c where d: "decode rd (rx ts) = Some (r, c)"
    "parse_header (content (rx ts), final (rx ts)) = (r, (content c, final c))"
    using decode_parses [of "rx ts"] by auto
  show ?thesis
  proof (cases r)
    case (Inl e)
    then show ?thesis
      using header False d by (simp add: handle_def)
  next
    case (Inr h)
    then show ?thesis
      using dispatch False d by (simp add: handle_def)
  qed
qed

lemma dispatch_cases:
  obtains (reject) "\<not> tokenValid (acceptedUUIDs srv) (TokenHMAC h) (Channel ts)"
      "dispatch srv rd wr dial ts h = Some []"
    | (refused) e where "tokenValid (acceptedUUIDs srv) (TokenHMAC h) (Channel ts)" "Cmd h = CmdConnect"
        "dial (Destination h) = Inl e" "dispatch srv rd wr dial ts h = Some [Dial (Destination h)]"
    | (relay) up u d where "tokenValid (acceptedUUIDs srv) (TokenHMAC h) (Channel ts)" "Cmd h = CmdConnect"
        "dial (Destination h) = Inr up"
        "dispatch srv rd wr dial ts h = Some [Dial (Destination h), Splice u d, CloseUpstream]"
        "passed (tx up) (content (rx ts)) u" "passed (tx ts) (content (rx up)) d"
    | (ping) "tokenValid (acceptedUUIDs srv) (TokenHMAC h) (Channel ts)" "Cmd h = CmdPing"
        "dispatch srv rd wr dial ts h = Some [WriteTs (snd (wr (bytes_of ''PONG'') (tx ts)))]"
    | (other) "tokenValid (acceptedUUIDs srv) (TokenHMAC h) (Channel ts)" "Cmd h \<noteq> CmdConnect" "Cmd h \<noteq> CmdPing"
        "dispatch srv rd wr dial ts h = Some []"
proof (cases "tokenValid (acceptedUUIDs srv) (TokenHMAC h) (Channel ts)")
  case False
  then show ?thesis
    using reject by (simp add: dispatch_def)
next
  case valid: True
  show ?thesis
  proof (cases "Cmd h = CmdConnect")
    case True
    then have "dispatch srv rd wr dial ts h = handleConnect rd wr dial ts h"
      using valid by (simp add: dispatch_def)
    then show ?thesis
      using handleConnect_outcome [of dial h ts] refused relay valid True by metis
  next
    case False
    then show ?thesis
      using ping other valid by (cases "Cmd h = CmdPing") (simp_all add: dispatch_def)
  qed
qed

text \<open>A stream that carries a client's request.\<close>

lemma request_handled:
  assumes "encode (request c (Channel ts) atyp addr (word_of_nat p)) = Inr out" "encodeDest host = Inr (atyp, addr)" "p < 65536"
    and "uuid c \<in> set (acceptedUUIDs srv)" "content (rx ts) = out @ payload"
    and "dest = join_host_port (if CHR '':'' \<in> set host then canon_host host else host) (itoa_nat p)"
  shows "case dial dest of
       Inl _ \<Rightarrow> handle srv rd wr dial False ts = Some [Dial dest, CloseStream]
     | Inr up \<Rightarrow> \<exists>u d. handle srv rd wr dial False ts = Some [Dial dest, Splice u d, CloseUpstream, CloseStream]
         \<and> passed (tx up) payload u \<and> passed (tx ts) (content (rx up)) d"
proof -
  let ?h = "request c (Channel ts) atyp addr (word_of_nat p)"
  have "canon_host host = host" if "CHR '':'' \<notin> set host"
    using that parse_ip_no_colon by (auto simp: canon_host_def split: option.splits)
  then have dest: "Destination ?h = dest"
    using request_destination [OF assms(2)] assms(3,6) by (auto simp: unat_of_nat)
  have parsed: "parse_header (content (rx ts), final (rx ts)) = (Inr ?h, (payload, final (rx ts)))"
    unfolding assms(5) by (rule parse_header_encode [OF _ _ assms(1)]) simp_all
  have valid: "tokenValid (acceptedUUIDs srv) (TokenHMAC ?h) (Channel (ts\<lparr>rx := x\<rparr>))" for x
    using assms(4) by (auto simp: tokenValid_iff)
  show ?thesis
  proof (cases rule: handle_cases [of False srv dial ts])
    case (dispatch h' x)
    then have h: "h' = ?h" "content x = payload"
      using parsed by simp_all
    show ?thesis
      by (cases rule: dispatch_cases [of srv h' "ts\<lparr>rx := x\<rparr>" dial])
        (use valid [of x] h dest dispatch in auto)
  qed (use parsed in auto)
qed

end

lemmas handleConnect_outcome = sock.to_peer.to_peer.handleConnect_outcome [unfolded passed_delivered]
lemmas handle_cases = sock.to_peer.to_peer.handle_cases
lemmas dispatch_cases = sock.to_peer.to_peer.dispatch_cases [unfolded passed_delivered]

subsection \<open>Properties\<close>

lemma handle_ends:
  "\<exists>acts. handle srv seg_read peer_write dial timer_first ts = Some (acts @ [CloseStream]) \<and> CloseStream \<notin> set acts"
proof (cases rule: handle_cases [of timer_first srv dial ts])
  case (dispatch h c)
  then show ?thesis
    by (cases rule: dispatch_cases [of srv h "ts\<lparr>rx := c\<rparr>" dial]) auto
qed auto

lemma handle_authorised:
  assumes "handle srv seg_read peer_write dial timer_first ts = Some acts" and "a \<in> set acts" "a \<noteq> CloseStream"
  shows "\<exists>h st u. parse_header (conn_content (rx ts), snd (rx ts)) = (Inr h, st)
     \<and> u \<in> set (acceptedUUIDs srv) \<and> TokenHMAC h = DeriveToken u (Channel ts)
     \<and> (Cmd h = CmdConnect \<or> Cmd h = CmdPing) \<and> (\<forall>dest. a = Dial dest \<longrightarrow> Cmd h = CmdConnect \<and> dest = Destination h)"
proof (cases rule: handle_cases [of timer_first srv dial ts])
  case (dispatch h c)
  show ?thesis
    by (cases rule: dispatch_cases [of srv h "ts\<lparr>rx := c\<rparr>" dial])
      (use dispatch assms in \<open>auto simp: tokenValid_iff\<close>)
qed (use assms in auto)


text \<open>C3. Without a valid token nothing leaves the server: if it dials, answers a ping or splices,
  then the client's bytes start with a well-formed header whose token is the HMAC of an accepted
  UUID over the channel binding of this very stream; it dials only for a connect header, and the destination
  dialled is the header's.\<close>

theorem no_action_without_token:
  assumes "handle srv seg_read peer_write dial timer_first ts = Some acts" and "a \<in> set acts" "a \<noteq> CloseStream"
  shows "\<exists>h st u. parse_header (conn_content (rx ts), snd (rx ts)) = (Inr h, st)
     \<and> u \<in> set (acceptedUUIDs srv) \<and> TokenHMAC h = DeriveToken u (Channel ts)
     \<and> (Cmd h = CmdConnect \<or> Cmd h = CmdPing) \<and> (\<forall>dest. a = Dial dest \<longrightarrow> Cmd h = CmdConnect \<and> dest = Destination h)"
  using assms by (rule handle_authorised)

text \<open>A tunnel between the sample client and server, for the witnesses: the stream \<open>sample_cts\<close> is the
  client's end, \<open>sample_sts\<close> the server's, which receives in two segments what the client wrote and
  the payload \<open>[42]\<close>.\<close>

definition sample_uuid :: string where "sample_uuid = ''0f8e''"

definition sample_server :: tunnel_server where "sample_server = \<lparr>acceptedUUIDs = [''x'', sample_uuid]\<rparr>"

definition sample_cts :: "(conn, peer) tstream" where
  "sample_cts = \<lparr>rx = ([], EOF), tx = ([], None), Channel = [1, 2]\<rparr>"

definition sample_request :: header where
  "sample_request = request \<lparr>uuid = sample_uuid\<rparr> [1, 2] AtypDomain [97, 46, 98] 443"

definition sample_sts :: "bytes \<Rightarrow> (conn, peer) tstream" where
  "sample_sts out = \<lparr>rx = ([take 3 out, drop 3 out @ [42]], EOF), tx = ([], None), Channel = [1, 2]\<rparr>"

definition sample_dial :: "string \<Rightarrow> io_err + (conn, peer) duplex" where
  "sample_dial dest = Inr \<lparr>rx = ([[7]], EOF), tx = ([], None)\<rparr>"

lemma sample_content [simp]: "conn_content (rx (sample_sts out)) = out @ [42]"
proof -
  have "take 3 out @ drop 3 out @ [42] = (take 3 out @ drop 3 out) @ [42]"
    by (simp only: append_assoc)
  then show ?thesis
    by (simp add: sample_sts_def del: append_assoc)
qed

lemma sample_dest:
  "split_host_port ''a.b:443'' = Inr (''a.b'', ''443'')"
  "encodeDest ''a.b'' = Inr (AtypDomain, [97, 46, 98])"
  "parsePort ''443'' = Inr 443"
  by code_simp+

lemma sample_tunnel:
  "\<exists>out. encode sample_request = Inr out
     \<and> DialTunnel \<lparr>uuid = sample_uuid\<rparr> peer_write (Inr sample_cts) ''a.b:443''
         = (Inr (sample_cts\<lparr>tx := (out, None)\<rparr>), False)"
  using DialTunnel_request [OF sample_dest, of "\<lparr>uuid = sample_uuid\<rparr>" sample_cts peer_write]
  by (auto simp: sample_request_def sample_cts_def peer_write_def)

theorem no_action_without_token_witness:
  "\<exists>out u. encode sample_request = Inr out \<and> u \<in> set (acceptedUUIDs sample_server)
     \<and> TokenHMAC sample_request = DeriveToken u [1, 2]"
proof -
  obtain out where out: "encode sample_request = Inr out"
    using sample_tunnel by blast
  have wf: "wf_header sample_request" "Version sample_request = HeaderVersion"
    by (simp_all add: sample_request_def)
  let ?ts = "sample_sts out"
  have parsed: "parse_header (conn_content (rx ?ts), snd (rx ?ts)) = (Inr sample_request, ([42], EOF))"
    unfolding sample_content
    using parse_header_encode [OF wf out, of "[42]" EOF] by (simp add: sample_sts_def)
  have valid: "tokenValid (acceptedUUIDs sample_server) (TokenHMAC sample_request) (Channel (?ts\<lparr>rx := c\<rparr>))" for c
    by (simp add: tokenValid_iff sample_server_def sample_request_def sample_sts_def)
  obtain acts where acts: "handle sample_server seg_read peer_write sample_dial False ?ts = Some acts"
    "Dial (Destination sample_request) \<in> set acts"
  proof (cases rule: handle_cases [of False sample_server sample_dial ?ts])
    case (dispatch h c)
    then have h: "h = sample_request"
      using parsed by simp
    show ?thesis
      by (cases rule: dispatch_cases [of sample_server h "?ts\<lparr>rx := c\<rparr>" sample_dial])
        (use valid [of c] h that dispatch in \<open>auto simp: sample_request_def\<close>)
  qed (use parsed in auto)
  from no_action_without_token [OF this] show ?thesis
    using out parsed by (auto simp: sample_sts_def)
qed

lemma request_reaches:
  assumes "DialTunnel c peer_write (Inr cts) (join_host_port host (itoa_nat p)) = (Inr cts', closed)"
    and "p < 65536" "CHR ''['' \<notin> set host" "CHR '']'' \<notin> set host"
    and "uuid c \<in> set (acceptedUUIDs srv)" "Channel ts = Channel cts"
    and "fst (tx cts) @ conn_content (rx ts) = fst (tx cts') @ payload"
    and "dest = join_host_port (if CHR '':'' \<in> set host then canon_host host else host) (itoa_nat p)"
  shows "\<not> closed \<and>
    (case dial dest of
       Inl _ \<Rightarrow> handle srv seg_read peer_write dial False ts = Some [Dial dest, CloseStream]
     | Inr up \<Rightarrow> \<exists>u d. handle srv seg_read peer_write dial False ts
           = Some [Dial dest, Splice u d, CloseUpstream, CloseStream]
         \<and> delivered (tx up) payload u \<and> delivered (tx ts) (conn_content (rx up)) d)"
proof -
  have split: "split_host_port (join_host_port host (itoa_nat p)) = Inr (host, itoa_nat p)"
    using assms(3,4) by (intro split_join itoa_nat_plain)
  have port: "parsePort (itoa_nat p) = Inr (word_of_nat p)" "unat (word_of_nat p :: u16) = p"
    using assms(2) by (simp_all add: parsePort_itoa unat_of_nat)
  obtain atyp addr where d: "encodeDest host = Inr (atyp, addr)"
    using assms(1) split by (cases "encodeDest host") (auto simp: DialTunnel_def)
  let ?h = "request c (Channel cts) atyp addr (word_of_nat p)"
  obtain out where out: "encode ?h = Inr out"
    and dial: "DialTunnel c peer_write (Inr cts) (join_host_port host (itoa_nat p)) =
      (case peer_write out (tx cts) of
         (Some e, _) \<Rightarrow> (Inl (WriteError e), True)
       | (None, w) \<Rightarrow> (Inr (cts\<lparr>tx := w\<rparr>), False))"
    using DialTunnel_request [OF split d port(1)] by blast
  obtain w where w: "peer_write out (tx cts) = (None, w)" "cts' = cts\<lparr>tx := w\<rparr>" "\<not> closed"
    using assms(1) unfolding dial by (auto split: prod.splits option.splits)
  have sent: "conn_content (rx ts) = out @ payload"
    using assms(7) peer.write_ok [OF w(1)] w(2) by simp
  show ?thesis
    using sock.to_peer.to_peer.request_handled [OF out [folded assms(6)] d assms(2,5) sent assms(8), of dial, unfolded passed_delivered] w(3)
    by blast
qed

lemma DialTunnel_join:
  assumes "encodeDest h = Inr (atyp, addr)" "CHR ''['' \<notin> set h" "CHR '']'' \<notin> set h" "p < 65536"
    and "encode (request c (Channel ts) atyp addr (word_of_nat p)) = Inr out" "wr out (tx ts) = (None, w)"
  shows "DialTunnel c wr (Inr ts) (join_host_port h (itoa_nat p)) = (Inr (ts\<lparr>tx := w\<rparr>), False)"
proof -
  have "split_host_port (join_host_port h (itoa_nat p)) = Inr (h, itoa_nat p)"
    using assms(2,3) by (intro split_join itoa_nat_plain)
  from DialTunnel_request [OF this assms(1) parsePort_itoa [OF assms(4)], of c ts wr] show ?thesis
    using assms(5,6) by simp
qed

lemma DialTunnel_writes:
  assumes "encodeDest h = Inr (atyp, addr)" "CHR ''['' \<notin> set h" "CHR '']'' \<notin> set h" "p < 65536"
  shows "\<exists>out. encode (request c ch atyp addr (word_of_nat p)) = Inr out
    \<and> (\<forall>(r :: conn) w. DialTunnel c peer_write (Inr \<lparr>rx = r, tx = (w, None), Channel = ch\<rparr>) (join_host_port h (itoa_nat p))
          = (Inr \<lparr>rx = r, tx = (w @ out, None), Channel = ch\<rparr>, False))"
proof -
  obtain out where "encode (request c ch atyp addr (word_of_nat p)) = Inr out"
    using request_encodes [OF assms(1)] by blast
  then show ?thesis
    using DialTunnel_join [OF assms, of c "\<lparr>rx = r, tx = (w, None), Channel = ch\<rparr>" out peer_write for r :: conn and w] by simp
qed

text \<open>End to end: when the client asks for \<open>host:port\<close> and the server, with the client's UUID
  among its own and the same channel binding, reads the request in any segmentation followed by any
  payload, the server dials exactly that destination (an IPv6 literal in Go's printed form), sends
  the payload there and the answer back.\<close>

theorem dial_reaches_destination:
  assumes "DialTunnel c peer_write (Inr cts) (join_host_port host (itoa_nat p)) = (Inr cts', closed)"
    and "p < 65536" "CHR ''['' \<notin> set host" "CHR '']'' \<notin> set host"
    and "uuid c \<in> set (acceptedUUIDs srv)" "Channel ts = Channel cts"
    and "fst (tx cts) @ conn_content (rx ts) = fst (tx cts') @ payload"
    and "dest = join_host_port (if CHR '':'' \<in> set host then canon_host host else host) (itoa_nat p)"
  shows "\<not> closed \<and>
    (case dial dest of
       Inl _ \<Rightarrow> handle srv seg_read peer_write dial False ts = Some [Dial dest, CloseStream]
     | Inr up \<Rightarrow> \<exists>u d. handle srv seg_read peer_write dial False ts
           = Some [Dial dest, Splice u d, CloseUpstream, CloseStream]
         \<and> delivered (tx up) payload u \<and> delivered (tx ts) (conn_content (rx up)) d)"
  using assms by (rule request_reaches)

theorem dial_reaches_destination_witness:
  "\<exists>out u d. encode sample_request = Inr out
     \<and> handle sample_server seg_read peer_write sample_dial False (sample_sts out)
         = Some [Dial ''a.b:443'', Splice u d, CloseUpstream, CloseStream]
     \<and> fst u = [42] \<and> fst d = [7]"
proof -
  obtain out where out: "encode sample_request = Inr out"
    "DialTunnel \<lparr>uuid = sample_uuid\<rparr> peer_write (Inr sample_cts) ''a.b:443''
       = (Inr (sample_cts\<lparr>tx := (out, None)\<rparr>), False)"
    using sample_tunnel by blast
  have dest: "''a.b:443'' = join_host_port ''a.b'' (itoa_nat 443)"
    by code_simp
  then have dest2: "''a.b:443'' = join_host_port
      (if CHR '':'' \<in> set ''a.b'' then canon_host ''a.b'' else ''a.b'') (itoa_nat 443)"
    by simp
  have "\<exists>u d. handle sample_server seg_read peer_write sample_dial False (sample_sts out)
        = Some [Dial ''a.b:443'', Splice u d, CloseUpstream, CloseStream]
      \<and> delivered ([], None) [42] u \<and> delivered ([], None) [7] d"
    using dial_reaches_destination [OF out(2) [unfolded dest], of sample_server "sample_sts out" "[42]",
        OF _ _ _ _ _ _ dest2, of sample_dial]
    by (simp add: sample_server_def sample_sts_def [of out] sample_cts_def sample_dial_def del: dest)
  then show ?thesis
    using out(1) by (auto simp: delivered_def)
qed

text \<open>C28. \<open>DialTunnel\<close> on every destination, for a stream that takes the request: the text must split
  into host and port, the host be an address or have 1 to 255 bytes, the port have digits only, and
  the error says which of these failed; encoding then cannot fail, and what is written is one
  CONNECT request for that host with the token of this stream. The port is taken modulo 65536, and
  an empty port is port 0: \<open>parsePort\<close> has no range check.\<close>

theorem DialTunnel_outcome:
  "case split_host_port dest of
     Inl e \<Rightarrow> DialTunnel c peer_write (Inr \<lparr>rx = r, tx = (w, None), Channel = ch\<rparr>) dest = (Inl (SplitError e), False)
   | Inr (host, port) \<Rightarrow>
       if parse_ip host = None \<and> (host = [] \<or> 255 < length host)
       then DialTunnel c peer_write (Inr \<lparr>rx = r, tx = (w, None), Channel = ch\<rparr>) dest = (Inl BadDomainLength, False)
       else if \<not> list_all is_digit port
       then DialTunnel c peer_write (Inr \<lparr>rx = r, tx = (w, None), Channel = ch\<rparr>) dest = (Inl (BadPort port), False)
       else \<exists>h out. DialTunnel c peer_write (Inr \<lparr>rx = r, tx = (w, None), Channel = ch\<rparr>) dest
              = (Inr \<lparr>rx = r, tx = (w @ out, None), Channel = ch\<rparr>, False)
          \<and> encode h = Inr out \<and> Cmd h = CmdConnect \<and> TokenHMAC h = DeriveToken (uuid c) ch
          \<and> Destination h = join_host_port (canon_host host) (itoa_nat (num_val 10 port mod 65536))"
proof (cases "split_host_port dest")
  case (Inl e)
  then show ?thesis
    by (simp add: DialTunnel_def)
next
  case (Inr hp)
  obtain host port where hp: "hp = (host, port)"
    by fastforce
  show ?thesis
  proof (cases "(parse_ip host = None \<and> (host = [] \<or> 255 < length host)) \<or> \<not> list_all is_digit port")
    case True
    then show ?thesis
      by (auto simp: Inr hp DialTunnel_def encodeDest_eq parsePort_eq list_all_iff split: option.split)
  next
    case False
    then show ?thesis
      using DialTunnel_opens [OF Inr [unfolded hp], of c r w ch] by (auto simp: Inr hp)
  qed
qed

end
