(* ===== verification/Relay.thy ===== *)
theory Relay
  imports Tunnel "HOL-Library.Sublist"
begin

text \<open>
  The splicing loops as they run: two goroutines copy in opposite directions, the function waits for both
  (\<^verbatim>\<open>wg.Wait\<close>) and only then its deferred \<^verbatim>\<open>Close\<close> calls run. The same loop is in \<^verbatim>\<open>handleConnect\<close>
  (\<^verbatim>\<open>pkg/tunnel/server.go\<close>), and in \<^verbatim>\<open>handleSOCKS\<close> and the \<^verbatim>\<open>tunnel\<close> command
  (\<^verbatim>\<open>cmd/avangard-client/main.go\<close>), so a tunnel in use is a chain of two such relays: application, client,
  server, destination, with a connection between neighbours.

  \<open>chain\<close> is the state of \<open>n\<close> relays in a row: the flow of bytes \<open>forward\<close> from the application to the
  destination and the flow \<open>backward\<close>, numbered from its own origin, so that both are the same kind of
  object. A pipe is one direction of one connection. Every interleaving of the goroutines with sends, receives and closes
  at the two ends, and with the loss of a connection, is a run.
\<close>

subsection \<open>One direction\<close>

text \<open>
  \<open>hist\<close> is what was written so far and \<open>taken_out\<close> how much of it was read; \<open>fin\<close>: the writer has closed;
  \<open>dead\<close>: the reader has closed, so that writes fail; \<open>torn\<close>: the connection is lost.
\<close>

record pipe =
  hist :: bytes
  taken_out :: nat
  fin :: bool
  dead :: bool
  torn :: bool

definition new_pipe :: pipe where
  "new_pipe = \<lparr>hist = [], taken_out = 0, fin = False, dead = False, torn = False\<rparr>"

definition avail :: "pipe \<Rightarrow> bytes" where
  "avail p = drop (taken_out p) (hist p)"

text \<open>A goroutine in \<^verbatim>\<open>io.Copy\<close>: about to read, with a chunk to write, or returned.\<close>

datatype copier = AtRead | Holding bytes | Returned

record flow =
  pipes :: "pipe list"
  copiers :: "copier list"

text \<open>The copier \<open>i\<close> reads pipe \<open>i\<close> and writes pipe \<open>i + 1\<close>.\<close>

abbreviation upd_pipe :: "nat \<Rightarrow> (pipe \<Rightarrow> pipe) \<Rightarrow> flow \<Rightarrow> flow" where
  "upd_pipe i g f \<equiv> f\<lparr>pipes := (pipes f)[i := g (pipes f ! i)]\<rparr>"

abbreviation set_copier :: "nat \<Rightarrow> copier \<Rightarrow> flow \<Rightarrow> flow" where
  "set_copier i c f \<equiv> f\<lparr>copiers := (copiers f)[i := c]\<rparr>"

inductive copy_step :: "flow \<Rightarrow> flow \<Rightarrow> bool" where
  take_chunk: "i < length (copiers f) \<Longrightarrow> copiers f ! i = AtRead \<Longrightarrow>
    0 < k \<Longrightarrow> k \<le> copy_buffer \<Longrightarrow> k \<le> length (avail (pipes f ! i)) \<Longrightarrow>
    copy_step f (set_copier i (Holding (take k (avail (pipes f ! i))))
      (upd_pipe i (\<lambda>p. p\<lparr>taken_out := taken_out p + k\<rparr>) f))"
| take_end: "i < length (copiers f) \<Longrightarrow> copiers f ! i = AtRead \<Longrightarrow>
    (fin (pipes f ! i) \<and> avail (pipes f ! i) = []) \<or> torn (pipes f ! i) \<Longrightarrow>
    copy_step f (set_copier i Returned f)"
| put: "i < length (copiers f) \<Longrightarrow> copiers f ! i = Holding b \<Longrightarrow>
    \<not> dead (pipes f ! Suc i) \<Longrightarrow> \<not> torn (pipes f ! Suc i) \<Longrightarrow>
    copy_step f (set_copier i AtRead (upd_pipe (Suc i) (\<lambda>p. p\<lparr>hist := hist p @ b\<rparr>) f))"
| put_fail: "i < length (copiers f) \<Longrightarrow> copiers f ! i = Holding b \<Longrightarrow>
    dead (pipes f ! Suc i) \<or> torn (pipes f ! Suc i) \<Longrightarrow> m \<le> length b \<Longrightarrow>
    copy_step f (set_copier i Returned (upd_pipe (Suc i) (\<lambda>p. p\<lparr>hist := hist p @ take m b\<rparr>) f))"

subsection \<open>Relays in a row\<close>

text \<open>\<open>FirstClosed\<close>: the connection towards the destination is closed, the one towards the application is next.\<close>

datatype relay_phase = Relaying | FirstClosed | BothClosed

record chain =
  forward :: flow
  backward :: flow
  phases :: "relay_phase list"

definition new_flow :: "nat \<Rightarrow> flow" where
  "new_flow n = \<lparr>pipes = replicate (Suc n) new_pipe, copiers = replicate n AtRead\<rparr>"

definition new_chain :: "nat \<Rightarrow> chain" where
  "new_chain n = \<lparr>forward = new_flow n, backward = new_flow n, phases = replicate n Relaying\<rparr>"

text \<open>Relay \<open>i\<close> runs the copiers \<open>i\<close> of \<open>forward\<close> and \<open>n - 1 - i\<close> of \<open>backward\<close>; \<^verbatim>\<open>wg.Wait\<close> is the condition of
  \<open>close_first\<close>. Whether a \<^verbatim>\<open>Close\<close> also ends the receiving side depends on the connection (a QUIC stream's does
  not), the argument \<open>d\<close>.\<close>

inductive relay_step :: "chain \<Rightarrow> chain \<Rightarrow> bool" where
  copy_forward: "copy_step (forward s) f \<Longrightarrow> relay_step s (s\<lparr>forward := f\<rparr>)"
| copy_backward: "copy_step (backward s) f \<Longrightarrow> relay_step s (s\<lparr>backward := f\<rparr>)"
| close_first: "n = length (phases s) \<Longrightarrow> i < n \<Longrightarrow> phases s ! i = Relaying \<Longrightarrow>
    copiers (forward s) ! i = Returned \<Longrightarrow> copiers (backward s) ! (n - 1 - i) = Returned \<Longrightarrow>
    relay_step s (s\<lparr>forward := upd_pipe (Suc i) (\<lambda>p. p\<lparr>fin := True\<rparr>) (forward s),
      backward := upd_pipe (n - 1 - i) (\<lambda>p. p\<lparr>dead := dead p \<or> d\<rparr>) (backward s),
      phases := (phases s)[i := FirstClosed]\<rparr>)"
| close_second: "n = length (phases s) \<Longrightarrow> i < n \<Longrightarrow> phases s ! i = FirstClosed \<Longrightarrow>
    relay_step s (s\<lparr>backward := upd_pipe (n - i) (\<lambda>p. p\<lparr>fin := True\<rparr>) (backward s),
      forward := upd_pipe i (\<lambda>p. p\<lparr>dead := dead p \<or> d\<rparr>) (forward s),
      phases := (phases s)[i := BothClosed]\<rparr>)"

text \<open>What the two ends and the network do.\<close>

inductive end_step :: "chain \<Rightarrow> chain \<Rightarrow> bool" where
  app_send: "\<not> fin (pipes (forward s) ! 0) \<Longrightarrow>
    end_step s (s\<lparr>forward := upd_pipe 0 (\<lambda>p. p\<lparr>hist := hist p @ b\<rparr>) (forward s)\<rparr>)"
| dest_send: "\<not> fin (pipes (backward s) ! 0) \<Longrightarrow>
    end_step s (s\<lparr>backward := upd_pipe 0 (\<lambda>p. p\<lparr>hist := hist p @ b\<rparr>) (backward s)\<rparr>)"
| app_receive: "n = length (phases s) \<Longrightarrow> k \<le> length (avail (pipes (backward s) ! n)) \<Longrightarrow>
    end_step s (s\<lparr>backward := upd_pipe n (\<lambda>p. p\<lparr>taken_out := taken_out p + k\<rparr>) (backward s)\<rparr>)"
| dest_receive: "n = length (phases s) \<Longrightarrow> k \<le> length (avail (pipes (forward s) ! n)) \<Longrightarrow>
    end_step s (s\<lparr>forward := upd_pipe n (\<lambda>p. p\<lparr>taken_out := taken_out p + k\<rparr>) (forward s)\<rparr>)"
| app_shut: "end_step s (s\<lparr>forward := upd_pipe 0 (\<lambda>p. p\<lparr>fin := True\<rparr>) (forward s)\<rparr>)"
| dest_shut: "end_step s (s\<lparr>backward := upd_pipe 0 (\<lambda>p. p\<lparr>fin := True\<rparr>) (backward s)\<rparr>)"
| app_close: "n = length (phases s) \<Longrightarrow>
    end_step s (s\<lparr>forward := upd_pipe 0 (\<lambda>p. p\<lparr>fin := True\<rparr>) (forward s),
      backward := upd_pipe n (\<lambda>p. p\<lparr>dead := True\<rparr>) (backward s)\<rparr>)"
| dest_close: "n = length (phases s) \<Longrightarrow>
    end_step s (s\<lparr>backward := upd_pipe 0 (\<lambda>p. p\<lparr>fin := True\<rparr>) (backward s),
      forward := upd_pipe n (\<lambda>p. p\<lparr>dead := True\<rparr>) (forward s)\<rparr>)"
| tear: "n = length (phases s) \<Longrightarrow> l \<le> n \<Longrightarrow>
    end_step s (s\<lparr>forward := upd_pipe l (\<lambda>p. p\<lparr>torn := True\<rparr>) (forward s),
      backward := upd_pipe (n - l) (\<lambda>p. p\<lparr>torn := True\<rparr>) (backward s)\<rparr>)"

inductive chain_run :: "nat \<Rightarrow> chain \<Rightarrow> bool" for n where
  start: "chain_run n (new_chain n)"
| relay: "chain_run n s \<Longrightarrow> relay_step s t \<Longrightarrow> chain_run n t"
| ends: "chain_run n s \<Longrightarrow> end_step s t \<Longrightarrow> chain_run n t"

subsection \<open>What one copier has done\<close>

text \<open>Source pipe, copier, sink pipe.\<close>

definition link_ok :: "pipe \<Rightarrow> copier \<Rightarrow> pipe \<Rightarrow> bool" where
  "link_ok p c q \<longleftrightarrow>
     (case c of
        AtRead \<Rightarrow> hist q = take (taken_out p) (hist p)
      | Holding b \<Rightarrow> hist q @ b = take (taken_out p) (hist p)
      | Returned \<Rightarrow> prefix (hist q) (take (taken_out p) (hist p))
          \<and> (torn p \<or> torn q \<or> dead q \<or> (fin p \<and> hist q = hist p)))
     \<and> (fin q \<longrightarrow> c = Returned)"

definition flow_ok :: "nat \<Rightarrow> flow \<Rightarrow> bool" where
  "flow_ok n f \<longleftrightarrow> length (pipes f) = Suc n \<and> length (copiers f) = n
     \<and> (\<forall>i \<le> n. taken_out (pipes f ! i) \<le> length (hist (pipes f ! i)))
     \<and> (\<forall>i < n. link_ok (pipes f ! i) (copiers f ! i) (pipes f ! Suc i))"

lemma flow_okD:
  assumes "flow_ok n f"
  shows "length (pipes f) = Suc n" "length (copiers f) = n"
    and "i \<le> n \<Longrightarrow> taken_out (pipes f ! i) \<le> length (hist (pipes f ! i))"
    and "i < n \<Longrightarrow> link_ok (pipes f ! i) (copiers f ! i) (pipes f ! Suc i)"
  using assms by (auto simp: flow_ok_def)

text \<open>A change of pipe \<open>i\<close> that both its neighbours tolerate.\<close>

lemma flow_ok_upd_pipe:
  assumes "flow_ok n f" "i \<le> n"
    and "taken_out (g (pipes f ! i)) \<le> length (hist (g (pipes f ! i)))"
    and "\<And>c q. i < n \<Longrightarrow> link_ok (pipes f ! i) c q \<Longrightarrow> c = copiers f ! i \<Longrightarrow> link_ok (g (pipes f ! i)) c q"
    and "\<And>p c j. i = Suc j \<Longrightarrow> link_ok p c (pipes f ! i) \<Longrightarrow> c = copiers f ! j \<Longrightarrow> link_ok p c (g (pipes f ! i))"
  shows "flow_ok n (upd_pipe i g f)"
  using assms unfolding flow_ok_def by (auto simp: nth_list_update)

text \<open>A step of copier \<open>i\<close>: its own link changes, and the next one sees its source grow at most.\<close>

lemma flow_ok_copier:
  assumes "flow_ok n f" "i < n"
    and "link_ok (g (pipes f ! i)) c (h (pipes f ! Suc i))"
    and "taken_out (g (pipes f ! i)) \<le> length (hist (g (pipes f ! i)))"
    and "taken_out (h (pipes f ! Suc i)) \<le> length (hist (h (pipes f ! Suc i)))"
    and "\<And>p d. link_ok p d (pipes f ! i) \<Longrightarrow> link_ok p d (g (pipes f ! i))"
    and "\<And>d q. \<not> fin (pipes f ! Suc i) \<Longrightarrow> taken_out (pipes f ! Suc i) \<le> length (hist (pipes f ! Suc i)) \<Longrightarrow>
      link_ok (pipes f ! Suc i) d q \<Longrightarrow> link_ok (h (pipes f ! Suc i)) d q"
    and "copiers f ! i \<noteq> Returned"
  shows "flow_ok n (set_copier i c (upd_pipe i g (upd_pipe (Suc i) h f)))"
proof -
  note ok = flow_okD [OF assms(1)]
  have own: "link_ok (pipes f ! i) (copiers f ! i) (pipes f ! Suc i)"
    using ok(4) assms(2) by blast
  then have "\<not> fin (pipes f ! Suc i)"
    using assms(8) by (simp add: link_ok_def)
  then have next_ok: "Suc i < n \<Longrightarrow> link_ok (h (pipes f ! Suc i)) (copiers f ! Suc i) (pipes f ! Suc (Suc i))"
    using assms(7) ok(3) [of "Suc i"] ok(4) [of "Suc i"] assms(2) by simp
  have before: "link_ok (pipes f ! j) (copiers f ! j) (g (pipes f ! i))" if "i = Suc j" for j
    using assms(6) ok(4) [of j] assms(2) that by simp
  let ?f = "set_copier i c (upd_pipe i g (upd_pipe (Suc i) h f))"
  have pipes: "pipes ?f ! j = (if j = i then g (pipes f ! i) else if j = Suc i then h (pipes f ! Suc i) else pipes f ! j)" if "j \<le> n" for j
    using ok(1) assms(2) that by (simp add: nth_list_update)
  have copiers: "copiers ?f ! j = (if j = i then c else copiers f ! j)" if "j < n" for j
    using ok(2) assms(2) that by (simp add: nth_list_update)
  show ?thesis
    unfolding flow_ok_def
  proof (intro conjI allI impI)
    fix j assume "j \<le> n"
    then show "taken_out (pipes ?f ! j) \<le> length (hist (pipes ?f ! j))"
      unfolding pipes [OF \<open>j \<le> n\<close>] using assms(4,5) ok(3) by simp
  next
    fix j assume j: "j < n"
    then have "j \<le> n" "Suc j \<le> n" by simp_all
    consider "j = i" | "j = Suc i" | "i = Suc j" | "j \<noteq> i" "j \<noteq> Suc i" "i \<noteq> Suc j"
      by blast
    then show "link_ok (pipes ?f ! j) (copiers ?f ! j) (pipes ?f ! Suc j)"
      unfolding pipes [OF \<open>j \<le> n\<close>] pipes [OF \<open>Suc j \<le> n\<close>] copiers [OF j]
      by cases (use assms(3) next_ok before ok(4) j in simp_all)
  qed (use ok in simp_all)
qed

lemma link_ok_grow:
  "link_ok p c q \<Longrightarrow> \<not> fin p \<Longrightarrow> taken_out p \<le> length (hist p) \<Longrightarrow> link_ok (p\<lparr>hist := hist p @ b\<rparr>) c q"
  by (cases c) (auto simp: link_ok_def)

lemma copy_step_ok:
  assumes "copy_step f f'" "flow_ok n f"
  shows "flow_ok n f'"
  using assms(1)
proof (cases rule: copy_step.cases)
  case (take_chunk i k)
  note ok = flow_okD [OF assms(2)]
  have i: "i < n"
    using take_chunk ok(2) by simp
  have "flow_ok n (set_copier i (Holding (take k (avail (pipes f ! i))))
      (upd_pipe i (\<lambda>p. p\<lparr>taken_out := taken_out p + k\<rparr>) (upd_pipe (Suc i) (\<lambda>p. p) f)))"
    by (rule flow_ok_copier [OF assms(2) i])
      (use take_chunk ok(3) [of i] ok(3) [of "Suc i"] ok(4) [OF i] i in
        \<open>auto simp: link_ok_def avail_def take_add split: copier.splits\<close>)
  then show ?thesis
    using take_chunk by simp
next
  case (take_end i)
  note ok = flow_okD [OF assms(2)]
  have i: "i < n"
    using take_end ok(2) by simp
  have "flow_ok n (set_copier i Returned (upd_pipe i (\<lambda>p. p) (upd_pipe (Suc i) (\<lambda>p. p) f)))"
    by (rule flow_ok_copier [OF assms(2) i])
      (use take_end ok(3) [of i] ok(3) [of "Suc i"] ok(4) [OF i] i in \<open>auto simp: link_ok_def avail_def\<close>)
  then show ?thesis
    using take_end by simp
next
  case (put i b)
  note ok = flow_okD [OF assms(2)]
  have i: "i < n"
    using put ok(2) by simp
  have "length (hist (pipes f ! Suc i) @ b) = length (take (taken_out (pipes f ! i)) (hist (pipes f ! i)))"
    using ok(4) [OF i] put by (intro arg_cong [where f = length]) (simp add: link_ok_def)
  then have len: "taken_out (pipes f ! Suc i) \<le> taken_out (pipes f ! i)"
    using ok(3) [of "Suc i"] ok(3) [of i] i by simp
  have "flow_ok n (set_copier i AtRead (upd_pipe i (\<lambda>p. p) (upd_pipe (Suc i) (\<lambda>p. p\<lparr>hist := hist p @ b\<rparr>) f)))"
    by (rule flow_ok_copier [OF assms(2) i]; (rule link_ok_grow; assumption)?)
      (use put len ok(3) [of i] ok(3) [of "Suc i"] ok(4) [OF i] i in \<open>auto simp: link_ok_def\<close>)
  then show ?thesis
    using put by (simp add: list_update_swap [of "Suc i" i])
next
  case (put_fail i b m)
  note ok = flow_okD [OF assms(2)]
  have i: "i < n"
    using put_fail ok(2) by simp
  have own: "hist (pipes f ! Suc i) @ b = take (taken_out (pipes f ! i)) (hist (pipes f ! i))"
    using ok(4) [OF i] put_fail by (simp add: link_ok_def)
  have pre: "prefix (hist (pipes f ! Suc i) @ take m b) (take (taken_out (pipes f ! i)) (hist (pipes f ! i)))"
    unfolding own [symmetric] by (simp add: take_is_prefix)
  have "flow_ok n (set_copier i Returned (upd_pipe i (\<lambda>p. p)
      (upd_pipe (Suc i) (\<lambda>p. p\<lparr>hist := hist p @ take m b\<rparr>) f)))"
    by (rule flow_ok_copier [OF assms(2) i]; (rule link_ok_grow; assumption)?)
      (use put_fail pre ok(3) [of i] ok(3) [of "Suc i"] ok(4) [OF i] i in \<open>auto simp: link_ok_def\<close>)
  then show ?thesis
    using put_fail by (simp add: list_update_swap [of "Suc i" i])
qed

lemma copy_step_returned:
  "copy_step f f' \<Longrightarrow> copiers f ! i = Returned \<Longrightarrow> copiers f' ! i = Returned"
  by (auto elim!: copy_step.cases simp: nth_list_update)

lemma nth_upd: "xs[i := x] ! j = (if j = i \<and> i < length xs then x else xs ! j)"
  by (cases "i < length xs") (auto simp: nth_list_update list_update_beyond)

lemma copy_step_flags:
  "copy_step f f' \<Longrightarrow> fin (pipes f' ! i) = fin (pipes f ! i)"
  "copy_step f f' \<Longrightarrow> dead (pipes f' ! i) = dead (pipes f ! i)"
  "copy_step f f' \<Longrightarrow> torn (pipes f' ! i) = torn (pipes f ! i)"
  by (cases "i < length (pipes f)"; erule copy_step.cases; auto simp: nth_upd)+

subsection \<open>Invariant of a chain\<close>

definition chain_ok :: "nat \<Rightarrow> chain \<Rightarrow> bool" where
  "chain_ok n s \<longleftrightarrow> flow_ok n (forward s) \<and> flow_ok n (backward s) \<and> length (phases s) = n
     \<and> (\<forall>i < n. phases s ! i \<noteq> Relaying \<longrightarrow>
          copiers (forward s) ! i = Returned \<and> copiers (backward s) ! (n - 1 - i) = Returned
          \<and> fin (pipes (forward s) ! Suc i))
     \<and> (\<forall>i < n. phases s ! i = BothClosed \<longrightarrow> fin (pipes (backward s) ! (n - i)))"

lemma chain_ok_new: "chain_ok n (new_chain n)"
  by (auto simp: chain_ok_def new_chain_def new_flow_def flow_ok_def link_ok_def new_pipe_def nth_append
      simp del: replicate_Suc)

text \<open>Changes that never disturb a flow: more is received, a reader closes, a connection is lost, and the writer
  closes once its copier has returned.\<close>

lemma flow_ok_receive:
  "flow_ok n f \<Longrightarrow> k \<le> length (avail (pipes f ! n)) \<Longrightarrow> flow_ok n (upd_pipe n (\<lambda>p. p\<lparr>taken_out := taken_out p + k\<rparr>) f)"
  using flow_okD(3) [of n f n] by (intro flow_ok_upd_pipe) (auto simp: link_ok_def avail_def split: copier.splits)

lemma flow_ok_send:
  assumes "flow_ok n f" "\<not> fin (pipes f ! 0)"
  shows "flow_ok n (upd_pipe 0 (\<lambda>p. p\<lparr>hist := hist p @ b\<rparr>) f)"
  by (rule flow_ok_upd_pipe) (use assms flow_okD(3) [OF assms(1), of 0] in \<open>auto simp: link_ok_def split: copier.splits\<close>)

lemma flow_ok_dead: "flow_ok n f \<Longrightarrow> i \<le> n \<Longrightarrow> flow_ok n (upd_pipe i (\<lambda>p. p\<lparr>dead := dead p \<or> d\<rparr>) f)"
  using flow_okD(3) [of n f i] by (intro flow_ok_upd_pipe) (auto simp: link_ok_def split: copier.splits)

lemma flow_ok_torn: "flow_ok n f \<Longrightarrow> i \<le> n \<Longrightarrow> flow_ok n (upd_pipe i (\<lambda>p. p\<lparr>torn := True\<rparr>) f)"
  using flow_okD(3) [of n f i] by (intro flow_ok_upd_pipe) (auto simp: link_ok_def split: copier.splits)

lemma flow_ok_fin:
  assumes "flow_ok n f" "i \<le> n" "\<And>j. i = Suc j \<Longrightarrow> copiers f ! j = Returned"
  shows "flow_ok n (upd_pipe i (\<lambda>p. p\<lparr>fin := True\<rparr>) f)"
  by (rule flow_ok_upd_pipe)
    (use assms flow_okD(3) [OF assms(1), of i] in \<open>auto simp: link_ok_def split: copier.splits\<close>)

lemma relay_step_ok:
  assumes "relay_step s t" "chain_ok n s"
  shows "chain_ok n t"
  using assms(1)
proof (cases rule: relay_step.cases)
  case (copy_forward f)
  then show ?thesis
    using assms(2) copy_step_ok copy_step_returned by (auto simp: chain_ok_def copy_step_flags)
next
  case (copy_backward f)
  then show ?thesis
    using assms(2) copy_step_ok copy_step_returned by (auto simp: chain_ok_def copy_step_flags)
next
  case (close_first m i d)
  then have "m = n" "i < n" and ok: "flow_ok n (forward s)" "flow_ok n (backward s)"
    using assms(2) by (auto simp: chain_ok_def)
  moreover have "flow_ok n (forward t)"
    using flow_ok_fin [OF ok(1), of "Suc i"] close_first \<open>i < n\<close> by simp
  moreover have "flow_ok n (backward t)"
    using flow_ok_dead [OF ok(2), of "n - 1 - i" d] close_first \<open>m = n\<close> by simp
  ultimately show ?thesis
    using assms(2) close_first flow_okD(1) [OF ok(1)] flow_okD(1) [OF ok(2)] by (auto simp: chain_ok_def nth_list_update)
next
  case (close_second m i d)
  then have n: "m = n" "i < n" and ok: "flow_ok n (forward s)" "flow_ok n (backward s)"
    and ret: "copiers (backward s) ! (n - 1 - i) = Returned"
    using assms(2) by (auto simp: chain_ok_def)
  have "flow_ok n (backward t)"
  proof -
    have "copiers (backward s) ! j = Returned" if "n - i = Suc j" for j
    proof -
      have "j = n - 1 - i"
        using that by simp
      then show ?thesis
        using ret by simp
    qed
    then show ?thesis
      using flow_ok_fin [OF ok(2), of "n - i"] close_second n by auto
  qed
  moreover have "flow_ok n (forward t)"
    using flow_ok_dead [OF ok(1), of i d] close_second n by simp
  ultimately show ?thesis
    using assms(2) close_second n flow_okD(1) [OF ok(1)] flow_okD(1) [OF ok(2)] by (auto simp: chain_ok_def nth_list_update)
qed

lemma end_step_ok:
  assumes "end_step s t" "chain_ok n s"
  shows "chain_ok n t"
proof -
  have ok: "flow_ok n (forward s)" "flow_ok n (backward s)" "length (phases s) = n"
    using assms(2) by (auto simp: chain_ok_def)
  have "flow_ok n (forward t) \<and> flow_ok n (backward t) \<and> phases t = phases s
      \<and> copiers (forward t) = copiers (forward s) \<and> copiers (backward t) = copiers (backward s)"
    using assms(1)
    by (cases rule: end_step.cases)
      (use ok in \<open>auto intro: flow_ok_send flow_ok_receive flow_ok_torn flow_ok_fin
        flow_ok_dead [where d = True, simplified]\<close>)
  moreover have "\<forall>i. (fin (pipes (forward s) ! i) \<longrightarrow> fin (pipes (forward t) ! i))
      \<and> (fin (pipes (backward s) ! i) \<longrightarrow> fin (pipes (backward t) ! i))"
    using assms(1) by (cases rule: end_step.cases) (auto simp: nth_upd)
  ultimately show ?thesis
    using assms(2) by (auto simp: chain_ok_def)
qed

lemma chain_run_ok: "chain_run n s \<Longrightarrow> chain_ok n s"
  by (induction rule: chain_run.induct) (use chain_ok_new relay_step_ok end_step_ok in blast)+

subsection \<open>Progress\<close>

lemma no_copy_step:
  assumes "\<nexists>f'. copy_step f f'" "i < length (copiers f)"
  shows "copiers f ! i = Returned \<or>
    (copiers f ! i = AtRead \<and> avail (pipes f ! i) = [] \<and> \<not> fin (pipes f ! i) \<and> \<not> torn (pipes f ! i))"
proof (cases "copiers f ! i")
  case AtRead
  have "avail (pipes f ! i) = []"
  proof (rule ccontr)
    assume "avail (pipes f ! i) \<noteq> []"
    then have "\<exists>f'. copy_step f f'"
      using take_chunk [OF assms(2) AtRead, of 1] by (fastforce simp: copy_buffer_def Suc_le_eq)
    with assms(1) show False
      by blast
  qed
  then show ?thesis
    using AtRead take_end [OF assms(2) AtRead] assms(1) by blast
next
  case (Holding b)
  then show ?thesis
    using put [OF assms(2) Holding] put_fail [OF assms(2) Holding, of 0] assms(1) by blast
qed simp

text \<open>A flow that is at rest and has lost nothing has moved everything to the last pipe.\<close>

lemma at_rest_moved:
  assumes "flow_ok n f" "\<nexists>f'. copy_step f f'" "\<forall>i \<le> n. \<not> dead (pipes f ! i) \<and> \<not> torn (pipes f ! i)"
  shows "i \<le> n \<Longrightarrow> hist (pipes f ! i) = hist (pipes f ! 0)"
proof (induction i)
  case (Suc i)
  note ok = flow_okD [OF assms(1)]
  have "link_ok (pipes f ! i) (copiers f ! i) (pipes f ! Suc i)"
    using ok(4) Suc.prems by simp
  then have "hist (pipes f ! Suc i) = hist (pipes f ! i)"
    using no_copy_step [OF assms(2), of i] assms(3) Suc.prems ok(2) ok(3) [of i]
    by (auto simp: link_ok_def avail_def)
  then show ?case
    using Suc by simp
qed simp

text \<open>Whatever happens, each pipe holds a prefix of the one before it.\<close>

lemma flow_prefix:
  assumes "flow_ok n f"
  shows "i \<le> n \<Longrightarrow> prefix (hist (pipes f ! i)) (hist (pipes f ! 0))"
proof (induction i)
  case (Suc i)
  note ok = flow_okD [OF assms]
  have "link_ok (pipes f ! i) (copiers f ! i) (pipes f ! Suc i)"
    using ok(4) Suc.prems by simp
  then have "prefix (hist (pipes f ! Suc i)) (take (taken_out (pipes f ! i)) (hist (pipes f ! i)))"
    by (cases "copiers f ! i") (auto simp: link_ok_def prefix_def, metis)
  also have "prefix \<dots> (hist (pipes f ! i))"
    by (rule take_is_prefix)
  finally show ?case
    using Suc by (simp add: prefix_order.order_trans)
qed simp

subsection \<open>The work left\<close>

definition copier_weight :: "nat \<Rightarrow> copier \<Rightarrow> nat" where
  "copier_weight r c = (case c of AtRead \<Rightarrow> 2 | Holding b \<Rightarrow> 3 + (4 * r - 2) * length b | Returned \<Rightarrow> 0)"

definition weight_at :: "nat \<Rightarrow> flow \<Rightarrow> nat \<Rightarrow> nat" where
  "weight_at n f i = 4 * (n - i) * length (avail (pipes f ! i)) + copier_weight (n - i) (copiers f ! i)"

definition flow_weight :: "nat \<Rightarrow> flow \<Rightarrow> nat" where
  "flow_weight n f = (\<Sum>i < n. weight_at n f i)"

definition phase_weight :: "relay_phase \<Rightarrow> nat" where
  "phase_weight p = (case p of Relaying \<Rightarrow> 2 | FirstClosed \<Rightarrow> 1 | BothClosed \<Rightarrow> 0)"

definition chain_weight :: "nat \<Rightarrow> chain \<Rightarrow> nat" where
  "chain_weight n s = flow_weight n (forward s) + flow_weight n (backward s) + (\<Sum>i < n. phase_weight (phases s ! i))"

lemma sum_less_at:
  fixes f g :: "nat \<Rightarrow> nat"
  assumes "i < n" "\<And>j. j < n \<Longrightarrow> j \<noteq> i \<Longrightarrow> j \<noteq> Suc i \<Longrightarrow> f j = g j"
    and "f i + (if Suc i < n then f (Suc i) else 0) < g i + (if Suc i < n then g (Suc i) else 0)"
  shows "sum f {..<n} < sum g {..<n}"
proof -
  let ?B = "{i, Suc i} \<inter> {..<n}"
  have split: "sum h {..<n} = sum h ({..<n} - ?B) + sum h ?B" for h :: "nat \<Rightarrow> nat"
    by (rule sum.subset_diff) auto
  have "sum h ?B = h i + (if Suc i < n then h (Suc i) else 0)" for h :: "nat \<Rightarrow> nat"
    using assms(1) by (cases "Suc i < n") auto
  moreover have "sum f ({..<n} - ?B) = sum g ({..<n} - ?B)"
    using assms(2) by (intro sum.cong) auto
  ultimately show ?thesis
    using split [of f] split [of g] assms(3) by simp
qed

lemma take_weight:
  assumes "0 < k" "k \<le> a"
  shows "4 * Suc r * (a - k) + (3 + (4 * Suc r - 2) * k) < 4 * Suc r * a + 2"
proof -
  obtain m l where "k = Suc m" "a = k + l"
    using assms by (metis le_iff_add gr0_implies_Suc)
  then show ?thesis
    by (simp add: algebra_simps)
qed

lemma put_weight:
  assumes "m \<le> l" "w \<le> 2"
  shows "w + 4 * r * (a + m) < (3 + (4 * Suc r - 2) * l) + 4 * r * a"
proof -
  have "4 * r * m \<le> 4 * r * l"
    using assms(1) by (rule mult_le_mono2)
  moreover have "4 * r * (a + m) = 4 * r * a + 4 * r * m" "(4 * Suc r - 2) * l = 2 * l + 4 * r * l"
    by (simp_all add: distrib_left distrib_right)
  ultimately show ?thesis
    using assms(2) by linarith
qed

lemma sink_weight:
  assumes "flow_ok n f" "i < n" "copiers f ! i = Holding b" "m \<le> length b" "copier_weight (n - i) c \<le> 2"
    and "f' = set_copier i c (upd_pipe (Suc i) (\<lambda>p. p\<lparr>hist := hist p @ take m b\<rparr>) f)"
  shows "flow_weight n f' < flow_weight n f"
proof -
  have i: "Suc i < length (pipes f)" "i < length (copiers f)" "taken_out (pipes f ! Suc i) \<le> length (hist (pipes f ! Suc i))"
    using flow_okD [OF assms(1)] assms(2) by auto
  obtain r where r: "n - i = Suc r" "n - Suc i = r"
    using assms(2) by (metis Suc_diff_Suc diff_Suc_Suc diff_Suc_1)
  have "weight_at n f' i = 4 * Suc r * length (avail (pipes f ! i)) + copier_weight (Suc r) c"
    "weight_at n f i = 4 * Suc r * length (avail (pipes f ! i)) + (3 + (4 * Suc r - 2) * length b)"
    using assms i r by (simp_all add: weight_at_def copier_weight_def)
  moreover have "weight_at n f' (Suc i) = 4 * r * (length (avail (pipes f ! Suc i)) + m) + copier_weight r (copiers f ! Suc i)"
    "weight_at n f (Suc i) = 4 * r * length (avail (pipes f ! Suc i)) + copier_weight r (copiers f ! Suc i)"
    using assms i r by (simp_all add: weight_at_def avail_def)
  ultimately have "weight_at n f' i + (if Suc i < n then weight_at n f' (Suc i) else 0)
      < weight_at n f i + (if Suc i < n then weight_at n f (Suc i) else 0)"
    using put_weight [OF assms(4), of "copier_weight (Suc r) c" r "length (avail (pipes f ! Suc i))"] assms(5) r by simp
  moreover have "weight_at n f' j = weight_at n f j" if "j \<noteq> i" "j \<noteq> Suc i" for j
    using assms(6) that by (simp add: weight_at_def)
  ultimately show ?thesis
    unfolding flow_weight_def by (intro sum_less_at [OF assms(2)]) auto
qed

lemma copy_step_weight:
  assumes "copy_step f f'" "flow_ok n f"
  shows "flow_weight n f' < flow_weight n f"
  using assms(1)
proof (cases rule: copy_step.cases)
  case (take_chunk i k)
  then have i: "i < n" "i < length (pipes f)" "i < length (copiers f)"
    using flow_okD [OF assms(2)] by auto
  obtain r where r: "n - i = Suc r"
    using i(1) by (metis Suc_diff_Suc)
  have "length (avail (pipes f' ! i)) = length (avail (pipes f ! i)) - k" "copiers f' ! i = Holding (take k (avail (pipes f ! i)))"
    using take_chunk i by (simp_all add: avail_def)
  then have "weight_at n f' i < weight_at n f i"
    using take_weight [of k "length (avail (pipes f ! i))" r] take_chunk by (simp add: weight_at_def copier_weight_def r)
  moreover have "weight_at n f' j = weight_at n f j" if "j \<noteq> i" for j
    using take_chunk that by (simp add: weight_at_def)
  ultimately show ?thesis
    unfolding flow_weight_def by (intro sum_less_at [OF i(1)]) auto
next
  case (take_end i)
  then have i: "i < n" "i < length (copiers f)"
    using flow_okD [OF assms(2)] by auto
  have "weight_at n f' i < weight_at n f i" "\<And>j. j \<noteq> i \<Longrightarrow> weight_at n f' j = weight_at n f j"
    using take_end i by (simp_all add: weight_at_def copier_weight_def)
  then show ?thesis
    unfolding flow_weight_def by (intro sum_less_at [OF i(1)]) auto
next
  case (put i b)
  then show ?thesis
    using sink_weight [OF assms(2), of i b "length b" AtRead f'] flow_okD(2) [OF assms(2)] by (simp add: copier_weight_def)
next
  case (put_fail i b m)
  then show ?thesis
    using sink_weight [OF assms(2), of i b m Returned f'] flow_okD(2) [OF assms(2)] by (simp add: copier_weight_def)
qed

lemma flow_weight_flags:
  "flow_weight n (upd_pipe i (\<lambda>p. p\<lparr>fin := b\<rparr>) f) = flow_weight n f"
  "flow_weight n (upd_pipe i (\<lambda>p. p\<lparr>dead := dead p \<or> d\<rparr>) f) = flow_weight n f"
  by (auto simp: flow_weight_def weight_at_def avail_def nth_upd intro!: sum.cong)

lemma phase_sum:
  assumes "i < n" "length ps = n" "phase_weight p < phase_weight (ps ! i)"
  shows "(\<Sum>j < n. phase_weight (ps[i := p] ! j)) < (\<Sum>j < n. phase_weight (ps ! j))"
  by (rule sum_less_at [OF assms(1)]) (use assms in auto)

lemma relay_step_weight:
  assumes "relay_step s t" "chain_ok n s"
  shows "chain_weight n t < chain_weight n s"
  using assms(1)
proof (cases rule: relay_step.cases)
  case (copy_forward f)
  then show ?thesis
    using copy_step_weight [of "forward s" f n] assms(2) by (simp add: chain_ok_def chain_weight_def)
next
  case (copy_backward f)
  then show ?thesis
    using copy_step_weight [of "backward s" f n] assms(2) by (simp add: chain_ok_def chain_weight_def)
next
  case (close_first m i d)
  then show ?thesis
    using phase_sum [of i n "phases s" FirstClosed] assms(2)
    by (simp add: chain_ok_def chain_weight_def phase_weight_def flow_weight_flags)
next
  case (close_second m i d)
  then show ?thesis
    using phase_sum [of i n "phases s" BothClosed] assms(2)
    by (simp add: chain_ok_def chain_weight_def phase_weight_def flow_weight_flags)
qed

subsection \<open>Two relays wait for each other\<close>

text \<open>No connection is lost, and neither end has closed the direction in which it receives.\<close>

definition intact :: "nat \<Rightarrow> chain \<Rightarrow> bool" where
  "intact n s \<longleftrightarrow> (\<forall>i \<le> n. \<not> torn (pipes (forward s) ! i) \<and> \<not> torn (pipes (backward s) ! i))
     \<and> \<not> dead (pipes (forward s) ! n) \<and> \<not> dead (pipes (backward s) ! n)"

definition kept_open :: "nat \<Rightarrow> flow \<Rightarrow> bool" where
  "kept_open n f \<longleftrightarrow> (\<forall>i \<le> n. \<not> torn (pipes f ! i) \<and> \<not> dead (pipes f ! i))
     \<and> (\<forall>i \<le> n. 0 < i \<longrightarrow> \<not> fin (pipes f ! i)) \<and> (\<forall>i < n. 0 < i \<longrightarrow> copiers f ! i \<noteq> Returned)"

lemma kept_open_step:
  assumes "copy_step f f'" "kept_open n f" "length (copiers f) = n"
  shows "kept_open n f'"
proof -
  have "copiers f' ! i \<noteq> Returned" if "0 < i" "i < n" for i
    using assms(1)
    by (cases rule: copy_step.cases) (use assms(2,3) that in \<open>auto simp: kept_open_def nth_upd\<close>)
  then show ?thesis
    using assms(2) by (simp add: kept_open_def copy_step_flags [OF assms(1)])
qed

definition all_relaying :: "nat \<Rightarrow> chain \<Rightarrow> bool" where
  "all_relaying n s \<longleftrightarrow> kept_open n (forward s) \<and> kept_open n (backward s) \<and> (\<forall>i < n. phases s ! i = Relaying)"

lemma all_relaying_relay_step:
  assumes "relay_step s t" "chain_ok n s" "2 \<le> n" "all_relaying n s"
  shows "all_relaying n t"
  using assms(1)
proof (cases rule: relay_step.cases)
  case (copy_forward f)
  then show ?thesis
    using kept_open_step assms(2,4) by (auto simp: all_relaying_def chain_ok_def flow_ok_def)
next
  case (copy_backward f)
  then show ?thesis
    using kept_open_step assms(2,4) by (auto simp: all_relaying_def chain_ok_def flow_ok_def)
next
  case (close_first m i d)
  then have n: "m = n" "i < n"
    using assms(2) by (auto simp: chain_ok_def)
  have "j = 0" if "j < n" "copiers (forward s) ! j = Returned \<or> copiers (backward s) ! j = Returned" for j
    using assms(4) that by (auto simp: all_relaying_def kept_open_def)
  from this [of i] this [of "n - 1 - i"] have "i = 0" "n - 1 - i = 0"
    using close_first n by auto
  then show ?thesis
    using assms(3) by simp
next
  case (close_second m i d)
  then show ?thesis
    using assms(2,4) by (auto simp: all_relaying_def chain_ok_def)
qed

lemma all_relaying_end_step:
  assumes "end_step s t" "chain_ok n s" "all_relaying n s" "intact n t"
  shows "all_relaying n t"
  using assms(1)
  by (cases rule: end_step.cases)
    (use assms(2-) in \<open>auto simp: all_relaying_def kept_open_def intact_def chain_ok_def flow_ok_def nth_upd split: if_splits\<close>)

lemma flags_kept:
  "relay_step s t \<Longrightarrow> (torn (pipes (forward s) ! i) \<longrightarrow> torn (pipes (forward t) ! i))
    \<and> (torn (pipes (backward s) ! i) \<longrightarrow> torn (pipes (backward t) ! i))
    \<and> (dead (pipes (forward s) ! i) \<longrightarrow> dead (pipes (forward t) ! i))
    \<and> (dead (pipes (backward s) ! i) \<longrightarrow> dead (pipes (backward t) ! i))"
  "end_step s t \<Longrightarrow> (torn (pipes (forward s) ! i) \<longrightarrow> torn (pipes (forward t) ! i))
    \<and> (torn (pipes (backward s) ! i) \<longrightarrow> torn (pipes (backward t) ! i))
    \<and> (dead (pipes (forward s) ! i) \<longrightarrow> dead (pipes (forward t) ! i))
    \<and> (dead (pipes (backward s) ! i) \<longrightarrow> dead (pipes (backward t) ! i))"
  by (erule relay_step.cases; simp add: nth_upd copy_step_flags) (erule end_step.cases; simp add: nth_upd)

lemma intact_before: "relay_step s t \<or> end_step s t \<Longrightarrow> intact n t \<Longrightarrow> intact n s"
  unfolding intact_def using flags_kept by blast

lemma all_relaying_run:
  assumes "chain_run n s" "2 \<le> n" "intact n s"
  shows "all_relaying n s"
  using assms
proof (induction rule: chain_run.induct)
  case start
  then show ?case
    by (auto simp: all_relaying_def kept_open_def new_chain_def new_flow_def new_pipe_def nth_append simp del: replicate_Suc)
next
  case (relay s t)
  then show ?case
    using all_relaying_relay_step [OF relay.hyps(2) chain_run_ok [OF relay.hyps(1)]] intact_before by blast
next
  case (ends s t)
  then show ?case
    using all_relaying_end_step [OF ends.hyps(2) chain_run_ok [OF ends.hyps(1)]] intact_before by blast
qed

text \<open>Two copiers carry one chunk from the first pipe to the last.\<close>

lemma copy_steps_run:
  "copy_step\<^sup>*\<^sup>* f f' \<Longrightarrow> chain_run n s \<Longrightarrow> forward s = f \<Longrightarrow> chain_run n (s\<lparr>forward := f'\<rparr>)"
  "copy_step\<^sup>*\<^sup>* f f' \<Longrightarrow> chain_run n s \<Longrightarrow> backward s = f \<Longrightarrow> chain_run n (s\<lparr>backward := f'\<rparr>)"
proof -
  show "copy_step\<^sup>*\<^sup>* f f' \<Longrightarrow> chain_run n s \<Longrightarrow> forward s = f \<Longrightarrow> chain_run n (s\<lparr>forward := f'\<rparr>)"
  proof (induction rule: rtranclp_induct)
    case (step g h)
    then show ?case
      using chain_run.relay [OF step.IH relay_step.copy_forward, of h] by simp
  qed auto
  show "copy_step\<^sup>*\<^sup>* f f' \<Longrightarrow> chain_run n s \<Longrightarrow> backward s = f \<Longrightarrow> chain_run n (s\<lparr>backward := f'\<rparr>)"
  proof (induction rule: rtranclp_induct)
    case (step g h)
    then show ?case
      using chain_run.relay [OF step.IH relay_step.copy_backward, of h] by simp
  qed auto
qed

definition pipe_of :: "bytes \<Rightarrow> nat \<Rightarrow> bool \<Rightarrow> bool \<Rightarrow> pipe" where
  "pipe_of b k f d = \<lparr>hist = b, taken_out = k, fin = f, dead = d, torn = False\<rparr>"

lemma pipe_of_sel [simp]:
  "hist (pipe_of b k f d) = b" "taken_out (pipe_of b k f d) = k" "fin (pipe_of b k f d) = f"
  "dead (pipe_of b k f d) = d" "torn (pipe_of b k f d) = False" "avail (pipe_of b k f d) = drop k b"
  "pipe_of b k f d\<lparr>hist := b'\<rparr> = pipe_of b' k f d" "pipe_of b k f d\<lparr>taken_out := k'\<rparr> = pipe_of b k' f d"
  "pipe_of b k f d\<lparr>fin := f'\<rparr> = pipe_of b k f' d" "pipe_of b k f d\<lparr>dead := d'\<rparr> = pipe_of b k f d'"
  by (simp_all add: pipe_of_def avail_def)

lemma new_pipe_of: "new_pipe = pipe_of [] 0 False False"
  by (simp add: new_pipe_def pipe_of_def)

lemma carry:
  assumes "b \<noteq> []" "length b \<le> copy_buffer"
  shows "copy_step\<^sup>*\<^sup>* \<lparr>pipes = [pipe_of b 0 False False, pipe_of [] 0 False False, pipe_of [] 0 False False], copiers = [AtRead, AtRead]\<rparr>
    \<lparr>pipes = [pipe_of b (length b) False False, pipe_of b (length b) False False, pipe_of b 0 False False], copiers = [AtRead, AtRead]\<rparr>"
    (is "copy_step\<^sup>*\<^sup>* ?f0 ?f4")
proof -
  let ?f1 = "\<lparr>pipes = [pipe_of b (length b) False False, pipe_of [] 0 False False, pipe_of [] 0 False False], copiers = [Holding b, AtRead]\<rparr>"
  let ?f2 = "\<lparr>pipes = [pipe_of b (length b) False False, pipe_of b 0 False False, pipe_of [] 0 False False], copiers = [AtRead, AtRead]\<rparr>"
  let ?f3 = "\<lparr>pipes = [pipe_of b (length b) False False, pipe_of b (length b) False False, pipe_of [] 0 False False], copiers = [AtRead, Holding b]\<rparr>"
  have "copy_step ?f0 ?f1" "copy_step ?f1 ?f2" "copy_step ?f2 ?f3" "copy_step ?f3 ?f4"
    using take_chunk [of 0 ?f0 "length b"] put [of 0 ?f1 b] take_chunk [of 1 ?f2 "length b"] put [of 1 ?f3 b] assms
    by (simp_all add: numeral_2_eq_2)
  then show ?thesis
    by (meson converse_rtranclp_into_rtranclp rtranclp.rtrancl_refl)
qed

text \<open>A request and its answer have arrived, both ends have closed, and each relay has seen one of the two.\<close>

definition done_flow :: "byte \<Rightarrow> flow" where
  "done_flow x = \<lparr>pipes = [pipe_of [x] 1 True False, pipe_of [x] 1 False False, pipe_of [x] 1 False True],
     copiers = [Returned, AtRead]\<rparr>"

definition stuck_chain :: chain where
  "stuck_chain = \<lparr>forward = done_flow 1, backward = done_flow 2, phases = [Relaying, Relaying]\<rparr>"

lemma stuck_reachable: "chain_run 2 stuck_chain"
proof -
  let ?fl = "\<lambda>x i j k. \<lparr>pipes = [pipe_of x i False False, pipe_of (take j x) j False False, pipe_of (take j x) k False False],
     copiers = [AtRead, AtRead]\<rparr>"
  let ?s = "\<lambda>f g. \<lparr>forward = f, backward = g, phases = [Relaying, Relaying]\<rparr>"
  have new: "new_chain 2 = ?s (?fl [] 0 0 0) (?fl [] 0 0 0)"
    by (simp add: new_chain_def new_flow_def new_pipe_of numeral_2_eq_2)
  note step = chain_run.ends chain_run.relay
  have buf: "length [x :: byte] \<le> copy_buffer" for x
    by (simp add: copy_buffer_def)
  have "chain_run 2 (?s (?fl [1] 0 0 0) (?fl [] 0 0 0))"
    using chain_run.ends [OF chain_run.start [of 2, unfolded new] app_send [of _ "[1]"]] by simp
  from copy_steps_run(1) [OF carry [OF _ buf, of 1] this] have "chain_run 2 (?s (?fl [1] 1 1 0) (?fl [] 0 0 0))"
    by simp
  from chain_run.ends [OF this dest_receive [of 2 _ 1]] have "chain_run 2 (?s (?fl [1] 1 1 1) (?fl [] 0 0 0))"
    by (simp add: numeral_2_eq_2)
  from chain_run.ends [OF this dest_send [of _ "[2]"]] have "chain_run 2 (?s (?fl [1] 1 1 1) (?fl [2] 0 0 0))"
    by simp
  from copy_steps_run(2) [OF carry [OF _ buf, of 2] this] have "chain_run 2 (?s (?fl [1] 1 1 1) (?fl [2] 1 1 0))"
    by simp
  from chain_run.ends [OF this app_receive [of 2 _ 1]] have r: "chain_run 2 (?s (?fl [1] 1 1 1) (?fl [2] 1 1 1))"
    by (simp add: numeral_2_eq_2)
  let ?cl = "\<lambda>x c. \<lparr>pipes = [pipe_of [x] 1 True False, pipe_of [x] 1 False False, pipe_of [x] 1 False True], copiers = [c, AtRead]\<rparr>"
  from chain_run.ends [OF chain_run.ends [OF r app_close [of 2]] dest_close [of 2]] have "chain_run 2 (?s (?cl 1 AtRead) (?cl 2 AtRead))"
    by (simp add: numeral_2_eq_2)
  from chain_run.relay [OF this relay_step.copy_forward [OF take_end [of 0]]]
  have "chain_run 2 (?s (?cl 1 Returned) (?cl 2 AtRead))"
    by simp
  from chain_run.relay [OF this relay_step.copy_backward [OF take_end [of 0]]]
  show ?thesis
    by (simp add: stuck_chain_def done_flow_def)
qed

lemma stuck_no_step: "\<not> relay_step stuck_chain t"
proof
  have none: "\<not> copy_step (done_flow x) f" for x f
    by (auto simp: done_flow_def less_Suc_eq elim!: copy_step.cases)
  assume "relay_step stuck_chain t"
  then show False
    by (cases rule: relay_step.cases)
      (use none in \<open>auto simp: stuck_chain_def less_Suc_eq done_flow_def numeral_2_eq_2\<close>)
qed

subsection \<open>One relay\<close>

lemma single_relay_end:
  assumes ok: "chain_ok 1 s" and "intact 1 s" "fin (pipes (forward s) ! 0)" "fin (pipes (backward s) ! 0)" "\<nexists>t. relay_step s t"
  shows "phases s = [BothClosed] \<and> fin (pipes (forward s) ! 1) \<and> fin (pipes (backward s) ! 1)
    \<and> hist (pipes (forward s) ! 1) = hist (pipes (forward s) ! 0) \<and> hist (pipes (backward s) ! 1) = hist (pipes (backward s) ! 0)"
proof -
  have rest: "\<nexists>f. copy_step (forward s) f" "\<nexists>f. copy_step (backward s) f"
    using assms(5) relay_step.copy_forward relay_step.copy_backward by blast+
  have f: "flow_ok 1 (forward s)" "flow_ok 1 (backward s)" and len: "length (phases s) = 1"
    using ok by (simp_all add: chain_ok_def)
  have ret: "copiers (forward s) ! 0 = Returned" "copiers (backward s) ! 0 = Returned"
    using no_copy_step [OF rest(1), of 0] no_copy_step [OF rest(2), of 0] flow_okD(2) [OF f(1)] flow_okD(2) [OF f(2)] assms(3,4)
    by auto
  have "phases s ! 0 = BothClosed"
  proof (cases "phases s ! 0")
    case Relaying
    then show ?thesis
      using close_first [of 1 s 0] assms(5) len ret by auto
  next
    case FirstClosed
    then show ?thesis
      using close_second [of 1 s 0] assms(5) len by auto
  qed simp
  moreover have "phases s = [phases s ! 0]"
    using len by (cases "phases s") auto
  ultimately show ?thesis
    using ok assms(2) ret flow_okD(4) [OF f(1), of 0] flow_okD(4) [OF f(2), of 0]
    by (auto simp: chain_ok_def link_ok_def intact_def)
qed

subsection \<open>Properties\<close>

definition sent :: "flow \<Rightarrow> bytes" where
  "sent f = hist (pipes f ! 0)"

definition received :: "nat \<Rightarrow> flow \<Rightarrow> bytes" where
  "received n f = take (taken_out (pipes f ! n)) (hist (pipes f ! n))"

definition lossless :: "nat \<Rightarrow> flow \<Rightarrow> bool" where
  "lossless n f \<longleftrightarrow> (\<forall>i \<le> n. \<not> dead (pipes f ! i) \<and> \<not> torn (pipes f ! i))"

text \<open>C10. Splicing keeps the byte streams: for any number of relays in a row, however the goroutines, the two
  ends and connection losses are interleaved, what the destination has received is a prefix of what the application
  sent and conversely, so nothing is lost in between, duplicated, reordered or mixed up with the other
  direction; and when the copiers of a direction are at rest and none of its connections was lost or
  closed by a reader, everything that was sent is in the last connection.\<close>

theorem relays_keep_order:
  assumes "chain_run n s"
  shows "prefix (received n (forward s)) (sent (forward s)) \<and> prefix (received n (backward s)) (sent (backward s))
    \<and> (lossless n (forward s) \<and> (\<nexists>f. copy_step (forward s) f) \<longrightarrow> hist (pipes (forward s) ! n) = sent (forward s))
    \<and> (lossless n (backward s) \<and> (\<nexists>f. copy_step (backward s) f) \<longrightarrow> hist (pipes (backward s) ! n) = sent (backward s))"
proof -
  have ok: "flow_ok n (forward s)" "flow_ok n (backward s)"
    using chain_run_ok [OF assms] by (simp_all add: chain_ok_def)
  have "prefix (received n f) (sent f)" if "flow_ok n f" for f
    unfolding received_def sent_def
    using take_is_prefix flow_prefix [OF that, of n] by (blast intro: prefix_order.order_trans)
  then show ?thesis
    using ok at_rest_moved [OF ok(1), of n] at_rest_moved [OF ok(2), of n] by (simp add: lossless_def sent_def)
qed

theorem relays_keep_order_witness:
  "received 2 (forward stuck_chain) = [1] \<and> prefix (received 2 (backward stuck_chain)) [2]"
  using relays_keep_order [OF stuck_reachable]
  by (simp add: stuck_chain_def done_flow_def received_def sent_def)

text \<open>C11. Two relays in a row, which is every tunnel of the \<^verbatim>\<open>socks5\<close> and \<^verbatim>\<open>tunnel\<close> commands, do not end with
  the conversation: in every run in which no connection is lost and neither end has closed its receiving
  direction, even when both have closed their sending directions, no relay closes anything, so neither end ever sees
  the other's end of file. And closing completely need not help: there is a run in which a request and its
  answer have arrived, both ends have closed their connections altogether, and no relay can take a step any
  more, each waiting for the other with both its connections open.\<close>

theorem relays_wait_forever:
  assumes "chain_run n s" "2 \<le> n" "intact n s"
  shows "(\<forall>i < n. phases s ! i = Relaying) \<and> \<not> fin (pipes (forward s) ! n) \<and> \<not> fin (pipes (backward s) ! n)
    \<and> (\<exists>t. chain_run 2 t \<and> phases t = [Relaying, Relaying] \<and> (\<nexists>u. relay_step t u)
        \<and> sent (forward t) \<noteq> [] \<and> received 2 (forward t) = sent (forward t)
        \<and> sent (backward t) \<noteq> [] \<and> received 2 (backward t) = sent (backward t)
        \<and> fin (pipes (forward t) ! 0) \<and> dead (pipes (backward t) ! 2)
        \<and> fin (pipes (backward t) ! 0) \<and> dead (pipes (forward t) ! 2))"
proof -
  have "\<exists>t. chain_run 2 t \<and> phases t = [Relaying, Relaying] \<and> (\<nexists>u. relay_step t u)
        \<and> sent (forward t) \<noteq> [] \<and> received 2 (forward t) = sent (forward t)
        \<and> sent (backward t) \<noteq> [] \<and> received 2 (backward t) = sent (backward t)
        \<and> fin (pipes (forward t) ! 0) \<and> dead (pipes (backward t) ! 2)
        \<and> fin (pipes (backward t) ! 0) \<and> dead (pipes (forward t) ! 2)"
    using stuck_reachable stuck_no_step
    by (intro exI [of _ stuck_chain]) (simp add: stuck_chain_def done_flow_def sent_def received_def)
  then show ?thesis
    using all_relaying_run [OF assms] assms(2) by (simp add: all_relaying_def kept_open_def)
qed

theorem relays_wait_forever_witness:
  "\<exists>s. chain_run 2 s \<and> fin (pipes (forward s) ! 0) \<and> phases s ! 1 = Relaying \<and> \<not> fin (pipes (backward s) ! 2)"
proof -
  let ?s = "new_chain 2\<lparr>forward := upd_pipe 0 (\<lambda>p. p\<lparr>fin := True\<rparr>) (forward (new_chain 2))\<rparr>"
  have run: "chain_run 2 ?s"
    by (rule chain_run.ends [OF chain_run.start app_shut])
  have "intact 2 ?s"
    by (auto simp: intact_def new_chain_def new_flow_def new_pipe_def nth_append nth_upd simp del: replicate_Suc)
  from relays_wait_forever [OF run _ this] show ?thesis
    using run by (intro exI [of _ ?s]) (simp add: new_chain_def new_flow_def)
qed

text \<open>C12. One relay, the tunnel server with a client that speaks the protocol itself, ends: from every state the relays take at most
  \<open>chain_weight\<close> steps on their own, whatever the order; and when both ends have closed their sending
  directions, no connection was lost and neither end closed the other direction, the relay stops only with both its
  connections closed and all bytes passed on, which is what the sequential \<open>handleConnect\<close> says of the same two streams.\<close>

theorem relay_finishes:
  assumes "chain_run n s"
  shows "(\<forall>k t. (relay_step ^^ k) s t \<longrightarrow> k \<le> chain_weight n s)
    \<and> (n = 1 \<and> intact 1 s \<and> fin (pipes (forward s) ! 0) \<and> fin (pipes (backward s) ! 0) \<and> (\<nexists>t. relay_step s t) \<longrightarrow>
        phases s = [BothClosed] \<and> fin (pipes (forward s) ! 1) \<and> fin (pipes (backward s) ! 1)
      \<and> hist (pipes (forward s) ! 1) = sent (forward s) \<and> hist (pipes (backward s) ! 1) = sent (backward s)
      \<and> (\<forall>ts up h. dial (Destination h) = Inr up \<and> conn_content (rx ts) = sent (forward s) \<and> conn_content (rx up) = sent (backward s)
            \<and> snd (tx ts) = None \<and> snd (tx up) = None \<longrightarrow>
          (\<exists>u d. handleConnect seg_read peer_write dial ts h = Some [Dial (Destination h), Splice u d, CloseUpstream]
             \<and> fst u = fst (tx up) @ hist (pipes (forward s) ! 1) \<and> fst d = fst (tx ts) @ hist (pipes (backward s) ! 1))))"
proof (intro conjI impI)
  have "(relay_step ^^ k) s t \<Longrightarrow> chain_ok n t \<and> chain_weight n t + k \<le> chain_weight n s" for k t
  proof (induction k arbitrary: t)
    case (Suc k)
    then obtain u where "(relay_step ^^ k) s u" "relay_step u t"
      by auto
    then show ?case
      using Suc.IH [of u] relay_step_ok relay_step_weight [of u t n] by fastforce
  qed (use chain_run_ok [OF assms] in simp)
  then show "\<forall>k t. (relay_step ^^ k) s t \<longrightarrow> k \<le> chain_weight n s"
    using add_leD2 by blast
next
  assume "n = 1 \<and> intact 1 s \<and> fin (pipes (forward s) ! 0) \<and> fin (pipes (backward s) ! 0) \<and> (\<nexists>t. relay_step s t)"
  then have n: "n = 1" "intact 1 s" "fin (pipes (forward s) ! 0)" "fin (pipes (backward s) ! 0)" "\<nexists>t. relay_step s t"
    by simp_all
  note at_end = single_relay_end [OF chain_run_ok [OF assms [unfolded n(1)]] n(2-)]
  then show "phases s = [BothClosed]" "fin (pipes (forward s) ! 1)" "fin (pipes (backward s) ! 1)"
    "hist (pipes (forward s) ! 1) = sent (forward s)" "hist (pipes (backward s) ! 1) = sent (backward s)"
    by (simp_all add: sent_def)
  show "\<forall>ts up h. dial (Destination h) = Inr up \<and> conn_content (rx ts) = sent (forward s) \<and> conn_content (rx up) = sent (backward s)
            \<and> snd (tx ts) = None \<and> snd (tx up) = None \<longrightarrow>
          (\<exists>u d. handleConnect seg_read peer_write dial ts h = Some [Dial (Destination h), Splice u d, CloseUpstream]
             \<and> fst u = fst (tx up) @ hist (pipes (forward s) ! 1) \<and> fst d = fst (tx ts) @ hist (pipes (backward s) ! 1))"
  proof (intro allI impI)
    fix ts :: "(conn, peer) tstream" and up h
    assume "dial (Destination h) = Inr up \<and> conn_content (rx ts) = sent (forward s) \<and> conn_content (rx up) = sent (backward s)
      \<and> snd (tx ts) = None \<and> snd (tx up) = None"
    then show "\<exists>u d. handleConnect seg_read peer_write dial ts h = Some [Dial (Destination h), Splice u d, CloseUpstream]
        \<and> fst u = fst (tx up) @ hist (pipes (forward s) ! 1) \<and> fst d = fst (tx ts) @ hist (pipes (backward s) ! 1)"
      using at_end handleConnect_outcome [of dial h ts] by (auto simp: delivered_def sent_def)
  qed
qed

definition finished_chain :: chain where
  "finished_chain = \<lparr>forward = \<lparr>pipes = [pipe_of [] 0 True False, pipe_of [] 0 True False], copiers = [Returned]\<rparr>,
     backward = \<lparr>pipes = [pipe_of [] 0 True False, pipe_of [] 0 True False], copiers = [Returned]\<rparr>, phases = [BothClosed]\<rparr>"

lemma finished_run: "chain_run 1 finished_chain"
proof -
  let ?fl = "\<lambda>a b c. \<lparr>pipes = [pipe_of [] 0 a False, pipe_of [] 0 b False], copiers = [c]\<rparr>"
  let ?s = "\<lambda>f g p. \<lparr>forward = f, backward = g, phases = [p]\<rparr>"
  have "new_chain 1 = ?s (?fl False False AtRead) (?fl False False AtRead) Relaying"
    by (simp add: new_chain_def new_flow_def new_pipe_of)
  then have "chain_run 1 (?s (?fl True False AtRead) (?fl True False AtRead) Relaying)"
    using chain_run.ends [OF chain_run.ends [OF chain_run.start [of 1] app_shut] dest_shut] by simp
  from chain_run.relay [OF chain_run.relay [OF this relay_step.copy_forward [OF take_end [of 0]]] relay_step.copy_backward [OF take_end [of 0]]]
  have "chain_run 1 (?s (?fl True False Returned) (?fl True False Returned) Relaying)"
    by simp
  from chain_run.relay [OF chain_run.relay [OF this close_first [of 1 _ 0 False]] close_second [of 1 _ 0 False]]
  show ?thesis
    by (simp add: finished_chain_def)
qed

lemma finished_no_step: "\<not> relay_step finished_chain t"
proof
  have none: "\<not> copy_step \<lparr>pipes = [pipe_of [] 0 True False, pipe_of [] 0 True False], copiers = [Returned]\<rparr> f" for f
    by (auto elim!: copy_step.cases)
  assume "relay_step finished_chain t"
  then show False
    by (cases rule: relay_step.cases) (use none in \<open>auto simp: finished_chain_def\<close>)
qed

theorem relay_finishes_witness:
  "(\<nexists>t. (relay_step ^^ Suc (chain_weight 1 finished_chain)) finished_chain t)
    \<and> phases finished_chain = [BothClosed] \<and> hist (pipes (forward finished_chain) ! 1) = sent (forward finished_chain)"
proof -
  have i: "intact 1 finished_chain" "fin (pipes (forward finished_chain) ! 0)" "fin (pipes (backward finished_chain) ! 0)"
    by (auto simp: intact_def finished_chain_def less_Suc_eq le_Suc_eq)
  have "\<nexists>t. (relay_step ^^ Suc (chain_weight 1 finished_chain)) finished_chain t"
    using relay_finishes [OF finished_run] not_less_eq_eq by blast
  then show ?thesis
    using relay_finishes [OF finished_run] i finished_no_step by simp
qed

end
