(* ===== verification/Listener.thy ===== *)
theory Listener
  imports Main
begin

text \<open>
  The listeners: \<^verbatim>\<open>CompositeListener\<close> and the accept loop \<^verbatim>\<open>Serve\<close> of \<^verbatim>\<open>pkg/tunnel/server.go\<close>, and the
  \<^verbatim>\<open>Close\<close> methods of the transports.

  \<open>comp_step\<close> is one step of a composite listener over \<open>n\<close> listeners: a goroutine per listener (a
  \<open>pump\<close>) that accepts and then sends to the buffered channel \<^verbatim>\<open>out\<close> or sees \<^verbatim>\<open>done\<close>; calls of
  \<^verbatim>\<open>Accept\<close> that take from the channel; \<^verbatim>\<open>Close\<close>. Every interleaving of these is a run. Items are
  tagged with the listener they come from; \<open>produced\<close> and \<open>delivered\<close> record what the listeners
  returned and what \<^verbatim>\<open>Accept\<close> handed out.
\<close>

datatype accept_err = Canceled | DeadlineExceeded | ErrClosed | OtherErr string

datatype item = Stream nat | Failed accept_err

text \<open>A pump that saw \<^verbatim>\<open>done\<close> while it had an item keeps it in \<open>Stopped\<close>: nobody closes that stream.\<close>

datatype pump = Accepting | Sending item | Stopped "item option"

record comp_state =
  pumps :: "pump list"
  queue :: "(nat \<times> item) list"
  done_closed :: bool
  produced :: "(nat \<times> item) list"
  delivered :: "(nat \<times> item) list"

definition NewComposite :: "nat \<Rightarrow> comp_state" where
  "NewComposite n = \<lparr>pumps = replicate n Accepting, queue = [], done_closed = False, produced = [], delivered = []\<rparr>"

definition after_send :: "item \<Rightarrow> pump" where
  "after_send x = (case x of Stream _ \<Rightarrow> Accepting | Failed _ \<Rightarrow> Stopped None)"

inductive comp_step :: "comp_state \<Rightarrow> comp_state \<Rightarrow> bool" where
  ln_accept: "i < length (pumps s) \<Longrightarrow> pumps s ! i = Accepting \<Longrightarrow>
     comp_step s (s\<lparr>pumps := (pumps s)[i := Sending x], produced := produced s @ [(i, x)]\<rparr>)"
| send: "i < length (pumps s) \<Longrightarrow> pumps s ! i = Sending x \<Longrightarrow> length (queue s) < length (pumps s) * 4 \<Longrightarrow>
     comp_step s (s\<lparr>pumps := (pumps s)[i := after_send x], queue := queue s @ [(i, x)]\<rparr>)"
| stop: "i < length (pumps s) \<Longrightarrow> pumps s ! i = Sending x \<Longrightarrow> done_closed s \<Longrightarrow>
     comp_step s (s\<lparr>pumps := (pumps s)[i := Stopped (Some x)]\<rparr>)"
| accept: "queue s = x # q \<Longrightarrow> comp_step s (s\<lparr>queue := q, delivered := delivered s @ [x]\<rparr>)"
| close: "comp_step s (s\<lparr>done_closed := True\<rparr>)"

inductive comp_reachable :: "nat \<Rightarrow> comp_state \<Rightarrow> bool" for n where
  initial: "comp_reachable n (NewComposite n)"
| step: "comp_reachable n s \<Longrightarrow> comp_step s t \<Longrightarrow> comp_reachable n t"

inductive_cases comp_stepE: "comp_step s t"

text \<open>What \<^verbatim>\<open>Accept\<close> may return in a state: the next item, the context's error, or \<^verbatim>\<open>net.ErrClosed\<close>.\<close>

definition accept_returns :: "comp_state \<Rightarrow> accept_err option \<Rightarrow> item \<Rightarrow> bool" where
  "accept_returns s ctx_err r \<longleftrightarrow>
     (\<exists>i q. queue s = (i, r) # q) \<or> (\<exists>e. ctx_err = Some e \<and> r = Failed e) \<or> (done_closed s \<and> r = Failed ErrClosed)"

text \<open>\<^verbatim>\<open>Close\<close> closes every listener and gives the first error.\<close>

definition close_all :: "string option list \<Rightarrow> string option" where
  "close_all results = foldl (\<lambda>first r. if r \<noteq> None \<and> first = None then r else first) None results"

subsection \<open>The accept loop\<close>

text \<open>The results of successive \<^verbatim>\<open>Accept\<close> calls; the value is the streams whose handlers were started and,
  once the loop has returned, the error it returned (\<open>Some None\<close> for \<^verbatim>\<open>nil\<close>).\<close>

fun Serve :: "item list \<Rightarrow> nat list \<times> accept_err option option" where
  "Serve [] = ([], None)"
| "Serve (Stream ts # rs) = (case Serve rs of (hs, r) \<Rightarrow> (ts # hs, r))"
| "Serve (Failed e # rs) =
     ([], Some (if e = Canceled \<or> e = DeadlineExceeded then None
                else if e = ErrClosed then None
                else Some e))"

subsection \<open>The invariant of the composite listener\<close>

definition from_ln :: "nat \<Rightarrow> (nat \<times> item) list \<Rightarrow> item list" where
  "from_ln i xs = map snd (filter (\<lambda>x. fst x = i) xs)"

lemma from_ln_simps [simp]:
  "from_ln i [] = []" "from_ln i (xs @ ys) = from_ln i xs @ from_ln i ys"
  "from_ln i ((j, x) # xs) = (if j = i then x # from_ln i xs else from_ln i xs)"
  by (simp_all add: from_ln_def)

definition held :: "pump \<Rightarrow> item list" where
  "held p = (case p of Accepting \<Rightarrow> [] | Sending x \<Rightarrow> [x] | Stopped None \<Rightarrow> [] | Stopped (Some x) \<Rightarrow> [x])"

lemma held_simps [simp]:
  "held Accepting = []" "held (Sending x) = [x]" "held (Stopped None) = []" "held (Stopped (Some x)) = [x]"
  "held (after_send x) = []"
  by (simp_all add: held_def after_send_def split: item.split)

definition comp_inv :: "nat \<Rightarrow> comp_state \<Rightarrow> bool" where
  "comp_inv n s \<longleftrightarrow> length (pumps s) = n \<and> length (queue s) \<le> n * 4
     \<and> (\<forall>i < n. from_ln i (produced s) = from_ln i (delivered s) @ from_ln i (queue s) @ held (pumps s ! i))
     \<and> (\<forall>i x. i < n \<and> pumps s ! i = Stopped (Some x) \<longrightarrow> done_closed s)
     \<and> (\<forall>i < n. list_all (\<lambda>x. \<exists>k. x = Stream k) (butlast (from_ln i (produced s))))
     \<and> (\<forall>i < n. pumps s ! i = Accepting \<longrightarrow> list_all (\<lambda>x. \<exists>k. x = Stream k) (from_ln i (produced s)))"

lemma list_all_butlast: "list_all P xs \<Longrightarrow> list_all P (butlast xs)"
  by (auto simp: list_all_iff dest: in_set_butlastD)

lemma comp_inv_step:
  assumes "comp_step s t" "comp_inv n s"
  shows "comp_inv n t"
  using assms
proof (cases rule: comp_step.cases)
  case (ln_accept i x)
  then show ?thesis
    using assms(2) by (auto simp: comp_inv_def nth_list_update list_all_butlast butlast_append)
next
  case (send i x)
  have "from_ln i (produced s) = from_ln i (delivered s) @ from_ln i (queue s) @ [x]"
    and all: "list_all (\<lambda>x. \<exists>k. x = Stream k) (butlast (from_ln i (produced s)))"
    using send assms(2) by (auto simp: comp_inv_def)
  then have "list_all (\<lambda>x. \<exists>k. x = Stream k) (from_ln i (delivered s) @ from_ln i (queue s))"
    by (simp add: butlast_append)
  then show ?thesis
    using send assms(2)
    by (auto simp: comp_inv_def nth_list_update after_send_def split: item.splits)
next
  case (stop i x)
  then show ?thesis
    using assms(2) by (auto simp: comp_inv_def nth_list_update)
next
  case (accept x q)
  then show ?thesis
    using assms(2) by (cases x) (auto simp: comp_inv_def)
next
  case close
  then show ?thesis
    using assms(2) by (auto simp: comp_inv_def)
qed

lemma comp_inv_reachable: "comp_reachable n s \<Longrightarrow> comp_inv n s"
proof (induction rule: comp_reachable.induct)
  case initial
  then show ?case
    by (simp add: comp_inv_def NewComposite_def)
next
  case (step s t)
  then show ?case
    using comp_inv_step by blast
qed

lemma comp_tags: "comp_reachable n s \<Longrightarrow> \<forall>x \<in> set (queue s) \<union> set (delivered s). fst x < n"
proof (induction rule: comp_reachable.induct)
  case initial
  then show ?case
    by (simp add: NewComposite_def)
next
  case (step s t)
  have "length (pumps s) = n"
    using comp_inv_reachable [OF step.hyps(1)] by (simp add: comp_inv_def)
  then show ?case
    using step.hyps(2) step.IH by (auto elim!: comp_step.cases)
qed

subsection \<open>Closing a transport\<close>

text \<open>
  \<^verbatim>\<open>Close\<close> of the QUIC and the TCP server looks whether \<^verbatim>\<open>done\<close> is closed and closes it if not, in two
  steps; closing a closed channel panics. The SMUX and WebSocket servers and the composite listener
  do both at once with a \<^verbatim>\<open>sync.Once\<close>. A closer is a call of \<^verbatim>\<open>Close\<close>.
\<close>

datatype closer = Start | MustClose | Finished | Panicked

record close_state =
  closers :: "closer list"
  is_done :: bool

inductive check_close_step :: "close_state \<Rightarrow> close_state \<Rightarrow> bool" where
  see_open: "i < length (closers s) \<Longrightarrow> closers s ! i = Start \<Longrightarrow> \<not> is_done s \<Longrightarrow>
     check_close_step s (s\<lparr>closers := (closers s)[i := MustClose]\<rparr>)"
| see_closed: "i < length (closers s) \<Longrightarrow> closers s ! i = Start \<Longrightarrow> is_done s \<Longrightarrow>
     check_close_step s (s\<lparr>closers := (closers s)[i := Finished]\<rparr>)"
| do_close: "i < length (closers s) \<Longrightarrow> closers s ! i = MustClose \<Longrightarrow>
     check_close_step s (s\<lparr>closers := (closers s)[i := if is_done s then Panicked else Finished], is_done := True\<rparr>)"

inductive once_close_step :: "close_state \<Rightarrow> close_state \<Rightarrow> bool" where
  once: "i < length (closers s) \<Longrightarrow> closers s ! i = Start \<Longrightarrow>
     once_close_step s (s\<lparr>closers := (closers s)[i := Finished], is_done := True\<rparr>)"

definition start_close :: "nat \<Rightarrow> close_state" where
  "start_close n = \<lparr>closers = replicate n Start, is_done = False\<rparr>"

lemma once_never_panics:
  "once_close_step\<^sup>*\<^sup>* (start_close n) s \<Longrightarrow> Panicked \<notin> set (closers s)"
proof (induction rule: rtranclp_induct)
  case base
  then show ?case
    by (simp add: start_close_def)
next
  case (step s t)
  then show ?case
    by (auto elim!: once_close_step.cases dest!: set_update_subset_insert [THEN subsetD])
qed

text \<open>At most one closer has seen the channel open, as long as only one of them runs.\<close>

lemma single_closer_inv:
  "check_close_step\<^sup>*\<^sup>* (start_close 1) s \<Longrightarrow>
     length (closers s) = 1 \<and> Panicked \<notin> set (closers s) \<and> (closers s ! 0 \<in> {Start, MustClose} \<longrightarrow> \<not> is_done s)"
proof (induction rule: rtranclp_induct)
  case base
  then show ?case
    by (simp add: start_close_def)
next
  case (step s t)
  then show ?case
    by (auto elim!: check_close_step.cases simp: length_Suc_conv)
qed

subsection \<open>Properties\<close>

text \<open>Fan-in without loss, duplication or reordering: in every run, whatever the interleaving, the
  items of one listener come out of \<open>Accept\<close> in the order in which it produced them, each at most
  once; what has not come out is in the channel or with the goroutine; the channel never exceeds
  its capacity; an item is given up only after \<open>Close\<close>; and an error is the last thing a listener
  contributes.\<close>

theorem composite_fan_in:
  assumes "comp_reachable n s" and "i < n"
  shows "from_ln i (produced s) = from_ln i (delivered s) @ from_ln i (queue s) @ held (pumps s ! i)
     \<and> length (queue s) \<le> 4 * n
     \<and> (\<not> done_closed s \<longrightarrow> (\<forall>x. pumps s ! i \<noteq> Stopped (Some x)))
     \<and> list_all (\<lambda>x. \<exists>k. x = Stream k) (butlast (from_ln i (produced s)))"
  using comp_inv_reachable [OF assms(1)] assms(2) by (auto simp: comp_inv_def mult.commute)

text \<open>Two listeners; the first accepts a stream and the composite listener is closed before it is sent.\<close>

definition leak_state :: comp_state where
  "leak_state = \<lparr>pumps = [Stopped (Some (Stream 7)), Accepting], queue = [], done_closed = True,
     produced = [(0, Stream 7)], delivered = []\<rparr>"

lemma leak_reachable: "comp_reachable 2 leak_state"
proof -
  let ?s0 = "NewComposite 2"
  let ?s1 = "?s0\<lparr>pumps := (pumps ?s0)[0 := Sending (Stream 7)], produced := produced ?s0 @ [(0, Stream 7)]\<rparr>"
  let ?s2 = "?s1\<lparr>done_closed := True\<rparr>"
  let ?s3 = "?s2\<lparr>pumps := (pumps ?s2)[0 := Stopped (Some (Stream 7))]\<rparr>"
  have "comp_step ?s0 ?s1"
    by (rule comp_step.ln_accept) (simp_all add: NewComposite_def)
  moreover have "comp_step ?s1 ?s2"
    by (rule comp_step.close)
  moreover have "comp_step ?s2 ?s3"
    by (rule comp_step.stop) (simp_all add: NewComposite_def)
  ultimately have "comp_reachable 2 ?s3"
    by (meson comp_reachable.intros)
  then show ?thesis
    by (simp add: leak_state_def NewComposite_def numeral_2_eq_2)
qed

theorem composite_fan_in_witness:
  "from_ln 0 (produced leak_state) = held (pumps leak_state ! 0) \<and> done_closed leak_state"
  using composite_fan_in [OF leak_reachable, of 0] by (simp add: leak_state_def)

text \<open>Closing: with \<open>sync.Once\<close> no number of concurrent \<open>Close\<close> calls panics; the check-then-close
  of the QUIC and TCP servers is safe for one call at a time, but two concurrent calls can both see
  the channel open, and then the second one panics.\<close>

theorem close_race:
  "(once_close_step\<^sup>*\<^sup>* (start_close n) s \<longrightarrow> Panicked \<notin> set (closers s))
   \<and> (check_close_step\<^sup>*\<^sup>* (start_close 1) s \<longrightarrow> Panicked \<notin> set (closers s))
   \<and> (\<exists>t. check_close_step\<^sup>*\<^sup>* (start_close 2) t \<and> Panicked \<in> set (closers t))"
proof (intro conjI impI)
  show "once_close_step\<^sup>*\<^sup>* (start_close n) s \<Longrightarrow> Panicked \<notin> set (closers s)"
    by (rule once_never_panics)
  show "check_close_step\<^sup>*\<^sup>* (start_close 1) s \<Longrightarrow> Panicked \<notin> set (closers s)"
    using single_closer_inv by blast
  let ?s0 = "\<lparr>closers = [Start, Start], is_done = False\<rparr>"
  let ?s1 = "\<lparr>closers = [MustClose, Start], is_done = False\<rparr>"
  let ?s2 = "\<lparr>closers = [MustClose, MustClose], is_done = False\<rparr>"
  let ?s3 = "\<lparr>closers = [Finished, MustClose], is_done = True\<rparr>"
  let ?s4 = "\<lparr>closers = [Finished, Panicked], is_done = True\<rparr>"
  have "check_close_step ?s0 ?s1" "check_close_step ?s1 ?s2" "check_close_step ?s2 ?s3" "check_close_step ?s3 ?s4"
    using see_open [of 0 ?s0] see_open [of 1 ?s1] do_close [of 0 ?s2] do_close [of 1 ?s3] by simp_all
  then have "check_close_step\<^sup>*\<^sup>* ?s0 ?s4"
    by (meson converse_rtranclp_into_rtranclp rtranclp.rtrancl_refl)
  moreover have "?s0 = start_close 2"
    by (simp add: start_close_def numeral_2_eq_2)
  moreover have "Panicked \<in> set (closers ?s4)"
    by simp
  ultimately show "\<exists>t. check_close_step\<^sup>*\<^sup>* (start_close 2) t \<and> Panicked \<in> set (closers t)"
    by metis
qed

theorem close_race_witness:
  "Panicked \<notin> set (closers \<lparr>closers = [Finished, Start], is_done = True\<rparr>)"
proof -
  have "once_close_step (start_close 2) \<lparr>closers = [Finished, Start], is_done = True\<rparr>"
    using once [of 0 "start_close 2"] by (simp add: start_close_def numeral_2_eq_2)
  then show ?thesis
    using close_race [of 2 "\<lparr>closers = [Finished, Start], is_done = True\<rparr>"] by blast
qed

text \<open>The accept loop starts a handler for every stream up to the first error, in order, and for none
  after it; it returns \<open>nil\<close> exactly when that error says that the context is done or the listener
  closed, and otherwise the error itself.\<close>

theorem Serve_handles:
  assumes "list_all (\<lambda>x. \<exists>k. x = Stream k) xs"
  shows "Serve (xs @ Failed e # rest) = (map (\<lambda>x. case x of Stream k \<Rightarrow> k) xs,
     Some (if e \<in> {Canceled, DeadlineExceeded, ErrClosed} then None else Some e))
     \<and> Serve xs = (map (\<lambda>x. case x of Stream k \<Rightarrow> k) xs, None)"
  using assms
proof (induction xs)
  case (Cons x xs)
  then show ?case
    by (cases x) auto
qed simp

theorem Serve_handles_witness:
  "Serve [Stream 1, Stream 2, Failed (OtherErr ''e''), Stream 3] = ([1, 2], Some (Some (OtherErr ''e'')))"
  using Serve_handles [of "[Stream 1, Stream 2]" "OtherErr ''e''" "[Stream 3]"] by simp

end
