(* ===== verification/Queue.thy ===== *)
theory Queue
  imports Listener "HOL-Library.Multiset"
begin

text \<open>
  The accept queue that each transport server has between its handlers and \<^verbatim>\<open>Accept\<close>: a channel \<^verbatim>\<open>out\<close> of
  bounded capacity (32 in the QUIC, TCP and WebSocket servers, 64 in the SMUX server) and the channel
  \<^verbatim>\<open>done\<close> that \<^verbatim>\<open>Close\<close> closes. A handler with an authenticated stream waits in a \<^verbatim>\<open>select\<close> until the queue
  takes the stream or the server is closed, and then closes the stream itself; \<^verbatim>\<open>Accept\<close> takes the oldest
  stream, or reports the context's error or the closed server. Every interleaving of these is a run.
\<close>

record 'st queue_state =
  arrived :: "'st list"
  waiting :: "'st list"
  out :: "'st list"
  is_closed :: bool
  handed :: "'st list"
  shut :: "'st list"

definition new_queue :: "'st queue_state" where
  "new_queue = \<lparr>arrived = [], waiting = [], out = [], is_closed = False, handed = [], shut = []\<rparr>"

definition quic_capacity :: nat where "quic_capacity = 32"
definition tcp_capacity :: nat where "tcp_capacity = 32"
definition ws_capacity :: nat where "ws_capacity = 32"
definition smux_capacity :: nat where "smux_capacity = 64"

definition remove_at :: "nat \<Rightarrow> 'a list \<Rightarrow> 'a list" where
  "remove_at i xs = take i xs @ drop (Suc i) xs"

inductive queue_step :: "nat \<Rightarrow> 'st queue_state \<Rightarrow> 'st queue_state \<Rightarrow> bool" for cap where
  arrive: "queue_step cap s (s\<lparr>arrived := arrived s @ [x], waiting := waiting s @ [x]\<rparr>)"
| enqueue: "i < length (waiting s) \<Longrightarrow> length (out s) < cap \<Longrightarrow>
    queue_step cap s (s\<lparr>waiting := remove_at i (waiting s), out := out s @ [waiting s ! i]\<rparr>)"
| give_up: "i < length (waiting s) \<Longrightarrow> is_closed s \<Longrightarrow>
    queue_step cap s (s\<lparr>waiting := remove_at i (waiting s), shut := shut s @ [waiting s ! i]\<rparr>)"
| take_out: "out s = x # q \<Longrightarrow> queue_step cap s (s\<lparr>out := q, handed := handed s @ [x]\<rparr>)"
| close: "queue_step cap s (s\<lparr>is_closed := True\<rparr>)"

inductive queue_run :: "nat \<Rightarrow> 'st queue_state \<Rightarrow> bool" for cap where
  start: "queue_run cap new_queue"
| step: "queue_run cap s \<Longrightarrow> queue_step cap s t \<Longrightarrow> queue_run cap t"

inductive_simps queue_step_iff: "queue_step cap s t"

text \<open>What a call of \<^verbatim>\<open>Accept\<close> may return.\<close>

definition Accept_returns :: "'st queue_state \<Rightarrow> accept_err option \<Rightarrow> accept_err + 'st \<Rightarrow> bool" where
  "Accept_returns s ctx r \<longleftrightarrow>
     (\<exists>x q. out s = x # q \<and> r = Inr x) \<or> (\<exists>e. ctx = Some e \<and> r = Inl e) \<or> (is_closed s \<and> r = Inl ErrClosed)"

lemma mset_remove_at: "i < length xs \<Longrightarrow> add_mset (xs ! i) (mset (remove_at i xs)) = mset xs"
proof -
  assume "i < length xs"
  then have "xs = take i xs @ xs ! i # drop (Suc i) xs"
    by (rule id_take_nth_drop)
  then have "mset xs = mset (take i xs) + add_mset (xs ! i) (mset (drop (Suc i) xs))"
    by (metis mset.simps(2) mset_append)
  then show ?thesis
    by (simp add: remove_at_def)
qed

definition queue_inv :: "nat \<Rightarrow> 'st queue_state \<Rightarrow> bool" where
  "queue_inv cap s \<longleftrightarrow> mset (arrived s) = mset (waiting s) + mset (out s) + mset (handed s) + mset (shut s)
     \<and> length (out s) \<le> cap \<and> (is_closed s \<or> shut s = [])"

lemma queue_inv_step: "queue_step cap s t \<Longrightarrow> queue_inv cap s \<Longrightarrow> queue_inv cap t"
proof (induction rule: queue_step.induct)
  case (enqueue i s)
  then show ?case
    using mset_remove_at [OF enqueue.hyps(1)] by (simp add: queue_inv_def)
next
  case (give_up i s)
  then show ?case
    using mset_remove_at [OF give_up.hyps(1)] by (simp add: queue_inv_def)
qed (auto simp: queue_inv_def)

lemma queue_inv_run: "queue_run cap s \<Longrightarrow> queue_inv cap s"
proof (induction rule: queue_run.induct)
  case start
  then show ?case
    by (simp add: queue_inv_def new_queue_def)
qed (rule queue_inv_step)

subsection \<open>Properties\<close>

text \<open>C29. The accept queue of a transport server, in every interleaving of handlers, \<^verbatim>\<open>Accept\<close> and \<^verbatim>\<open>Close\<close>: every
  authenticated stream is in exactly one place (held by its handler, queued, handed to the tunnel, or closed
  by its handler), the queue keeps within its capacity, no stream is closed before \<^verbatim>\<open>Close\<close>; a handler is
  stuck only while the queue is full and the server open; a waiting \<^verbatim>\<open>Accept\<close> returns once there is a
  stream, the context has ended, or the server is closed, and hands out only the oldest queued stream.\<close>

theorem queue_conserves:
  assumes "queue_run cap s"
  shows "mset (arrived s) = mset (waiting s) + mset (out s) + mset (handed s) + mset (shut s)
    \<and> length (out s) \<le> cap \<and> (is_closed s \<or> shut s = [])
    \<and> ((\<exists>t. queue_step cap s t \<and> arrived t = arrived s \<and> length (waiting t) < length (waiting s))
        \<longleftrightarrow> waiting s \<noteq> [] \<and> (length (out s) < cap \<or> is_closed s))
    \<and> ((\<exists>r. Accept_returns s ctx r) \<longleftrightarrow> out s \<noteq> [] \<or> ctx \<noteq> None \<or> is_closed s)
    \<and> (\<forall>x. Accept_returns s ctx (Inr x) \<longleftrightarrow> (\<exists>q. out s = x # q))"
proof -
  have "\<exists>t. queue_step cap s t \<and> arrived t = arrived s \<and> length (waiting t) < length (waiting s)"
    if w: "waiting s \<noteq> []" "length (out s) < cap \<or> is_closed s"
  proof -
    have first: "0 < length (waiting s)"
      using w(1) by simp
    then have shorter: "length (remove_at 0 (waiting s)) < length (waiting s)"
      by (simp add: remove_at_def)
    from w(2) show ?thesis
    proof
      assume "length (out s) < cap"
      from enqueue [OF first this] shorter show ?thesis
        by (intro exI [of _ "s\<lparr>waiting := remove_at 0 (waiting s), out := out s @ [waiting s ! 0]\<rparr>"]) simp
    next
      assume "is_closed s"
      from give_up [OF first this] shorter show ?thesis
        by (intro exI [of _ "s\<lparr>waiting := remove_at 0 (waiting s), shut := shut s @ [waiting s ! 0]\<rparr>"]) simp
    qed
  qed
  moreover have "waiting s \<noteq> [] \<and> (length (out s) < cap \<or> is_closed s)"
    if "queue_step cap s t" "arrived t = arrived s" "length (waiting t) < length (waiting s)" for t
    using that by (cases rule: queue_step.cases) auto
  ultimately have "(\<exists>t. queue_step cap s t \<and> arrived t = arrived s \<and> length (waiting t) < length (waiting s))
      \<longleftrightarrow> waiting s \<noteq> [] \<and> (length (out s) < cap \<or> is_closed s)"
    by blast
  moreover have "(\<exists>r. Accept_returns s ctx r) \<longleftrightarrow> out s \<noteq> [] \<or> ctx \<noteq> None \<or> is_closed s"
    by (auto simp: Accept_returns_def neq_Nil_conv)
  moreover have "\<forall>x. Accept_returns s ctx (Inr x) \<longleftrightarrow> (\<exists>q. out s = x # q)"
    by (auto simp: Accept_returns_def)
  ultimately show ?thesis
    using queue_inv_run [OF assms] by (simp add: queue_inv_def)
qed

text \<open>A stream that is still queued when the server is closed may stay there for ever: \<^verbatim>\<open>Accept\<close> may report the
  closed server, and nobody closes the stream.\<close>

definition stranded :: "nat queue_state" where
  "stranded = \<lparr>arrived = [7], waiting = [], out = [7], is_closed = True, handed = [], shut = []\<rparr>"

lemma stranded_run: "queue_run tcp_capacity stranded"
proof -
  note more = queue_run.step
  have "queue_run tcp_capacity (new_queue\<lparr>arrived := [7 :: nat], waiting := [7]\<rparr>)"
    using more [OF start arrive [of _ _ 7]] by (simp add: new_queue_def)
  from more [OF this enqueue [of 0]] have "queue_run tcp_capacity (new_queue\<lparr>arrived := [7 :: nat], out := [7]\<rparr>)"
    by (simp add: new_queue_def remove_at_def tcp_capacity_def)
  from more [OF this close] show ?thesis
    by (simp add: new_queue_def stranded_def)
qed

theorem queue_conserves_witness:
  "length (out stranded) \<le> 32 \<and> shut stranded = [] \<and> handed stranded = []
     \<and> (\<forall>x. Accept_returns stranded None (Inr x) \<longleftrightarrow> x = 7) \<and> Accept_returns stranded None (Inl ErrClosed)"
  using queue_conserves [OF stranded_run, of None]
  by (auto simp: stranded_def tcp_capacity_def Accept_returns_def)

end
