(* ===== verification/Pipeline.thy ===== *)
theory Pipeline
  imports Queue
begin

text \<open>
  The server that \<^verbatim>\<open>run\<close> starts (\<^verbatim>\<open>cmd/avangard-server/main.go\<close>) as one system: the accept queue of every
  transport (\<open>Queue\<close>), the goroutines and the channel of the composite listener (\<open>Listener\<close>), the accept loop of
  the tunnel server, and the goroutine that waits for a signal, cancels the context and closes the
  server. What a transport's \<^verbatim>\<open>Accept\<close> returns to its goroutine, and the composite's to \<^verbatim>\<open>Serve\<close>, is no
  longer an arbitrary item but what the component below gives. Streams are numbers.
\<close>

record server_state =
  transports :: "nat queue_state list"
  fan :: comp_state
  started :: "nat list"
  serve_end :: "accept_err option option"
  signalled :: bool

definition start_server :: "nat \<Rightarrow> server_state" where
  "start_server n = \<lparr>transports = replicate n new_queue, fan = NewComposite n, started = [], serve_end = None, signalled = False\<rparr>"

text \<open>The error that \<^verbatim>\<open>Serve\<close> returns for an error of \<^verbatim>\<open>Accept\<close>, as in \<open>Serve\<close>.\<close>

definition serve_result :: "accept_err \<Rightarrow> accept_err option" where
  "serve_result e = (if e = Canceled \<or> e = DeadlineExceeded then None else if e = ErrClosed then None else Some e)"

text \<open>\<open>caps\<close> are the capacities of the queues. The context of the goroutines is the background context, which never ends.\<close>

inductive server_step :: "nat list \<Rightarrow> server_state \<Rightarrow> server_state \<Rightarrow> bool" for caps where
  handler: "i < length (transports s) \<Longrightarrow> queue_step (caps ! i) (transports s ! i) q \<Longrightarrow>
    arrived q = arrived (transports s ! i) \<Longrightarrow> handed q = handed (transports s ! i) \<Longrightarrow> is_closed q = is_closed (transports s ! i) \<Longrightarrow>
    server_step caps s (s\<lparr>transports := (transports s)[i := q]\<rparr>)"
| pump_take: "i < length (transports s) \<Longrightarrow> pumps (fan s) ! i = Accepting \<Longrightarrow> out (transports s ! i) = x # q \<Longrightarrow>
    server_step caps s (s\<lparr>transports := (transports s)[i := (transports s ! i)\<lparr>out := q, handed := handed (transports s ! i) @ [x]\<rparr>],
      fan := (fan s)\<lparr>pumps := (pumps (fan s))[i := Sending (Stream x)], produced := produced (fan s) @ [(i, Stream x)]\<rparr>\<rparr>)"
| pump_closed: "i < length (transports s) \<Longrightarrow> pumps (fan s) ! i = Accepting \<Longrightarrow> is_closed (transports s ! i) \<Longrightarrow>
    server_step caps s (s\<lparr>fan := (fan s)\<lparr>pumps := (pumps (fan s))[i := Sending (Failed ErrClosed)],
      produced := produced (fan s) @ [(i, Failed ErrClosed)]\<rparr>\<rparr>)"
| pump_send: "i < length (pumps (fan s)) \<Longrightarrow> pumps (fan s) ! i = Sending x \<Longrightarrow>
    length (queue (fan s)) < length (pumps (fan s)) * 4 \<Longrightarrow>
    server_step caps s (s\<lparr>fan := (fan s)\<lparr>pumps := (pumps (fan s))[i := after_send x], queue := queue (fan s) @ [(i, x)]\<rparr>\<rparr>)"
| pump_stop: "i < length (pumps (fan s)) \<Longrightarrow> pumps (fan s) ! i = Sending x \<Longrightarrow> done_closed (fan s) \<Longrightarrow>
    server_step caps s (s\<lparr>fan := (fan s)\<lparr>pumps := (pumps (fan s))[i := Stopped (Some x)]\<rparr>\<rparr>)"
| serve_stream: "serve_end s = None \<Longrightarrow> queue (fan s) = (i, Stream x) # q \<Longrightarrow>
    server_step caps s (s\<lparr>fan := (fan s)\<lparr>queue := q, delivered := delivered (fan s) @ [(i, Stream x)]\<rparr>, started := started s @ [x]\<rparr>)"
| serve_failed: "serve_end s = None \<Longrightarrow> queue (fan s) = (i, Failed e) # q \<Longrightarrow>
    server_step caps s (s\<lparr>fan := (fan s)\<lparr>queue := q, delivered := delivered (fan s) @ [(i, Failed e)]\<rparr>,
      serve_end := Some (serve_result e)\<rparr>)"
| serve_cancelled: "serve_end s = None \<Longrightarrow> signalled s \<Longrightarrow> server_step caps s (s\<lparr>serve_end := Some (serve_result Canceled)\<rparr>)"
| serve_closed: "serve_end s = None \<Longrightarrow> done_closed (fan s) \<Longrightarrow> server_step caps s (s\<lparr>serve_end := Some (serve_result ErrClosed)\<rparr>)"
| close_composite: "signalled s \<Longrightarrow> server_step caps s (s\<lparr>fan := (fan s)\<lparr>done_closed := True\<rparr>\<rparr>)"
| close_transport: "i < length (transports s) \<Longrightarrow> done_closed (fan s) \<Longrightarrow>
    server_step caps s (s\<lparr>transports := (transports s)[i := (transports s ! i)\<lparr>is_closed := True\<rparr>]\<rparr>)"

text \<open>What comes from outside: an authenticated stream of a transport, and the signal.\<close>

inductive outside_step :: "server_state \<Rightarrow> server_state \<Rightarrow> bool" where
  stream_arrives: "i < length (transports s) \<Longrightarrow>
    outside_step s (s\<lparr>transports := (transports s)[i := (transports s ! i)\<lparr>arrived := arrived (transports s ! i) @ [x],
      waiting := waiting (transports s ! i) @ [x]\<rparr>]\<rparr>)"
| signal: "outside_step s (s\<lparr>signalled := True\<rparr>)"

inductive server_run :: "nat list \<Rightarrow> server_state \<Rightarrow> bool" for caps where
  start: "server_run caps (start_server (length caps))"
| inside: "server_run caps s \<Longrightarrow> server_step caps s t \<Longrightarrow> server_run caps t"
| outside: "server_run caps s \<Longrightarrow> outside_step s t \<Longrightarrow> server_run caps t"

fun streams_of :: "item list \<Rightarrow> nat list" where
  "streams_of [] = []"
| "streams_of (Stream x # xs) = x # streams_of xs"
| "streams_of (Failed e # xs) = streams_of xs"

lemma streams_of_append [simp]: "streams_of (xs @ ys) = streams_of xs @ streams_of ys"
  by (induction xs rule: streams_of.induct) simp_all

subsection \<open>The components' own runs\<close>

definition refines_parts :: "nat list \<Rightarrow> server_state \<Rightarrow> bool" where
  "refines_parts caps s \<longleftrightarrow> length (transports s) = length caps \<and> comp_reachable (length caps) (fan s)
     \<and> (\<forall>i < length caps. queue_run (caps ! i) (transports s ! i)
          \<and> handed (transports s ! i) = streams_of (from_ln i (produced (fan s))))
     \<and> started s = streams_of (map snd (delivered (fan s)))"

lemma length_pumps: "comp_reachable n c \<Longrightarrow> length (pumps c) = n"
  using comp_inv_reachable by (simp add: comp_inv_def)

lemma refines_parts_start: "refines_parts caps (start_server (length caps))"
  by (auto simp: refines_parts_def start_server_def NewComposite_def new_queue_def
      intro: comp_reachable.initial [unfolded NewComposite_def] queue_run.start [unfolded new_queue_def])

lemma refines_parts_update:
  assumes "refines_parts caps s" "i < length (transports s)" "queue_step (caps ! i) (transports s ! i) q"
    and "handed q = streams_of (from_ln i (produced f))"
    and "comp_step (fan s) f \<or> f = fan s"
    and "\<And>j. j \<noteq> i \<Longrightarrow> from_ln j (produced f) = from_ln j (produced (fan s))"
    and "delivered f = delivered (fan s)"
  shows "refines_parts caps (s\<lparr>transports := (transports s)[i := q], fan := f\<rparr>)"
proof -
  have old: "queue_run (caps ! j) (transports s ! j)" "handed (transports s ! j) = streams_of (from_ln j (produced (fan s)))"
    if "j < length caps" for j
    using assms(1) that by (simp_all add: refines_parts_def)
  have len: "length (transports s) = length caps"
    using assms(1) by (simp add: refines_parts_def)
  have "queue_run (caps ! j) ((transports s)[i := q] ! j)
      \<and> handed ((transports s)[i := q] ! j) = streams_of (from_ln j (produced f))" if "j < length caps" for j
    using old that assms(2,3,4,6) queue_run.step [OF old(1) assms(3)] len by (cases "j = i") auto
  moreover have "comp_reachable (length caps) f"
    using assms(1,5) comp_reachable.step by (auto simp: refines_parts_def)
  ultimately show ?thesis
    using assms(1,7) by (simp add: refines_parts_def)
qed

lemma refines_parts_fan:
  assumes "refines_parts caps s" "comp_step (fan s) f" "delivered f = delivered (fan s)"
    and "\<And>i. i < length caps \<Longrightarrow> streams_of (from_ln i (produced f)) = streams_of (from_ln i (produced (fan s)))"
  shows "refines_parts caps (s\<lparr>fan := f\<rparr>)"
  using assms by (auto simp: refines_parts_def intro: comp_reachable.step)

lemma refines_parts_inside:
  assumes "server_step caps s t" "refines_parts caps s"
  shows "refines_parts caps t"
proof -
  have c: "comp_reachable (length caps) (fan s)" and len: "length (pumps (fan s)) = length caps" "length (transports s) = length caps"
    using assms(2) length_pumps by (auto simp: refines_parts_def)
  have handed: "handed (transports s ! i) = streams_of (from_ln i (produced (fan s)))" if "i < length caps" for i
    using assms(2) that by (simp add: refines_parts_def)
  show ?thesis
    using assms(1)
  proof (cases rule: server_step.cases)
    case (handler i q)
    then show ?thesis
      using refines_parts_update [OF assms(2), of i q "fan s"] handed len by simp
  next
    case (pump_take i x q)
    then show ?thesis
      using refines_parts_update [OF assms(2) pump_take(2) take_out [OF pump_take(4)], of
          "(fan s)\<lparr>pumps := (pumps (fan s))[i := Sending (Stream x)], produced := produced (fan s) @ [(i, Stream x)]\<rparr>"]
        ln_accept [of i "fan s" "Stream x"] handed len by simp
  next
    case (pump_closed i)
    then show ?thesis
      using refines_parts_fan [OF assms(2) ln_accept [of i "fan s" "Failed ErrClosed"]] len by simp
  next
    case (pump_send i x)
    then show ?thesis
      using refines_parts_fan [OF assms(2) send [of i "fan s" x]] by simp
  next
    case (pump_stop i x)
    then show ?thesis
      using refines_parts_fan [OF assms(2) stop [of i "fan s" x]] by simp
  next
    case (serve_stream i x q)
    then show ?thesis
      using assms(2) comp_reachable.step [OF c accept [OF serve_stream(3)]] by (simp add: refines_parts_def)
  next
    case (serve_failed i e q)
    then show ?thesis
      using assms(2) comp_reachable.step [OF c accept [OF serve_failed(3)]] by (simp add: refines_parts_def)
  next
    case close_composite
    then show ?thesis
      using refines_parts_fan [OF assms(2) comp_step.close] by simp
  next
    case (close_transport i)
    then show ?thesis
      using refines_parts_update [OF assms(2) close_transport(2) queue_step.close, where f = "fan s"] handed len by simp
  qed (use assms(2) in \<open>simp_all add: refines_parts_def\<close>)
qed

lemma refines_parts_outside:
  assumes "outside_step s t" "refines_parts caps s"
  shows "refines_parts caps t"
  using assms(1)
proof (cases rule: outside_step.cases)
  case (stream_arrives i x)
  then show ?thesis
    using refines_parts_update [OF assms(2) stream_arrives(2) arrive [where x = x], where f = "fan s"] assms(2) by (simp add: refines_parts_def)
qed (use assms(2) in \<open>simp add: refines_parts_def\<close>)

lemma refines_parts_run: "server_run caps s \<Longrightarrow> refines_parts caps s"
  by (induction rule: server_run.induct)
    (use refines_parts_start refines_parts_inside refines_parts_outside in blast)+

subsection \<open>Only a closed listener fails, and only after the signal\<close>

definition only_closed :: "server_state \<Rightarrow> bool" where
  "only_closed s \<longleftrightarrow> (\<forall>x \<in> set (queue (fan s)). \<forall>e. snd x = Failed e \<longrightarrow> e = ErrClosed)
     \<and> (\<forall>e. Sending (Failed e) \<in> set (pumps (fan s)) \<longrightarrow> e = ErrClosed)
     \<and> (serve_end s = None \<or> serve_end s = Some None)"

definition quiet :: "server_state \<Rightarrow> bool" where
  "quiet s \<longleftrightarrow> signalled s \<or> \<not> done_closed (fan s) \<and> (\<forall>q \<in> set (transports s). \<not> is_closed q) \<and> serve_end s = None
     \<and> (\<forall>p \<in> set (pumps (fan s)). p = Accepting \<or> (\<exists>x. p = Sending (Stream x)))
     \<and> (\<forall>x \<in> set (queue (fan s)). \<exists>k. snd x = Stream k)"

lemmas in_updated = set_update_subset_insert [THEN subsetD]

lemma start_server_quiet: "only_closed (start_server n)" "quiet (start_server n)"
  by (auto simp: only_closed_def quiet_def start_server_def NewComposite_def new_queue_def)

lemma only_closed_inside: "server_step caps s t \<Longrightarrow> only_closed s \<Longrightarrow> only_closed t"
proof (induction rule: server_step.induct)
  case (pump_send i s x)
  have "Sending x \<in> set (pumps (fan s))"
    using nth_mem [OF pump_send(1)] pump_send(2) by simp
  then show ?case
    using pump_send.prems by (auto simp: only_closed_def after_send_def dest!: in_updated split: item.splits)
next
  case (serve_failed s i e q)
  then show ?case
    by (auto simp: only_closed_def serve_result_def)
qed (auto simp: only_closed_def serve_result_def dest!: in_updated)

lemma quiet_inside: "server_step caps s t \<Longrightarrow> quiet s \<Longrightarrow> quiet t"
proof (induction rule: server_step.induct)
  case (handler i s q)
  then show ?case
    using nth_mem [OF handler(1)] by (auto simp: quiet_def dest!: in_updated)
next
  case (pump_take i s x q)
  then show ?case
    using nth_mem [OF pump_take(1)] by (auto simp: quiet_def dest!: in_updated)
next
  case (pump_closed i s)
  then show ?case
    using nth_mem [OF pump_closed(1)] by (auto simp: quiet_def)
next
  case (pump_send i s x)
  then show ?case
    using nth_mem [OF pump_send(1)] by (auto simp: quiet_def after_send_def dest!: in_updated split: item.splits)
qed (auto simp: quiet_def dest!: in_updated)

lemma outside_quiet: "outside_step s t \<Longrightarrow> (only_closed s \<longrightarrow> only_closed t) \<and> (quiet s \<longrightarrow> quiet t)"
proof (induction rule: outside_step.induct)
  case (stream_arrives i s x)
  then show ?case
    using nth_mem [OF stream_arrives(1)] by (auto simp: only_closed_def quiet_def dest!: in_updated)
qed (simp add: only_closed_def quiet_def)

lemma server_run_quiet: "server_run caps s \<Longrightarrow> only_closed s \<and> quiet s"
  by (induction rule: server_run.induct)
    (use start_server_quiet only_closed_inside quiet_inside outside_quiet in blast)+

subsection \<open>Conservation\<close>

lemma server_lengths:
  assumes "server_run caps s"
  shows "length (pumps (fan s)) = length caps" "length (transports s) = length caps"
  using refines_parts_run [OF assms] length_pumps by (auto simp: refines_parts_def)

lemma streams_conserved:
  assumes "server_run caps s" "i < length caps"
  shows "mset (arrived (transports s ! i)) = mset (waiting (transports s ! i)) + mset (out (transports s ! i))
         + mset (shut (transports s ! i)) + mset (streams_of (held (pumps (fan s) ! i)))
         + mset (streams_of (from_ln i (queue (fan s)))) + mset (streams_of (from_ln i (delivered (fan s))))"
proof -
  have r: "comp_reachable (length caps) (fan s)" "queue_run (caps ! i) (transports s ! i)"
    "handed (transports s ! i) = streams_of (from_ln i (produced (fan s)))"
    using refines_parts_run [OF assms(1)] assms(2) by (simp_all add: refines_parts_def)
  moreover have "from_ln i (produced (fan s)) = from_ln i (delivered (fan s)) @ from_ln i (queue (fan s)) @ held (pumps (fan s) ! i)"
    using comp_inv_reachable [OF r(1)] assms(2) by (simp add: comp_inv_def)
  ultimately show ?thesis
    using queue_inv_run [OF r(2)] by (simp add: queue_inv_def)
qed

lemma before_signal:
  assumes "server_run caps s" "\<not> signalled s"
  shows "serve_end s = None"
    and "i < length caps \<Longrightarrow> shut (transports s ! i) = []"
    and "i < length caps \<Longrightarrow> pumps (fan s) ! i \<noteq> Stopped x"
proof -
  have q: "quiet s"
    using server_run_quiet [OF assms(1)] by simp
  then show "serve_end s = None"
    using assms(2) by (simp add: quiet_def)
  assume i: "i < length caps"
  then have "transports s ! i \<in> set (transports s)" "pumps (fan s) ! i \<in> set (pumps (fan s))"
    using server_lengths [OF assms(1)] by simp_all
  moreover have "queue_inv (caps ! i) (transports s ! i)"
    using refines_parts_run [OF assms(1)] i queue_inv_run by (auto simp: refines_parts_def)
  ultimately show "shut (transports s ! i) = []" "pumps (fan s) ! i \<noteq> Stopped x"
    using q assms(2) unfolding quiet_def queue_inv_def by (metis, metis pump.distinct(3,5))
qed

subsection \<open>At rest\<close>

lemma at_rest:
  assumes run: "server_run caps s" and "\<not> signalled s" "\<nexists>t. server_step caps s t" "\<forall>c \<in> set caps. 0 < c"
  shows "queue (fan s) = [] \<and> (\<forall>i < length caps. pumps (fan s) ! i = Accepting
    \<and> waiting (transports s ! i) = [] \<and> out (transports s ! i) = [])"
proof -
  have q: "quiet s" and r: "refines_parts caps s"
    using server_run_quiet [OF run] refines_parts_run [OF run] by simp_all
  note len = server_lengths [OF run]
  have queue: "queue (fan s) = []"
  proof (cases "queue (fan s)")
    case (Cons x xs)
    then obtain i k where "x = (i, Stream k)"
      using q assms(2) by (cases x) (auto simp: quiet_def)
    then show ?thesis
      using serve_stream [of s i k xs caps] Cons q assms(2,3) by (auto simp: quiet_def)
  qed
  have "pumps (fan s) ! i = Accepting \<and> waiting (transports s ! i) = [] \<and> out (transports s ! i) = []" if i: "i < length caps" for i
  proof -
    have room: "length (queue (fan s)) < length (pumps (fan s)) * 4"
      using i len queue by auto
    have "pumps (fan s) ! i \<noteq> Sending x" for x
      using pump_send [OF _ _ room, of i x caps] i len assms(3) by auto
    moreover have "pumps (fan s) ! i \<in> set (pumps (fan s))"
      using i len by simp
    ultimately have p: "pumps (fan s) ! i = Accepting"
      using q assms(2) unfolding quiet_def by blast
    have o: "out (transports s ! i) = []"
      using pump_take [of i s _ _ caps] i len p assms(3) by (cases "out (transports s ! i)") auto
    have "waiting (transports s ! i) = []"
    proof (rule ccontr)
      assume "waiting (transports s ! i) \<noteq> []"
      then have "\<exists>q. queue_step (caps ! i) (transports s ! i) q \<and> arrived q = arrived (transports s ! i)
          \<and> handed q = handed (transports s ! i) \<and> is_closed q = is_closed (transports s ! i)"
        using enqueue [of 0 "transports s ! i" "caps ! i"] o assms(4) i by fastforce
      then show False
        using handler [of i s caps] i len assms(3) by metis
    qed
    then show ?thesis
      using p o by simp
  qed
  then show ?thesis
    using queue by blast
qed

lemma rest_delivered:
  assumes "server_run caps s" "\<not> signalled s" "\<nexists>t. server_step caps s t" "\<forall>c \<in> set caps. 0 < c" "i < length caps"
  shows "mset (arrived (transports s ! i)) = mset (streams_of (from_ln i (delivered (fan s))))"
  using streams_conserved [OF assms(1,5)] at_rest [OF assms(1-4)] before_signal(2) [OF assms(1,2,5)] assms(5) by simp

subsection \<open>Properties\<close>

text \<open>C13. The running server loses no stream. In every interleaving of connection handlers, listener goroutines, the
  accept loop, the signal and the closing: each part behaves as the model of that part allows; every
  authenticated stream of a transport is held by its handler, queued, with the listener's goroutine, in the
  composite's channel, closed by its handler, or was handed to \<^verbatim>\<open>Serve\<close>, which started a handler for each one it was
  handed, in that order; \<^verbatim>\<open>Serve\<close> never returns an error. Until the signal it does not return, no stream is
  closed and no goroutine stops; and the server is then at rest only when every stream that arrived is being handled.\<close>

theorem server_keeps_streams:
  assumes "server_run caps s"
  shows "comp_reachable (length caps) (fan s) \<and> (\<forall>i < length caps. queue_run (caps ! i) (transports s ! i))
    \<and> (\<forall>i < length caps. mset (arrived (transports s ! i)) = mset (waiting (transports s ! i)) + mset (out (transports s ! i))
         + mset (shut (transports s ! i)) + mset (streams_of (held (pumps (fan s) ! i)))
         + mset (streams_of (from_ln i (queue (fan s)))) + mset (streams_of (from_ln i (delivered (fan s)))))
    \<and> started s = streams_of (map snd (delivered (fan s)))
    \<and> (serve_end s = None \<or> serve_end s = Some None)
    \<and> (\<not> signalled s \<longrightarrow> serve_end s = None \<and> (\<forall>i < length caps. shut (transports s ! i) = [] \<and> (\<forall>x. pumps (fan s) ! i \<noteq> Stopped x)))
    \<and> (\<not> signalled s \<and> (\<nexists>t. server_step caps s t) \<and> (\<forall>c \<in> set caps. 0 < c) \<longrightarrow>
         (\<forall>i < length caps. mset (arrived (transports s ! i)) = mset (streams_of (from_ln i (delivered (fan s))))))"
  using refines_parts_run [OF assms] server_run_quiet [OF assms] streams_conserved [OF assms] before_signal [OF assms] rest_delivered [OF assms]
  by (auto simp: refines_parts_def only_closed_def)

text \<open>A QUIC and a TCP queue; one TCP stream on its way to its handler, then the signal.\<close>

definition sample_running :: server_state where
  "sample_running = \<lparr>transports = [new_queue, new_queue\<lparr>arrived := [7], handed := [7]\<rparr>],
     fan = \<lparr>pumps = [Accepting, Sending (Stream 7)], queue = [], done_closed = False, produced = [(1, Stream 7)], delivered = []\<rparr>,
     started = [], serve_end = None, signalled = True\<rparr>"

lemma sample_running_run: "server_run [quic_capacity, tcp_capacity] sample_running"
proof -
  let ?caps = "[quic_capacity, tcp_capacity]"
  let ?s0 = "start_server 2"
  let ?w = "new_queue\<lparr>arrived := [7], waiting := [7]\<rparr>"
  let ?o = "new_queue\<lparr>arrived := [7], out := [7]\<rparr>"
  have "server_run ?caps ?s0"
    using server_run.start [of ?caps] by (simp add: numeral_2_eq_2)
  from server_run.outside [OF this stream_arrives [of 1 _ 7]]
  have "server_run ?caps (?s0\<lparr>transports := [new_queue, ?w]\<rparr>)"
    by (simp add: start_server_def numeral_2_eq_2 new_queue_def)
  moreover have "queue_step tcp_capacity ?w ?o"
    using enqueue [of 0 ?w tcp_capacity] by (simp add: new_queue_def remove_at_def tcp_capacity_def)
  ultimately have "server_run ?caps (?s0\<lparr>transports := [new_queue, ?o]\<rparr>)"
    using server_run.inside [OF _ handler [of 1 "?s0\<lparr>transports := [new_queue, ?w]\<rparr>" ?caps ?o]] by (simp add: new_queue_def)
  from server_run.inside [OF this pump_take [of 1 _ 7 "[]"]] have run: "server_run ?caps (sample_running\<lparr>signalled := False\<rparr>)"
    by (simp add: start_server_def sample_running_def NewComposite_def new_queue_def numeral_2_eq_2)
  from server_run.outside [OF this signal] show ?thesis
    by (simp add: sample_running_def)
qed

theorem server_keeps_streams_witness:
  "comp_reachable 2 (fan sample_running) \<and> queue_run tcp_capacity (transports sample_running ! 1)
    \<and> streams_of (held (pumps (fan sample_running) ! 1)) = [7]"
  using server_keeps_streams [OF sample_running_run]
  by (auto simp: sample_running_def numeral_2_eq_2)

end
