(* ===== verification/Config.thy ===== *)
theory Config
  imports Base
begin

text \<open>
  \<^verbatim>\<open>pkg/config/config.go\<close>: the configuration files and their validation. The YAML decoder is a
  third-party library, the argument \<open>yaml\<close> of the loaders, and reading the file is the operating
  system's answer, the text or an error.
\<close>

record server_yaml =
  yQUIC :: string
  yTCP :: string
  yDecoyDomain :: string
  yDecoyAddr :: string
  yCertFile :: string
  yKeyFile :: string
  yStaticPriv :: string
  yUUIDs :: "string list"
  yLevel :: string

record client_yaml =
  cURI :: string
  cTOFU :: string
  cPreferred :: string
  cPorts :: "int list"
  cEnabled :: bool
  cRegion :: string
  cFallbackChain :: "string list"
  cLevel :: string
  cFile :: string
  cRedactSNI :: bool

datatype cfg_err = NoListen | NoTLSFiles | NoUUIDs | NoPrivKey | NoURI | ReadFile string | ParseYAML string

definition server_Validate :: "server_yaml \<Rightarrow> cfg_err option" where
  "server_Validate c =
     (if yQUIC c = [] \<and> yTCP c = [] then Some NoListen
      else if yCertFile c = [] \<or> yKeyFile c = [] then Some NoTLSFiles
      else if length (yUUIDs c) = 0 then Some NoUUIDs
      else if yStaticPriv c = [] then Some NoPrivKey
      else None)"

definition client_Validate :: "client_yaml \<Rightarrow> cfg_err option" where
  "client_Validate c = (if cURI c = [] then Some NoURI else None)"

definition loadYAML :: "(string \<Rightarrow> string + 'c) \<Rightarrow> string + string \<Rightarrow> cfg_err + 'c" where
  "loadYAML yaml file =
     (case file of
        Inl e \<Rightarrow> Inl (ReadFile e)
      | Inr b \<Rightarrow> (case yaml b of Inl e \<Rightarrow> Inl (ParseYAML e) | Inr c \<Rightarrow> Inr c))"

definition LoadServer :: "(string \<Rightarrow> string + server_yaml) \<Rightarrow> string + string \<Rightarrow> cfg_err + server_yaml" where
  "LoadServer yaml file =
     (case loadYAML yaml file of
        Inl e \<Rightarrow> Inl e
      | Inr c \<Rightarrow> (case server_Validate c of Some e \<Rightarrow> Inl e | None \<Rightarrow> Inr c))"

definition LoadClient :: "(string \<Rightarrow> string + client_yaml) \<Rightarrow> string + string \<Rightarrow> cfg_err + client_yaml" where
  "LoadClient yaml file =
     (case loadYAML yaml file of
        Inl e \<Rightarrow> Inl e
      | Inr c \<Rightarrow> (case client_Validate c of Some e \<Rightarrow> Inl e | None \<Rightarrow> Inr c))"

lemma LoadServer_ok:
  "LoadServer yaml file = Inr c \<longleftrightarrow> (\<exists>b. file = Inr b \<and> yaml b = Inr c \<and> server_Validate c = None)"
  by (auto simp: LoadServer_def loadYAML_def split: sum.splits option.splits)

lemma server_Validate_ok:
  "server_Validate c = None \<longleftrightarrow> (yQUIC c \<noteq> [] \<or> yTCP c \<noteq> []) \<and> yCertFile c \<noteq> [] \<and> yKeyFile c \<noteq> []
     \<and> yUUIDs c \<noteq> [] \<and> yStaticPriv c \<noteq> []"
  by (simp add: server_Validate_def)

end
