(* ===== verification/Sni.thy ===== *)
theory Sni
  imports Reader
begin

text \<open>
  The ClientHello peek of the TCP transport, \<^verbatim>\<open>pkg/transport/tcp/sni.go\<close>:
  \<^verbatim>\<open>peekClientHelloSNI\<close> reads one TLS record, walks to the server_name extension and returns the
  name, the raw bytes to replay, and an error.

  Every index and slice of the source is checked (\<open>index_at\<close>, \<open>slice\<close>), so the outer
  \<open>option\<close> of \<open>parse_hello\<close> and \<open>walk_exts\<close> is Go's panic; the first group of lemmas shows that the
  bounds tests of the code rule it out for every input. \<open>hello_bytes\<close> is a ClientHello record
  written from RFC 8446 and RFC 6066, the reference for what the parser must find.
\<close>

datatype sni_err =
    ReadErr io_err
  | NotHandshake | BadRecordLength | NotClientHello | HsLengthOob | ShortHs | BadSessionIdLen
  | BadCsLen | BadCs | BadCmLen | BadCm | BadExtLen | BadExt

text \<open>A result of the parser: the name and the error (\<open>None\<close> for \<^verbatim>\<open>nil\<close>).\<close>

type_synonym hello_result = "string \<times> sni_err option"

definition uint16_at :: "bytes \<Rightarrow> nat \<Rightarrow> nat option" where
  "uint16_at b p = map_option (\<lambda>s. unat (uint16 s)) (slice b p (p + 2))"

subsection \<open>The server_name extension\<close>

text \<open>\<^verbatim>\<open>data\<close> is the extension's body: list length, then entries; only the first is looked at.\<close>

definition parse_server_name :: "bytes \<Rightarrow> string option" where
  "parse_server_name data =
     (if length data < 2 then Some []
      else Option.bind (uint16_at data 0) (\<lambda>list_len.
        if length data < 2 + list_len then Some []
        else Option.bind (slice data 2 (2 + list_len)) (\<lambda>entries.
          if length entries < 5 then Some []
          else Option.bind (index_at entries 0) (\<lambda>name_type.
            if name_type \<noteq> 0 then Some []
            else Option.bind (uint16_at entries 1) (\<lambda>name_len.
              if length entries < 3 + name_len then Some []
              else map_option string_of (slice entries 3 (3 + name_len)))))))"

text \<open>\<^verbatim>\<open>for i := 0; i+4 <= len(exts); \{ ... i += 4 + l \}\<close>\<close>

function walk_exts :: "bytes \<Rightarrow> nat \<Rightarrow> hello_result option" where
  "walk_exts exts i =
     (if i + 4 \<le> length exts then
        Option.bind (uint16_at exts i) (\<lambda>t.
          Option.bind (uint16_at exts (i + 2)) (\<lambda>l.
            if length exts < i + 4 + l then Some ([], Some BadExt)
            else if t = 0x0000 then
              Option.bind (slice exts (i + 4) (i + 4 + l)) (\<lambda>data.
                map_option (\<lambda>sni. (sni, None)) (parse_server_name data))
            else walk_exts exts (i + (4 + l))))
      else Some ([], None))"
  by pat_completeness auto
termination
  by (relation "measure (\<lambda>(exts, i). length exts - i)") auto

declare walk_exts.simps [simp del]

subsection \<open>The ClientHello\<close>

text \<open>
  The walk over the fixed part. Each of the two blocks of the source (cipher suites, compression
  methods) that test for a length, read it and skip the field it counts is one \<open>skip\<close>: the field's length has \<open>w\<close> bytes, a missing length is \<open>e1\<close>, a field that
  does not fit is \<open>e2\<close>; the continuation gets the new position.
\<close>

definition len_at :: "nat \<Rightarrow> bytes \<Rightarrow> nat \<Rightarrow> nat option" where
  "len_at w hs p = (if w = 1 then map_option unat (index_at hs p) else uint16_at hs p)"

definition skip ::
  "nat \<Rightarrow> bytes \<Rightarrow> nat \<Rightarrow> sni_err \<Rightarrow> sni_err \<Rightarrow> (nat \<Rightarrow> hello_result option) \<Rightarrow> hello_result option" where
  "skip w hs p e1 e2 cont =
     (if length hs < p + w then Some ([], Some e1)
      else Option.bind (len_at w hs p) (\<lambda>n.
        if length hs < p + w + n then Some ([], Some e2) else cont (p + w + n)))"

definition parse_exts :: "bytes \<Rightarrow> nat \<Rightarrow> hello_result option" where
  "parse_exts hs p =
     (if length hs < p + 2 then Some ([], None)
      else Option.bind (uint16_at hs p) (\<lambda>ext_len.
        if length hs < p + 2 + ext_len then Some ([], Some BadExtLen)
        else Option.bind (slice hs (p + 2) (p + 2 + ext_len)) (\<lambda>exts. walk_exts exts 0)))"

definition parse_hs :: "bytes \<Rightarrow> hello_result option" where
  "parse_hs hs =
     (if length hs < 2 + 32 + 1 then Some ([], Some ShortHs)
      else Option.bind (index_at hs (2 + 32)) (\<lambda>sid_len.
        if length hs < 35 + unat sid_len then Some ([], Some BadSessionIdLen)
        else skip 2 hs (35 + unat sid_len) BadCsLen BadCs (\<lambda>p.
          skip 1 hs p BadCmLen BadCm (\<lambda>p. parse_exts hs p))))"

definition parse_hello :: "bytes \<Rightarrow> hello_result option" where
  "parse_hello body =
     (if length body < 4 then Some ([], Some NotClientHello)
      else Option.bind (index_at body 0) (\<lambda>hs_type.
        if hs_type \<noteq> 0x01 then Some ([], Some NotClientHello)
        else Option.bind (index_at body 1) (\<lambda>b1.
          Option.bind (index_at body 2) (\<lambda>b2.
            Option.bind (index_at body 3) (\<lambda>b3.
              let hs_len = unat (word_be [b1, b2, b3] :: u32) in
              if length body < hs_len + 4 then Some ([], Some HsLengthOob)
              else Option.bind (slice body 4 (4 + hs_len)) parse_hs)))))"

subsection \<open>Reading the record\<close>

text \<open>
  The result of \<^verbatim>\<open>peekClientHelloSNI\<close>: name, raw bytes and error. A short read of the body
  returns the whole buffer of \<^verbatim>\<open>recLen\<close> bytes, of which the part that was not received is zero.
  The outer \<open>option\<close> is a reader that never returns, the inner one a panic.
\<close>

datatype peek = Peek string bytes "sni_err option"

definition peekClientHelloSNI :: "'s reader \<Rightarrow> 's \<Rightarrow> (peek option \<times> 's) option" where
  "peekClientHelloSNI rd s =
     (case read_full rd 5 s of
        None \<Rightarrow> None
      | Some (got, Some e, s1) \<Rightarrow> Some (Some (Peek [] [] (Some (ReadErr e))), s1)
      | Some (hdr, None, s1) \<Rightarrow>
        if hdr ! 0 \<noteq> 0x16 then Some (Some (Peek [] hdr (Some NotHandshake)), s1)
        else
          let rec_len = unat (uint16 (take 2 (drop 3 hdr))) in
          if rec_len < 4 \<or> 16384 < rec_len then Some (Some (Peek [] hdr (Some BadRecordLength)), s1)
          else
            (case read_full rd rec_len s1 of
               None \<Rightarrow> None
             | Some (got, Some e, s2) \<Rightarrow>
                 Some (Some (Peek [] (hdr @ got @ replicate (rec_len - length got) 0) (Some (ReadErr e))), s2)
             | Some (body, None, s2) \<Rightarrow>
                 Some (map_option (\<lambda>(sni, err). Peek sni (hdr @ body) err) (parse_hello body), s2)))"

subsection \<open>No input makes the parser panic\<close>

lemma uint16_at_in: "p + 2 \<le> length b \<Longrightarrow> uint16_at b p = Some (unat (uint16 (take 2 (drop p b))))"
  by (simp add: uint16_at_def)

lemma parse_server_name_total: "\<exists>sni. parse_server_name data = Some sni"
  by (simp add: parse_server_name_def uint16_at_in)

lemma walk_exts_total: "\<exists>r. walk_exts exts i = Some r"
proof (induction exts i rule: walk_exts.induct)
  case (1 exts i)
  let ?t = "unat (uint16 (take 2 (drop i exts)))" and ?l = "unat (uint16 (take 2 (drop (i + 2) exts)))"
  show ?case
  proof (cases "i + 4 \<le> length exts")
    case True
    then have t: "uint16_at exts i = Some ?t" and l: "uint16_at exts (i + 2) = Some ?l"
      by (simp_all add: uint16_at_in)
    have "\<exists>r. walk_exts exts (i + (4 + ?l)) = Some r" if "\<not> length exts < i + 4 + ?l" "?t \<noteq> 0"
      by (rule "1" [OF True t l that])
    then show ?thesis
      using parse_server_name_total [of "take ?l (drop (i + 4) exts)"] True
      by (subst walk_exts.simps) (auto simp only: t l bind.bind_lunit if_True, auto)
  next
    case False
    then show ?thesis
      by (subst walk_exts.simps) simp
  qed
qed

lemma skip_total:
  assumes "w = 1 \<or> w = 2" and "\<And>q. \<exists>r. cont q = Some r"
  shows "\<exists>r. skip w hs p e1 e2 cont = Some r"
proof (cases "length hs < p + w")
  case True
  then show ?thesis
    by (simp add: skip_def)
next
  case False
  then have "\<exists>n. len_at w hs p = Some n"
    using assms(1) by (auto simp: len_at_def uint16_at_in)
  then show ?thesis
    using False assms(2) by (auto simp: skip_def)
qed

lemma parse_exts_total: "\<exists>r. parse_exts hs p = Some r"
  using walk_exts_total by (auto simp: parse_exts_def uint16_at_in not_less)

lemma parse_hs_total: "\<exists>r. parse_hs hs = Some r"
proof (cases "length hs < 2 + 32 + 1")
  case False
  then have "index_at hs (2 + 32) = Some (hs ! 34)"
    by simp
  then show ?thesis
    using skip_total [of 2, OF _ skip_total [of 1, OF _ parse_exts_total]]
    by (simp add: parse_hs_def)
qed (simp add: parse_hs_def)

lemma parse_hello_total: "\<exists>r. parse_hello body = Some r"
proof (cases "length body < 4")
  case False
  then have "index_at body 0 = Some (body ! 0)" "index_at body 1 = Some (body ! 1)"
    "index_at body 2 = Some (body ! 2)" "index_at body 3 = Some (body ! 3)"
    by (auto simp: index_at_def)
  then show ?thesis
    using parse_hs_total False by (simp add: parse_hello_def Let_def)
qed (simp add: parse_hello_def)

subsection \<open>What peeking returns, as a function of the byte stream\<close>

definition record_len :: "bytes \<Rightarrow> nat" where
  "record_len bs = unat (uint16 (take 2 (drop 3 bs)))"

text \<open>The stream holds a whole handshake record of a length the parser accepts.\<close>

definition handshake_header :: "bytes \<Rightarrow> bool" where
  "handshake_header bs \<longleftrightarrow> 5 \<le> length bs \<and> bs ! 0 = 0x16 \<and> 4 \<le> record_len bs \<and> record_len bs \<le> 16384"

definition whole_record :: "bytes \<Rightarrow> bool" where
  "whole_record bs \<longleftrightarrow> handshake_header bs \<and> 5 + record_len bs \<le> length bs"

definition peek_spec :: "bytes \<Rightarrow> io_err \<Rightarrow> peek \<times> bytes" where
  "peek_spec bs e =
     (if length bs < 5 then (Peek [] [] (Some (ReadErr (short e bs))), [])
      else if bs ! 0 \<noteq> 0x16 then (Peek [] (take 5 bs) (Some NotHandshake), drop 5 bs)
      else if record_len bs < 4 \<or> 16384 < record_len bs
        then (Peek [] (take 5 bs) (Some BadRecordLength), drop 5 bs)
      else if length bs < 5 + record_len bs
        then (Peek [] (bs @ replicate (5 + record_len bs - length bs) 0)
                (Some (ReadErr (short e (drop 5 bs)))), [])
      else (case parse_hello (take (record_len bs) (drop 5 bs)) of
              Some (sni, err) \<Rightarrow> (Peek sni (take (5 + record_len bs) bs) err, drop (5 + record_len bs) bs)
            | None \<Rightarrow> (Peek [] [] None, [])))"

context byte_source
begin

lemma peek_spec_refined:
  "\<exists>s'. peekClientHelloSNI rd s = Some (Some (fst (peek_spec (content s) (final s))), s')
     \<and> content s' = snd (peek_spec (content s) (final s)) \<and> final s' = final s"
proof -
  let ?bs = "content s" and ?e = "final s"
  obtain got e1 s1 where r1: "read_full rd 5 s = Some (got, e1, s1)"
    and v1: "stream_full 5 (?bs, ?e) = (got, e1, (content s1, final s1))"
    using read_full_view [of 5 s] by (auto simp: view_def)
  show ?thesis
  proof (cases "length ?bs < 5")
    case True
    then have "e1 = Some (short ?e ?bs)" "content s1 = []" "final s1 = ?e"
      using v1 by (auto simp: stream_full_eq)
    then show ?thesis
      using r1 True by (simp add: peekClientHelloSNI_def peek_spec_def)
  next
    case False
    then have got: "got = take 5 ?bs" "e1 = None" "content s1 = drop 5 ?bs" "final s1 = ?e"
      using v1 by (simp_all add: stream_full_eq)
    have hdr: "take 5 ?bs ! 0 = ?bs ! 0" "uint16 (take 2 (drop 3 (take 5 ?bs))) = uint16 (take 2 (drop 3 ?bs))"
      by (simp_all add: drop_take)
    show ?thesis
    proof (cases "?bs ! 0 \<noteq> 0x16 \<or> record_len ?bs < 4 \<or> 16384 < record_len ?bs")
      case True
      then show ?thesis
        using False r1 got hdr
        by (auto simp: peekClientHelloSNI_def peek_spec_def record_len_def Let_def)
    next
      case ok: False
      let ?n = "record_len ?bs"
      obtain body e2 s2 where r2: "read_full rd ?n s1 = Some (body, e2, s2)"
        and v2: "stream_full ?n (drop 5 ?bs, ?e) = (body, e2, (content s2, final s2))"
        using read_full_view [of ?n s1] got by (auto simp: view_def)
      have peek: "peekClientHelloSNI rd s = (case e2 of
          Some err \<Rightarrow> Some (Some (Peek [] (take 5 ?bs @ body @ replicate (?n - length body) 0) (Some (ReadErr err))), s2)
        | None \<Rightarrow> Some (map_option (\<lambda>(sni, err). Peek sni (take 5 ?bs @ body) err) (parse_hello body), s2))"
        using ok r1 r2 got hdr
        by (simp add: peekClientHelloSNI_def record_len_def Let_def split: option.split)
      show ?thesis
      proof (cases "length ?bs < 5 + ?n")
        case True
        then have "length (drop 5 ?bs) < ?n"
          using False by simp
        then have "body = drop 5 ?bs" "e2 = Some (short ?e (drop 5 ?bs))" "content s2 = []" "final s2 = ?e"
          using v2 by (auto simp only: stream_full_eq if_True prod.inject)
        moreover have "take 5 ?bs @ drop 5 ?bs @ z = ?bs @ z" for z
          by (metis append.assoc append_take_drop_id)
        ultimately show ?thesis
          using peek True False ok by (simp add: peek_spec_def add.commute)
      next
        case whole: False
        then have "\<not> length (drop 5 ?bs) < ?n"
          using False by simp
        then have b: "body = take ?n (drop 5 ?bs)" "e2 = None" "content s2 = drop ?n (drop 5 ?bs)" "final s2 = ?e"
          using v2 by (auto simp only: stream_full_eq if_False prod.inject)
        then have b3: "content s2 = drop (5 + ?n) ?bs"
          by (simp add: add.commute)
        obtain sni err where p: "parse_hello (take ?n (drop 5 ?bs)) = Some (sni, err)"
          using parse_hello_total [of "take ?n (drop 5 ?bs)"] by auto
        have "take (5 + ?n) ?bs = take 5 ?bs @ take ?n (drop 5 ?bs)"
          by (rule take_add)
        then show ?thesis
          using peek b(1,2,4) b3 p ok False whole by (simp add: peek_spec_def)
      qed
    qed
  qed
qed

end

subsection \<open>A reference ClientHello\<close>

text \<open>
  The fields of a ClientHello, with the extensions before and after server_name as pairs of type
  and body, and its encoding: length-prefixed fields inside a handshake message inside one record.
\<close>

record client_hello =
  ch_version :: bytes
  ch_random :: bytes
  ch_session :: bytes
  ch_suites :: bytes
  ch_compress :: bytes
  ch_before :: "(u16 \<times> bytes) list"
  ch_name :: string
  ch_after :: "(u16 \<times> bytes) list"

definition len16 :: "bytes \<Rightarrow> bytes" where
  "len16 b = be16 (word_of_nat (length b)) @ b"

definition ext_bytes :: "u16 \<times> bytes \<Rightarrow> bytes" where
  "ext_bytes x = be16 (fst x) @ len16 (snd x)"

definition name_list :: "string \<Rightarrow> bytes" where
  "name_list name = [0] @ len16 (bytes_of name)"

definition exts_bytes :: "client_hello \<Rightarrow> bytes" where
  "exts_bytes ch = concat (map ext_bytes (ch_before ch)) @ ext_bytes (0, len16 (name_list (ch_name ch)))
     @ concat (map ext_bytes (ch_after ch))"

definition hs_bytes :: "client_hello \<Rightarrow> bytes" where
  "hs_bytes ch = ch_version ch @ ch_random ch @ [word_of_nat (length (ch_session ch))] @ ch_session ch
     @ len16 (ch_suites ch) @ [word_of_nat (length (ch_compress ch))] @ ch_compress ch
     @ len16 (exts_bytes ch)"

definition hello_msg :: "client_hello \<Rightarrow> bytes" where
  "hello_msg ch = [1] @ be_word 3 (word_of_nat (length (hs_bytes ch)) :: u32) @ hs_bytes ch"

definition hello_record :: "client_hello \<Rightarrow> bytes" where
  "hello_record ch = [0x16, 3, 1] @ len16 (hello_msg ch)"

text \<open>
  The sizes of a real ClientHello; the whole message fits the record limit, which bounds all
  inner lengths. \<open>2 \<le> length name\<close>: the parser wants five bytes in the name list, so it does
  not see a name of one byte.
\<close>

definition hello_ok :: "client_hello \<Rightarrow> bool" where
  "hello_ok ch \<longleftrightarrow> length (ch_version ch) = 2 \<and> length (ch_random ch) = 32
     \<and> length (ch_session ch) \<le> 255 \<and> length (ch_compress ch) \<le> 255
     \<and> length (hello_msg ch) \<le> 16384 \<and> 2 \<le> length (ch_name ch)
     \<and> (\<forall>x \<in> set (ch_before ch). fst x \<noteq> 0)"

lemma unat_u16_of_nat: "n \<le> 65535 \<Longrightarrow> unat (word_of_nat n :: u16) = n"
  by (simp add: unat_of_nat)

lemma uint16_at_be16:
  "p = length pre \<Longrightarrow> uint16_at (pre @ be16 w @ post) p = Some (unat w)"
  by (simp add: uint16_at_def)

lemma uint16_at_len16:
  assumes "length b \<le> 65535" "p = length pre"
  shows "uint16_at (pre @ len16 b @ post) p = Some (length b)"
  using uint16_at_be16 [OF assms(2), of "word_of_nat (length b)" "b @ post"] assms(1)
  by (simp add: len16_def unat_u16_of_nat)

lemma slice_mid:
  "a = length pre \<Longrightarrow> b = length pre + length mid \<Longrightarrow> slice (pre @ mid @ post) a b = Some mid"
  by (simp add: slice_append3)

lemma index_mid: "p = length pre \<Longrightarrow> index_at (pre @ x # post) p = Some x"
  by (simp add: index_at_def)

lemma length_len16 [simp]: "length (len16 b) = 2 + length b"
  by (simp add: len16_def)

lemma length_ext_bytes [simp]: "length (ext_bytes x) = 4 + length (snd x)"
  by (simp add: ext_bytes_def)

lemma length_name_list [simp]: "length (name_list name) = 3 + length name"
  by (simp add: name_list_def)

lemma parse_server_name_found:
  assumes "2 \<le> length name" "length name \<le> 60000"
  shows "parse_server_name (len16 (name_list name)) = Some name"
proof -
  have list_len: "uint16_at (len16 (name_list name)) 0 = Some (length (name_list name))"
    using uint16_at_len16 [of "name_list name" 0 "[]" "[]"] assms by simp
  have entries: "slice (len16 (name_list name)) 2 (2 + length (name_list name)) = Some (name_list name)"
    using slice_mid [of 2 "be16 (word_of_nat (length (name_list name)))" _ "name_list name" "[]"]
    by (simp add: len16_def)
  have type: "index_at (name_list name) 0 = Some 0"
    by (simp add: name_list_def index_at_def)
  have name_len: "uint16_at (name_list name) 1 = Some (length name)"
    using uint16_at_len16 [of "bytes_of name" 1 "[0]" "[]"] assms by (simp add: name_list_def)
  have bytes: "slice (name_list name) 3 (3 + length name) = Some (bytes_of name)"
    using slice_mid [of 3 "0 # be16 (word_of_nat (length (bytes_of name)))" _ "bytes_of name" "[]"]
    by (simp add: name_list_def len16_def)
  have sizes: "\<not> length (len16 (name_list name)) < 2" "\<not> length (name_list name) < 5"
    "\<not> length (len16 (name_list name)) < 2 + length (name_list name)"
    "\<not> length (name_list name) < 3 + length name"
    using assms by simp_all
  show ?thesis
    unfolding parse_server_name_def
    by (simp only: sizes list_len entries type name_len bytes bind.bind_lunit if_False not_True_eq_False
        HOL.simp_thms option.map string_of_bytes_of)
qed

lemma walk_exts_step:
  assumes "fst x \<noteq> 0" "length (snd x) \<le> 65535"
  shows "walk_exts (pre @ ext_bytes x @ post) (length pre)
    = walk_exts (pre @ ext_bytes x @ post) (length (pre @ ext_bytes x))"
proof -
  let ?e = "pre @ ext_bytes x @ post" and ?i = "length pre"
  have t: "uint16_at ?e ?i = Some (unat (fst x))"
    using uint16_at_be16 [of ?i pre "fst x"] by (simp add: ext_bytes_def)
  have l: "uint16_at ?e (?i + 2) = Some (length (snd x))"
    using uint16_at_len16 [OF assms(2), of "?i + 2" "pre @ be16 (fst x)" post]
    by (simp add: ext_bytes_def)
  have "unat (fst x) \<noteq> 0"
    using assms(1) by (simp add: unat_eq_zero)
  moreover have "\<not> length ?e < ?i + 4 + length (snd x)" "?i + 4 \<le> length ?e"
    "length (pre @ ext_bytes x) = ?i + (4 + length (snd x))"
    by simp_all
  ultimately show ?thesis
    by (subst walk_exts.simps) (simp only: t l bind.bind_lunit if_True if_False)
qed

lemma walk_exts_prefix:
  assumes "\<forall>x \<in> set es. fst x \<noteq> 0 \<and> length (snd x) \<le> 65535"
  shows "walk_exts (pre @ concat (map ext_bytes es) @ post) (length pre)
    = walk_exts (pre @ concat (map ext_bytes es) @ post) (length (pre @ concat (map ext_bytes es)))"
  using assms
proof (induction es arbitrary: pre)
  case Nil
  then show ?case
    by simp
next
  case (Cons x es)
  have "walk_exts (pre @ ext_bytes x @ concat (map ext_bytes es) @ post) (length pre)
    = walk_exts (pre @ ext_bytes x @ concat (map ext_bytes es) @ post) (length (pre @ ext_bytes x))"
    using Cons.prems by (intro walk_exts_step) simp_all
  then show ?case
    using Cons.IH [of "pre @ ext_bytes x"] Cons.prems by simp
qed

lemma walk_exts_found:
  assumes ok: "hello_ok ch" and small: "length (exts_bytes ch) \<le> 16384"
  shows "walk_exts (exts_bytes ch) 0 = Some (ch_name ch, None)"
proof -
  let ?pre = "concat (map ext_bytes (ch_before ch))" and ?post = "concat (map ext_bytes (ch_after ch))"
  let ?body = "len16 (name_list (ch_name ch))"
  have body: "length ?body \<le> 16384" and nm: "length (ch_name ch) \<le> 60000"
    using small by (simp_all add: exts_bytes_def)
  have "length (ext_bytes x) \<le> 16384" if "x \<in> set (ch_before ch)" for x
    using small length_concat_ge [of "ext_bytes x" "map ext_bytes (ch_before ch)"] that
    by (simp add: exts_bytes_def)
  then have "walk_exts (exts_bytes ch) 0 = walk_exts (exts_bytes ch) (length ?pre)"
    using walk_exts_prefix [of "ch_before ch" "[]" "ext_bytes (0, ?body) @ ?post"] ok
    by (force simp: exts_bytes_def hello_ok_def)
  also have "\<dots> = Some (ch_name ch, None)"
  proof -
    have t: "uint16_at (exts_bytes ch) (length ?pre) = Some 0"
      using uint16_at_be16 [of "length ?pre" ?pre 0] by (simp add: exts_bytes_def ext_bytes_def)
    have l: "uint16_at (exts_bytes ch) (length ?pre + 2) = Some (length ?body)"
      using uint16_at_len16 [of ?body "length ?pre + 2" "?pre @ be16 0" ?post] body
      by (simp add: exts_bytes_def ext_bytes_def)
    have d: "slice (exts_bytes ch) (length ?pre + 4) (length ?pre + 4 + length ?body) = Some ?body"
      using slice_mid [of "length ?pre + 4" "?pre @ be16 0 @ be16 (word_of_nat (length ?body))" _ ?body ?post]
      by (simp add: exts_bytes_def ext_bytes_def len16_def)
    have len: "length ?pre + 4 + length ?body \<le> length (exts_bytes ch)"
      by (simp add: exts_bytes_def)
    have "parse_server_name ?body = Some (ch_name ch)"
      using ok nm by (intro parse_server_name_found) (simp_all add: hello_ok_def)
    then show ?thesis
      using len by (subst walk_exts.simps) (simp only: t l d bind.bind_lunit, simp)
  qed
  finally show ?thesis .
qed

lemma skip_len16:
  assumes "p = length pre" "length b \<le> 65535"
  shows "skip 2 (pre @ len16 b @ post) p e1 e2 cont = cont (p + 2 + length b)"
proof -
  have "len_at 2 (pre @ len16 b @ post) p = Some (length b)"
    using uint16_at_len16 [OF assms(2,1)] by (simp add: len_at_def)
  moreover have "\<not> length (pre @ len16 b @ post) < p + 2" "\<not> length (pre @ len16 b @ post) < p + 2 + length b"
    using assms(1) by simp_all
  ultimately show ?thesis
    unfolding skip_def by (simp only: bind.bind_lunit if_False)
qed

lemma skip_len8:
  assumes "p = length pre" "length b \<le> 255"
  shows "skip 1 (pre @ [word_of_nat (length b)] @ b @ post) p e1 e2 cont = cont (p + 1 + length b)"
proof -
  have "len_at 1 (pre @ [word_of_nat (length b)] @ b @ post) p = Some (length b)"
    using index_mid [OF assms(1), of "word_of_nat (length b)" "b @ post"] assms(2)
    by (simp add: len_at_def unat_of_nat)
  moreover have "\<not> length (pre @ [word_of_nat (length b)] @ b @ post) < p + 1"
    "\<not> length (pre @ [word_of_nat (length b)] @ b @ post) < p + 1 + length b"
    using assms(1) by simp_all
  ultimately show ?thesis
    unfolding skip_def by (simp only: bind.bind_lunit if_False)
qed

lemma hello_sizes:
  assumes "hello_ok ch"
  shows "length (hs_bytes ch) \<le> 16380" "length (exts_bytes ch) \<le> 16380" "length (ch_suites ch) \<le> 65535"
    "length (ch_session ch) \<le> 255" "length (ch_compress ch) \<le> 255"
    "length (ch_version ch @ ch_random ch) = 34"
  using assms by (auto simp: hello_ok_def hello_msg_def hs_bytes_def)

lemma parse_exts_found:
  assumes "hello_ok ch" "p = length pre"
  shows "parse_exts (pre @ len16 (exts_bytes ch)) p = Some (ch_name ch, None)"
proof -
  let ?x = "exts_bytes ch"
  have n: "uint16_at (pre @ len16 ?x) p = Some (length ?x)"
    using uint16_at_len16 [of ?x p pre "[]"] hello_sizes(2) [OF assms(1)] assms(2) by simp
  have d: "slice (pre @ len16 ?x) (p + 2) (p + 2 + length ?x) = Some ?x"
    using slice_mid [of "p + 2" "pre @ be16 (word_of_nat (length ?x))" _ ?x "[]"] assms(2)
    by (simp add: len16_def)
  have w: "walk_exts ?x 0 = Some (ch_name ch, None)"
    using walk_exts_found [OF assms(1)] hello_sizes(2) [OF assms(1)] by simp
  have "\<not> length (pre @ len16 ?x) < p + 2" "\<not> length (pre @ len16 ?x) < p + 2 + length ?x"
    using assms(2) by simp_all
  then show ?thesis
    unfolding parse_exts_def by (simp only: n d w bind.bind_lunit if_False)
qed

lemma parse_hs_found:
  assumes ok: "hello_ok ch"
  shows "parse_hs (hs_bytes ch) = Some (ch_name ch, None)"
proof -
  let ?hs = "hs_bytes ch"
  let ?a = "ch_version ch @ ch_random ch"
  let ?b = "?a @ [word_of_nat (length (ch_session ch))] @ ch_session ch"
  let ?c = "?b @ len16 (ch_suites ch)"
  let ?d = "?c @ [word_of_nat (length (ch_compress ch))] @ ch_compress ch"
  note len = hello_sizes [OF ok]
  have sid: "index_at ?hs (2 + 32) = Some (word_of_nat (length (ch_session ch)))"
    using index_mid [of 34 ?a] len(6) by (simp add: hs_bytes_def)
  have n: "unat (word_of_nat (length (ch_session ch)) :: byte) = length (ch_session ch)"
    using len(4) by (simp add: unat_of_nat)
  have big: "\<not> length ?hs < 2 + 32 + 1" "\<not> length ?hs < 35 + length (ch_session ch)"
    using len(6) by (simp_all add: hs_bytes_def)
  have s2: "skip 2 ?hs (35 + length (ch_session ch)) e1 e2 cont = cont (length ?c)" for e1 e2 cont
  proof -
    have q: "35 + length (ch_session ch) = length ?b" "length ?c = length ?b + 2 + length (ch_suites ch)"
      using len(6) by simp_all
    show ?thesis
      using skip_len16 [OF refl len(3), of ?b] unfolding q by (simp add: hs_bytes_def)
  qed
  have s1: "skip 1 ?hs (length ?c) e1 e2 cont = cont (length ?d)" for e1 e2 cont
  proof -
    have "?hs = ?c @ [word_of_nat (length (ch_compress ch))] @ ch_compress ch @ len16 (exts_bytes ch)"
      "length ?d = length ?c + 1 + length (ch_compress ch)"
      by (simp_all add: hs_bytes_def)
    then show ?thesis
      by (simp only: skip_len8 [OF refl len(5)])
  qed
  have "parse_exts ?hs (length ?d) = Some (ch_name ch, None)"
    using parse_exts_found [OF ok, of "length ?d" ?d] by (simp add: hs_bytes_def)
  then show ?thesis
    unfolding parse_hs_def by (simp only: sid n big s2 s1 bind.bind_lunit if_False)
qed

lemma unat_byte_drop: "unat (ucast (drop_bit n (w :: u32)) :: byte) = unat w div 2 ^ n mod 256"
proof -
  have "unat (drop_bit n w) = unat w div 2 ^ n"
    by (metis drop_bit_eq_div unat_drop_bit_eq)
  then show ?thesis
    by (simp add: unsigned_ucast_eq take_bit_eq_mod)
qed

lemma unat_be_word3:
  assumes "unat (w :: u32) < 2 ^ 24"
  shows "unat (word_be (be_word 3 w) :: u32) = unat w"
proof -
  have e: "be_word 3 w = [ucast (drop_bit 16 w), ucast (drop_bit 8 w), ucast (drop_bit 0 w)]"
    by (simp add: be_word_def upt_rec numeral_eq_Suc)
  have "unat (word_be (be_word 3 w) :: u32)
      = 256 * (256 * (unat w div 2 ^ 16 mod 256) + unat w div 2 ^ 8 mod 256) + unat w div 2 ^ 0 mod 256"
    using unat_word_be [where 'a = 32, of "be_word 3 w"]
    by (simp only: e foldl.simps unat_byte_drop list.size) simp
  also have "\<dots> = unat w"
  proof -
    let ?x = "unat w"
    have "?x div 2 ^ 16 mod 256 = ?x div 256 div 256"
      using assms by (simp add: div_mult2_eq [symmetric])
    moreover have "256 * (?x div 256 div 256) + ?x div 256 mod 256 = ?x div 256"
      by (rule mult_div_mod_eq)
    moreover have "256 * (?x div 256) + ?x mod 256 = ?x"
      by (rule mult_div_mod_eq)
    ultimately show ?thesis
      by simp
  qed
  finally show ?thesis .
qed

lemma parse_hello_found:
  assumes ok: "hello_ok ch"
  shows "parse_hello (hello_msg ch) = Some (ch_name ch, None)"
proof -
  let ?n = "length (hs_bytes ch)"
  obtain b1 b2 b3 where b: "be_word 3 (word_of_nat ?n :: u32) = [b1, b2, b3]"
    by (simp add: be_word_def upt_rec numeral_eq_Suc)
  have msg: "hello_msg ch = [1, b1, b2, b3] @ hs_bytes ch"
    by (simp add: hello_msg_def b)
  have n: "unat (word_of_nat ?n :: u32) = ?n"
    using hello_sizes(1) [OF ok] by (simp add: unat_of_nat)
  then have "unat (word_be (be_word 3 (word_of_nat ?n :: u32)) :: u32) = ?n"
    using hello_sizes(1) [OF ok] by (subst unat_be_word3) simp_all
  then have "unat (word_be [b1, b2, b3] :: u32) = ?n"
    by (simp add: b)
  then show ?thesis
    using parse_hs_found [OF ok] by (simp add: parse_hello_def msg Let_def)
qed

lemma record_len_hello:
  assumes "hello_ok ch"
  shows "record_len (hello_record ch @ rest) = length (hello_msg ch)"
    and "4 \<le> length (hello_msg ch)" and "length (hello_msg ch) \<le> 16384"
proof -
  have n: "length (hello_msg ch) \<le> 16384"
    using assms by (simp add: hello_ok_def)
  then have "unat (word_of_nat (length (hello_msg ch)) :: u16) = length (hello_msg ch)"
    by (intro unat_u16_of_nat) simp
  then show "record_len (hello_record ch @ rest) = length (hello_msg ch)"
    by (simp add: record_len_def hello_record_def len16_def)
  show "4 \<le> length (hello_msg ch)" "length (hello_msg ch) \<le> 16384"
    using n by (simp_all add: hello_msg_def)
qed

text \<open>C22. Peeking at a connection always returns and never panics, whatever the client sends and
  however it is cut into segments; name, replay bytes, error and the bytes left unread are the
  given function of the byte stream.\<close>

theorem peek_conn:
  "map_option (\<lambda>(r, c). (r, conn_content c)) (peekClientHelloSNI seg_read (segs, e))
     = Some (Some (fst (peek_spec (concat segs) e)), snd (peek_spec (concat segs) e))"
  using sock.peek_spec_refined [of "(segs, e)"] by (auto simp: conn_content_def)

lemma hello_peeked:
  assumes "hello_ok ch"
  shows "peek_spec (hello_record ch @ rest) e = (Peek (ch_name ch) (hello_record ch) None, rest)"
proof -
  note len = record_len_hello [OF assms]
  have all: "length (hello_record ch) = 5 + length (hello_msg ch)" "(hello_record ch @ rest) ! 0 = 0x16"
    by (simp_all add: hello_record_def)
  have body: "take (length (hello_msg ch)) (drop 5 (hello_record ch @ rest)) = hello_msg ch"
    by (simp add: hello_record_def len16_def)
  show ?thesis
    using len all body parse_hello_found [OF assms] by (simp add: peek_spec_def)
qed


definition sample_hello :: client_hello where
  "sample_hello = \<lparr>ch_version = [3, 3], ch_random = replicate 32 7, ch_session = [9], ch_suites = [19, 1],
     ch_compress = [0], ch_before = [(43, [2, 3, 4])], ch_name = ''ya.ru'', ch_after = [(16, [])]\<rparr>"


lemma peek_replay:
  assumes "peek_spec bs e = (Peek sni raw err, rest)"
  shows "raw @ rest =
    (if length bs < 5 then []
     else if handshake_header bs then bs @ replicate (5 + record_len bs - length bs) 0
     else bs)"
proof -
  obtain n er where "parse_hello (take (record_len bs) (drop 5 bs)) = Some (n, er)"
    using parse_hello_total [of "take (record_len bs) (drop 5 bs)"] by auto
  then show ?thesis
    using assms by (auto simp: peek_spec_def handshake_header_def split: if_splits)
qed

text \<open>The replay is transparent: what the peek kept followed by what it left unread is what
  the client sent, except when the stream ends inside the header (nothing is kept) or inside the
  record, and then the kept bytes are what arrived and zeros up to the announced length.\<close>

theorem peek_replay_transparent:
  assumes "peek_spec bs e = (Peek sni raw err, rest)"
  shows "raw @ rest =
    (if length bs < 5 then []
     else if handshake_header bs then bs @ replicate (5 + record_len bs - length bs) 0
     else bs)"
  using assms by (rule peek_replay)

theorem peek_replay_transparent_witness:
  "\<exists>sni err. peek_spec [0x16, 3, 1, 0, 6, 1, 0] EOF = (Peek sni [0x16, 3, 1, 0, 6, 1, 0, 0, 0, 0, 0] err, [])"
proof -
  obtain sni raw err rest where p: "peek_spec [0x16, 3, 1, 0, 6, 1, 0] EOF = (Peek sni raw err, rest)"
    by (metis peek.exhaust prod.exhaust)
  have "handshake_header [0x16, 3, 1, 0, 6, 1, 0]" "record_len [0x16, 3, 1, 0, 6, 1, 0] = 6"
    by code_simp+
  moreover have "rest = []"
    using p by (simp add: peek_spec_def record_len_def uint16_def)
  ultimately show ?thesis
    using peek_replay_transparent [OF p] p by (simp add: numeral_eq_Suc)
qed

end
