(* ===== verification/Noise.thy ===== *)
theory Noise
  imports IoCopy
begin

text \<open>
  The Noise NK handshake, \<^verbatim>\<open>pkg/auth/noise.go\<close>: the length-prefixed frames and the initiator's and
  responder's sides over a duplex stream. The library \<^verbatim>\<open>flynn/noise\<close> is a parameter, the record
  \<open>noise_lib\<close> of the four operations the code calls; \<open>nk_laws\<close> states what its documentation
  promises of an exchange in which every message arrives unchanged.
\<close>

record dh_key =
  Private :: bytes
  Public :: bytes

record noise_config =
  Initiator :: bool
  Prologue :: bytes
  PeerStatic :: bytes
  StaticKeypair :: "dh_key option"

text \<open>
  A message operation gives an error or the output, the two cipher states (\<open>None\<close> for \<^verbatim>\<open>nil\<close>, before
  the last message) and the new handshake state.
\<close>

type_synonym ('h, 'c) noise_step = "'h \<Rightarrow> bytes \<Rightarrow> string + bytes \<times> 'c option \<times> 'c option \<times> 'h"

record ('h, 'c) noise_lib =
  NewHandshakeState :: "noise_config \<Rightarrow> string + 'h"
  WriteMessage :: "('h, 'c) noise_step"
  ReadMessage :: "('h, 'c) noise_step"
  ChannelBinding :: "'h \<Rightarrow> bytes"

record 'c handshake_result =
  Send :: 'c
  Recv :: 'c
  Hash :: bytes
  Payload :: bytes

datatype noise_err =
    BadServerKey | NoiseInit string | NoiseWrite1 string | NoiseWrite2 string
  | NoiseRead1 string | NoiseRead2 string | SplitMissing
  | FrameTooLarge | FrameWrite io_err | FrameRead io_err | BadFrameSize nat

text \<open>\<^verbatim>\<open>StaticFromPriv\<close>; the curve operation is a parameter.\<close>

datatype key_err = BadPrivLength nat | DerivePub string

definition StaticFromPriv :: "(bytes \<Rightarrow> string + bytes) \<Rightarrow> bytes \<Rightarrow> key_err + dh_key" where
  "StaticFromPriv base_mult priv =
     (if length priv \<noteq> 32 then Inl (BadPrivLength (length priv))
      else (case base_mult priv of
              Inl e \<Rightarrow> Inl (DerivePub e)
            | Inr pub \<Rightarrow> Inr \<lparr>Private = priv, Public = pub\<rparr>))"

subsection \<open>Frames\<close>

definition writeFrame :: "'w writer \<Rightarrow> bytes \<Rightarrow> 'w \<Rightarrow> noise_err option \<times> 'w" where
  "writeFrame wr b w =
     (if 65535 < length b then (Some FrameTooLarge, w)
      else (case wr [word_of_nat (length b div 256), word_of_nat (length b)] w of
              (Some e, w') \<Rightarrow> (Some (FrameWrite e), w')
            | (None, w') \<Rightarrow>
                (case wr b w' of (e, w'') \<Rightarrow> (map_option FrameWrite e, w''))))"

definition readFrame :: "'s reader \<Rightarrow> ('s, noise_err, bytes) io" where
  "readFrame rd =
     io_bind (read_n rd FrameRead 2) (\<lambda>hdr.
       let n = unat (uint16 hdr) in
       if n = 0 \<or> 65535 < n then io_throw (BadFrameSize n)
       else read_n rd FrameRead n)"

subsection \<open>The two sides of the handshake\<close>

definition ClientHandshake ::
  "('h, 'c) noise_lib \<Rightarrow> 's reader \<Rightarrow> 'w writer \<Rightarrow> bytes \<Rightarrow> bytes \<Rightarrow> bytes \<Rightarrow> ('s, 'w) duplex
     \<Rightarrow> ((noise_err + 'c handshake_result) \<times> ('s, 'w) duplex) option" where
  "ClientHandshake lib rd wr server_pub prologue payload d =
     (if length server_pub \<noteq> 32 then Some (Inl BadServerKey, d)
      else
     (case NewHandshakeState lib
             \<lparr>Initiator = True, Prologue = prologue, PeerStatic = server_pub, StaticKeypair = None\<rparr> of
        Inl e \<Rightarrow> Some (Inl (NoiseInit e), d)
      | Inr hs \<Rightarrow>
     (case WriteMessage lib hs payload of
        Inl e \<Rightarrow> Some (Inl (NoiseWrite1 e), d)
      | Inr (msg1, _, _, hs1) \<Rightarrow>
     (case writeFrame wr msg1 (tx d) of
        (Some e, w) \<Rightarrow> Some (Inl e, d\<lparr>tx := w\<rparr>)
      | (None, w) \<Rightarrow>
     (case readFrame rd (rx d) of
        None \<Rightarrow> None
      | Some (Inl e, s) \<Rightarrow> Some (Inl e, d\<lparr>tx := w, rx := s\<rparr>)
      | Some (Inr msg2, s) \<Rightarrow>
     (case ReadMessage lib hs1 msg2 of
        Inl e \<Rightarrow> Some (Inl (NoiseRead2 e), d\<lparr>tx := w, rx := s\<rparr>)
      | Inr (pl, Some cs1, Some cs2, hs2) \<Rightarrow>
          Some (Inr \<lparr>Send = cs1, Recv = cs2, Hash = ChannelBinding lib hs2, Payload = pl\<rparr>, d\<lparr>tx := w, rx := s\<rparr>)
      | Inr _ \<Rightarrow> Some (Inl SplitMissing, d\<lparr>tx := w, rx := s\<rparr>)))))))"

definition ServerHandshake ::
  "('h, 'c) noise_lib \<Rightarrow> 's reader \<Rightarrow> 'w writer \<Rightarrow> dh_key \<Rightarrow> bytes \<Rightarrow> bytes \<Rightarrow> ('s, 'w) duplex
     \<Rightarrow> ((noise_err + 'c handshake_result) \<times> ('s, 'w) duplex) option" where
  "ServerHandshake lib rd wr static prologue reply d =
     (case NewHandshakeState lib
             \<lparr>Initiator = False, Prologue = prologue, PeerStatic = [], StaticKeypair = Some static\<rparr> of
        Inl e \<Rightarrow> Some (Inl (NoiseInit e), d)
      | Inr hs \<Rightarrow>
     (case readFrame rd (rx d) of
        None \<Rightarrow> None
      | Some (Inl e, s) \<Rightarrow> Some (Inl e, d\<lparr>rx := s\<rparr>)
      | Some (Inr msg1, s) \<Rightarrow>
     (case ReadMessage lib hs msg1 of
        Inl e \<Rightarrow> Some (Inl (NoiseRead1 e), d\<lparr>rx := s\<rparr>)
      | Inr (client_payload, _, _, hs1) \<Rightarrow>
     (case WriteMessage lib hs1 reply of
        Inl e \<Rightarrow> Some (Inl (NoiseWrite2 e), d\<lparr>rx := s\<rparr>)
      | Inr (msg2, cs1, cs2, hs2) \<Rightarrow>
     (case writeFrame wr msg2 (tx d) of
        (Some e, w) \<Rightarrow> Some (Inl e, d\<lparr>rx := s, tx := w\<rparr>)
      | (None, w) \<Rightarrow>
     (case (cs1, cs2) of
        (Some c1, Some c2) \<Rightarrow>
          Some (Inr \<lparr>Send = c2, Recv = c1, Hash = ChannelBinding lib hs2, Payload = client_payload\<rparr>, d\<lparr>rx := s, tx := w\<rparr>)
      | _ \<Rightarrow> Some (Inl SplitMissing, d\<lparr>rx := s, tx := w\<rparr>)))))))"

declare writeFrame_def [go_defs] readFrame_def [go_defs]

subsection \<open>Frames as bytes\<close>

definition frame :: "bytes \<Rightarrow> bytes" where
  "frame b = be16 (word_of_nat (length b)) @ b"

lemma frame_header: "[word_of_nat (n div 256), word_of_nat n] = be16 (word_of_nat n)"
proof -
  have "n div 256 = drop_bit 8 n"
    by (simp add: drop_bit_eq_div)
  then have "(word_of_nat (n div 256) :: byte) = ucast (drop_bit 8 (word_of_nat n :: u16))"
    by (simp only:) (rule bit_word_eqI, auto simp: bit_simps)
  moreover have "(word_of_nat n :: byte) = ucast (word_of_nat n :: u16)"
    by (rule bit_word_eqI) (auto simp: bit_simps)
  ultimately show ?thesis
    by (simp add: be16_def)
qed

lemma length_frame [simp]: "length (frame b) = 2 + length b"
  by (simp add: frame_def)

definition parse_frame :: "(noise_err, bytes) parser" where
  "parse_frame = (\<lambda>(bs, e).
     if length bs < 2 then (Inl (FrameRead (short e bs)), ([], e))
     else let n = unat (uint16 (take 2 bs)); rest = drop 2 bs in
       if n = 0 then (Inl (BadFrameSize 0), (rest, e))
       else if length rest < n then (Inl (FrameRead (short e rest)), ([], e))
       else (Inr (take n rest), (drop n rest, e)))"

lemma parse_frame_frame:
  assumes "b \<noteq> []" "length b \<le> 65535"
  shows "parse_frame (frame b @ rest, e) = (Inr b, (rest, e))"
proof -
  have "unat (word_of_nat (length b) :: u16) = length b"
    using assms(2) by (simp add: unat_of_nat)
  then show ?thesis
    using assms(1) by (simp add: parse_frame_def frame_def)
qed

context byte_source
begin

lemma readFrame_refines: "refines (readFrame rd) parse_frame"
proof -
  let ?p = "st_bind (stream_n FrameRead 2) (\<lambda>hdr.
       if unat (uint16 hdr) = 0 \<or> 65535 < unat (uint16 hdr) then st_throw (BadFrameSize (unat (uint16 hdr)))
       else stream_n FrameRead (unat (uint16 hdr)))"
  have "refines (readFrame rd) ?p"
    unfolding readFrame_def Let_def by (intro refines_intros)
  moreover have "?p = parse_frame"
  proof
    fix st :: stream
    obtain bs e where "st = (bs, e)"
      by fastforce
    moreover have "\<not> 65535 < unat (w :: u16)" for w
    proof -
      have "unat w < 2 ^ LENGTH(16)"
        by (rule unsigned_less)
      then show ?thesis
        by simp
    qed
    ultimately show "?p st = parse_frame st"
      by (simp add: parse_frame_def stream_n_eq st_bind_def st_throw_def Let_def)
  qed
  ultimately show ?thesis
    by simp
qed

end

context byte_sink
begin

lemma writeFrame_ok: "writeFrame wr b w = (None, w') \<Longrightarrow> length b \<le> 65535 \<and> written w' = written w @ frame b"
  using write_ok by (fastforce simp: writeFrame_def frame_header frame_def split: if_splits prod.splits option.splits)

end

lemma readFrame_conn:
  "\<exists>r c'. readFrame seg_read c = Some (r, c') \<and> parse_frame (conn_content c, snd c) = (r, (conn_content c', snd c'))"
  using sock.readFrame_refines unfolding sock.refines_def sock.view_def by blast

lemma writeFrame_open:
  "length b \<le> 65535 \<Longrightarrow> writeFrame peer_write b (w, None) = (None, (w @ frame b, None))"
  by (simp add: writeFrame_def peer_write_def frame_header frame_def)

subsection \<open>Properties\<close>

text \<open>Frame round trip: what \<open>writeFrame\<close> wrote without an error is what \<open>readFrame\<close> reads from
  any segmentation of it, with the rest of the stream left; except that an empty frame, which
  \<open>writeFrame\<close> sends, is refused by \<open>readFrame\<close>.\<close>

theorem frame_round_trip:
  assumes "writeFrame peer_write b w = (None, w')" and "fst w @ concat segs = fst w' @ rest"
  shows "\<exists>segs'. readFrame seg_read (segs, e)
     = Some (if b = [] then Inl (BadFrameSize 0) else Inr b, (segs', e)) \<and> concat segs' = rest"
proof -
  have b: "length b \<le> 65535" "concat segs = frame b @ rest"
    using peer.writeFrame_ok [OF assms(1)] assms(2) by simp_all
  obtain r c where c: "readFrame seg_read (segs, e) = Some (r, c)"
    "parse_frame (frame b @ rest, e) = (r, (conn_content c, snd c))"
    using readFrame_conn [of "(segs, e)"] b(2) by (auto simp: conn_content_def)
  have "parse_frame (frame b @ rest, e) = (if b = [] then Inl (BadFrameSize 0) else Inr b, (rest, e))"
    using parse_frame_frame [OF _ b(1)] by (simp add: parse_frame_def frame_def)
  with c show ?thesis
    by (cases c) (auto simp: conn_content_def)
qed

theorem frame_round_trip_witness:
  "\<exists>segs'. readFrame seg_read ([[0], [3, 1], [2, 3, 9]], EOF) = Some (Inr [1, 2, 3], (segs', EOF)) \<and> concat segs' = [9]"
  using frame_round_trip [of "[1, 2, 3]" "([], None)" "([0, 3, 1, 2, 3], None)" "[[0], [3, 1], [2, 3, 9]]" "[9]" EOF]
  by (simp add: writeFrame_def peer_write_def)

text \<open>
  What the Noise library promises for an NK exchange whose messages arrive unchanged: both sides
  accept, the second message splits into the same pair of cipher states, the payloads come
  through, the transcript hashes agree; a message is never empty and fits a Noise message.
\<close>

definition nk_completes :: "('h, 'c) noise_lib \<Rightarrow> dh_key \<Rightarrow> bytes \<Rightarrow> bytes \<Rightarrow> bytes \<Rightarrow> bool" where
  "nk_completes lib static prologue p1 p2 \<longleftrightarrow>
     (\<exists>hc hs m1 m2 hc1 hs1 hc2 hs2 c1 c2.
        NewHandshakeState lib \<lparr>Initiator = True, Prologue = prologue, PeerStatic = Public static, StaticKeypair = None\<rparr> = Inr hc
      \<and> NewHandshakeState lib \<lparr>Initiator = False, Prologue = prologue, PeerStatic = [], StaticKeypair = Some static\<rparr> = Inr hs
      \<and> WriteMessage lib hc p1 = Inr (m1, None, None, hc1) \<and> ReadMessage lib hs m1 = Inr (p1, None, None, hs1)
      \<and> WriteMessage lib hs1 p2 = Inr (m2, Some c1, Some c2, hs2) \<and> ReadMessage lib hc1 m2 = Inr (p2, Some c1, Some c2, hc2)
      \<and> ChannelBinding lib hc2 = ChannelBinding lib hs2
      \<and> length m1 \<in> {1..65535} \<and> length m2 \<in> {1..65535})"

lemma readFrame_segs:
  assumes "concat segs = frame b @ rest" "length b \<in> {1..65535}"
  shows "\<exists>segs'. readFrame seg_read (segs, e) = Some (Inr b, (segs', e)) \<and> concat segs' = rest"
proof -
  have "b \<noteq> []"
    using assms(2) by auto
  moreover obtain r c where c: "readFrame seg_read (segs, e) = Some (r, c)"
    "parse_frame (frame b @ rest, e) = (r, (conn_content c, snd c))"
    using readFrame_conn [of "(segs, e)"] assms(1) by (auto simp: conn_content_def)
  ultimately show ?thesis
    using parse_frame_frame [of b rest e] assms(2) by (cases c) (auto simp: conn_content_def)
qed

text \<open>Client and server complete the handshake with each other, whatever the segmentation and
  whatever follows the handshake on either direction: same transcript hash (the channel binding that
  tokens are bound to), the one's \<open>Send\<close> is the other's \<open>Recv\<close>, payloads delivered, one frame
  written each, and nothing of what follows is consumed.\<close>

theorem handshake_agrees:
  assumes "nk_completes lib static prologue p1 p2" and "length (Public static) = 32"
  shows "\<exists>m1 m2 cr sr. \<forall>segs1 segs2 x y e1 e2 w1 w2. concat segs1 = frame m1 @ x \<and> concat segs2 = frame m2 @ y \<longrightarrow>
     (\<exists>segs1' segs2'.
        ClientHandshake lib seg_read peer_write (Public static) prologue p1 \<lparr>rx = (segs2, e2), tx = (w1, None)\<rparr>
          = Some (Inr cr, \<lparr>rx = (segs2', e2), tx = (w1 @ frame m1, None)\<rparr>)
      \<and> ServerHandshake lib seg_read peer_write static prologue p2 \<lparr>rx = (segs1, e1), tx = (w2, None)\<rparr>
          = Some (Inr sr, \<lparr>rx = (segs1', e1), tx = (w2 @ frame m2, None)\<rparr>)
      \<and> concat segs1' = x \<and> concat segs2' = y
      \<and> Hash cr = Hash sr \<and> Send cr = Recv sr \<and> Recv cr = Send sr \<and> Payload cr = p2 \<and> Payload sr = p1)"
proof -
  obtain hc hs m1 m2 hc1 hs1 hc2 hs2 c1 c2 where lib:
    "NewHandshakeState lib \<lparr>Initiator = True, Prologue = prologue, PeerStatic = Public static, StaticKeypair = None\<rparr> = Inr hc"
    "NewHandshakeState lib \<lparr>Initiator = False, Prologue = prologue, PeerStatic = [], StaticKeypair = Some static\<rparr> = Inr hs"
    "WriteMessage lib hc p1 = Inr (m1, None, None, hc1)" "ReadMessage lib hs m1 = Inr (p1, None, None, hs1)"
    "WriteMessage lib hs1 p2 = Inr (m2, Some c1, Some c2, hs2)" "ReadMessage lib hc1 m2 = Inr (p2, Some c1, Some c2, hc2)"
    "ChannelBinding lib hc2 = ChannelBinding lib hs2" "length m1 \<in> {1..65535}" "length m2 \<in> {1..65535}"
    using assms(1) unfolding nk_completes_def by blast
  let ?cr = "\<lparr>Send = c1, Recv = c2, Hash = ChannelBinding lib hc2, Payload = p2\<rparr>"
  let ?sr = "\<lparr>Send = c2, Recv = c1, Hash = ChannelBinding lib hs2, Payload = p1\<rparr>"
  have "\<exists>segs2'. ClientHandshake lib seg_read peer_write (Public static) prologue p1 \<lparr>rx = (segs2, e2), tx = (w1, None)\<rparr>
      = Some (Inr ?cr, \<lparr>rx = (segs2', e2), tx = (w1 @ frame m1, None)\<rparr>) \<and> concat segs2' = y"
    if seg: "concat segs2 = frame m2 @ y" for segs2 y e2 w1
  proof -
    obtain segs2' where "readFrame seg_read (segs2, e2) = Some (Inr m2, (segs2', e2))" "concat segs2' = y"
      using readFrame_segs [OF seg lib(9)] by blast
    then show ?thesis
      using lib assms(2) by (simp add: ClientHandshake_def writeFrame_open)
  qed
  moreover have "\<exists>segs1'. ServerHandshake lib seg_read peer_write static prologue p2 \<lparr>rx = (segs1, e1), tx = (w2, None)\<rparr>
      = Some (Inr ?sr, \<lparr>rx = (segs1', e1), tx = (w2 @ frame m2, None)\<rparr>) \<and> concat segs1' = x"
    if seg: "concat segs1 = frame m1 @ x" for segs1 x e1 w2
  proof -
    obtain segs1' where "readFrame seg_read (segs1, e1) = Some (Inr m1, (segs1', e1))" "concat segs1' = x"
      using readFrame_segs [OF seg lib(8)] by blast
    then show ?thesis
      using lib by (simp add: ServerHandshake_def writeFrame_open)
  qed
  moreover have "Hash ?cr = Hash ?sr" "Send ?cr = Recv ?sr" "Recv ?cr = Send ?sr" "Payload ?cr = p2" "Payload ?sr = p1"
    using lib(7) by simp_all
  ultimately show ?thesis
    by (intro exI [of _ m1] exI [of _ m2] exI [of _ ?cr] exI [of _ ?sr]) blast
qed

text \<open>A library that exchanges its payloads in the clear behind a tag, for the witnesses: its state is
  the transcript and a message that does not start with the tag is refused.\<close>

definition plain_write :: "bytes \<Rightarrow> bytes \<Rightarrow> string + bytes \<times> nat option \<times> nat option \<times> bytes" where
  "plain_write h p = (let cs = (if h = [] then None else Some (length h)) in
     Inr (77 # p, cs, map_option Suc cs, h @ 77 # p))"

definition plain_read :: "bytes \<Rightarrow> bytes \<Rightarrow> string + bytes \<times> nat option \<times> nat option \<times> bytes" where
  "plain_read h m =
     (if m = [] \<or> hd m \<noteq> 77 then Inl ''bad tag''
      else let cs = (if h = [] then None else Some (length h)) in
        Inr (tl m, cs, map_option Suc cs, h @ m))"

definition plain_lib :: "(bytes, nat) noise_lib" where
  "plain_lib = \<lparr>NewHandshakeState = (\<lambda>_. Inr []), WriteMessage = plain_write, ReadMessage = plain_read,
     ChannelBinding = (\<lambda>h. h)\<rparr>"

definition sample_key :: dh_key where
  "sample_key = \<lparr>Private = replicate 32 1, Public = replicate 32 2\<rparr>"

lemma plain_completes: "nk_completes plain_lib sample_key [1] [2] [3]"
  by (simp add: nk_completes_def plain_lib_def plain_write_def plain_read_def)

theorem handshake_agrees_witness:
  "\<exists>m1 m2 cr sr segs1' segs2'.
     ClientHandshake plain_lib seg_read peer_write (Public sample_key) [1] [2] \<lparr>rx = ([frame m2], EOF), tx = ([], None)\<rparr>
       = Some (Inr cr, \<lparr>rx = (segs2', EOF), tx = (frame m1, None)\<rparr>)
   \<and> ServerHandshake plain_lib seg_read peer_write sample_key [1] [3] \<lparr>rx = ([frame m1], EOF), tx = ([], None)\<rparr>
       = Some (Inr sr, \<lparr>rx = (segs1', EOF), tx = (frame m2, None)\<rparr>)
   \<and> Hash cr = Hash sr"
proof -
  have "length (Public sample_key) = 32"
    by code_simp
  from handshake_agrees [OF plain_completes this] obtain m1 m2 cr sr where
    "\<And>segs1 segs2 x y e1 e2 w1 w2. concat segs1 = frame m1 @ x \<and> concat segs2 = frame m2 @ y \<Longrightarrow>
     (\<exists>segs1' segs2'.
        ClientHandshake plain_lib seg_read peer_write (Public sample_key) [1] [2] \<lparr>rx = (segs2, e2), tx = (w1, None)\<rparr>
          = Some (Inr cr, \<lparr>rx = (segs2', e2), tx = (w1 @ frame m1, None)\<rparr>)
      \<and> ServerHandshake plain_lib seg_read peer_write sample_key [1] [3] \<lparr>rx = (segs1, e1), tx = (w2, None)\<rparr>
          = Some (Inr sr, \<lparr>rx = (segs1', e1), tx = (w2 @ frame m2, None)\<rparr>)
      \<and> concat segs1' = x \<and> concat segs2' = y
      \<and> Hash cr = Hash sr \<and> Send cr = Recv sr \<and> Recv cr = Send sr \<and> Payload cr = [3] \<and> Payload sr = [2])"
    by blast
  from this [of "[frame m1]" "[]" "[frame m2]" "[]" EOF "[]" EOF "[]"] show ?thesis
    by simp blast
qed

lemma handshake_returns:
  "\<exists>r d'. ServerHandshake lib seg_read peer_write static prologue reply d = Some (r, d')"
proof -
  obtain r c where "readFrame seg_read (rx d) = Some (r, c)"
    using readFrame_conn by blast
  then show ?thesis
    by (auto simp: ServerHandshake_def split: sum.split prod.split option.split)
qed

text \<open>C26. The responder is silent to a peer that does not know the server's key: the handshake always
  returns, and it has written nothing unless the peer's bytes start with a frame that the Noise
  library accepted as a first message.\<close>

theorem server_silent_to_probes:
  assumes "tx d' \<noteq> tx d \<or> (\<exists>hr. r = Inr hr)"
    and "ServerHandshake lib seg_read peer_write static prologue reply d = Some (r, d')"
  shows "\<exists>hs msg rest res. NewHandshakeState lib
          \<lparr>Initiator = False, Prologue = prologue, PeerStatic = [], StaticKeypair = Some static\<rparr> = Inr hs
     \<and> parse_frame (conn_content (rx d), snd (rx d)) = (Inr msg, rest)
     \<and> ReadMessage lib hs msg = Inr res"
proof -
  obtain r1 c where c: "readFrame seg_read (rx d) = Some (r1, c)"
    "parse_frame (conn_content (rx d), snd (rx d)) = (r1, (conn_content c, snd c))"
    using readFrame_conn by blast
  show ?thesis
    using assms c by (auto simp: ServerHandshake_def split: sum.splits)
qed

theorem server_silent_to_probes_witness:
  "\<exists>msg rest res. parse_frame ([0, 1, 77], EOF) = (Inr msg, rest) \<and> plain_read [] msg = Inr res"
proof -
  let ?d = "\<lparr>rx = ([[0, 1, 77]], EOF), tx = ([], None)\<rparr> :: (conn, peer) duplex"
  obtain r d' where r: "ServerHandshake plain_lib seg_read peer_write sample_key [1] [3] ?d = Some (r, d')"
    using handshake_returns by blast
  obtain segs' where "readFrame seg_read ([[0, 1, 77]], EOF) = Some (Inr [77], (segs', EOF))"
    using readFrame_segs [of "[[0, 1, 77]]" "[77]" "[]" EOF] by (auto simp: frame_def be16_def)
  then have "\<exists>hr. r = Inr hr"
    using r by (auto simp: ServerHandshake_def plain_lib_def plain_read_def plain_write_def writeFrame_open)
  then show ?thesis
    using server_silent_to_probes [OF disjI2 r] by (simp add: plain_lib_def)
qed

end
