(* ===== verification/TcpServer.thy ===== *)
theory TcpServer
  imports Sni Noise Tunnel
begin

text \<open>
  One connection of the TCP transport, \<^verbatim>\<open>pkg/transport/tcp/server.go\<close>: \<^verbatim>\<open>peekConn\<close>,
  \<^verbatim>\<open>isMagicSNI\<close>, \<^verbatim>\<open>handleConn\<close> and \<^verbatim>\<open>forwardDecoy\<close>.

  A handler gives the list of its visible actions in order, \<open>None\<close> when it never returns. The TLS
  library is a parameter, \<open>tls\<close>: from the connection it is given it makes an error or the plaintext
  stream, which \<open>trd\<close> and \<open>twr\<close> read and write. The dial of the decoy, which of the two copies
  ends first, and whether the accept queue takes the stream before the server is closed are
  arguments too.
\<close>

subsection \<open>The connection with replayed bytes\<close>

definition peek_read :: "'s reader \<Rightarrow> (bytes \<times> 's) reader" where
  "peek_read rd k p =
     (case p of (replay, s) \<Rightarrow>
        if replay \<noteq> [] then (take k replay, None, (drop k replay, s))
        else (case rd k s of (got, e, s') \<Rightarrow> (got, e, ([], s'))))"

text \<open>A connection with replayed bytes is a byte source again, of the replay and then the rest.\<close>

locale peeked = byte_source

sublocale peeked \<subseteq> pre: byte_source "peek_read rd" "\<lambda>(replay, s). replay @ content s"
  "\<lambda>(replay, s). final s" "\<lambda>(replay, s). length replay + pending s"
proof unfold_locales
  fix k p got p'
  assume k: "0 < (k :: nat)" and r: "peek_read rd k p = (got, None, p')"
  obtain replay s where p: "p = (replay, s)"
    by fastforce
  show "(case p of (replay, s) \<Rightarrow> replay @ content s) = got @ (case p' of (replay, s) \<Rightarrow> replay @ content s)
      \<and> length got \<le> k \<and> (case p' of (replay, s) \<Rightarrow> final s) = (case p of (replay, s) \<Rightarrow> final s)
      \<and> (case p' of (replay, s) \<Rightarrow> length replay + pending s) < (case p of (replay, s) \<Rightarrow> length replay + pending s)"
  proof (cases "replay = []")
    case True
    then show ?thesis
      using r k read_ok [OF k] by (auto simp: p peek_read_def split: prod.splits)
  next
    case False
    then have "got = take k replay" "p' = (drop k replay, s)"
      using r by (auto simp: p peek_read_def)
    then show ?thesis
      using k False by (simp add: p)
  qed
next
  fix k p got e p'
  assume k: "0 < (k :: nat)" and r: "peek_read rd k p = (got, Some e, p')"
  then show "(case p of (replay, s) \<Rightarrow> replay @ content s) = got \<and> length got \<le> k
      \<and> e = (case p of (replay, s) \<Rightarrow> final s) \<and> (case p' of (replay, s) \<Rightarrow> replay @ content s) = []
      \<and> (case p' of (replay, s) \<Rightarrow> final s) = (case p of (replay, s) \<Rightarrow> final s)"
    using read_err [OF k] by (auto simp: peek_read_def split: prod.splits if_splits)
qed

interpretation front: peeked seg_read conn_content snd conn_pending
  by unfold_locales

subsection \<open>The handler\<close>

record tcp_config =
  NoiseStatic :: dh_key
  NoisePrologue :: bytes
  DecoyAddr :: string
  magicSNIs :: "string list"

definition isMagicSNI :: "tcp_config \<Rightarrow> string \<Rightarrow> bool" where
  "isMagicSNI cfg sni = (if magicSNIs cfg = [] then True else sni \<in> set (magicSNIs cfg))"

text \<open>\<open>SetDeadline (Some n)\<close> is a deadline \<open>n\<close> seconds from now, \<open>SetDeadline None\<close> clears it.\<close>

datatype ('w, 't, 'v) conn_act =
    SetDeadline "nat option" | DialDecoy string | SpliceDecoy 'w 'w | CloseDecoy
  | CloseConn | CloseTLS | Deliver "('t, 'v) tstream" | Panic

text \<open>Which copy of the decoy splice ends first, and after how many rounds the other one is cut.\<close>

datatype race = UpFirst nat | DownFirst nat

definition forwardDecoy ::
  "tcp_config \<Rightarrow> 's reader \<Rightarrow> 'w writer \<Rightarrow> (string \<Rightarrow> io_err + ('s, 'w) duplex) \<Rightarrow> race
     \<Rightarrow> (bytes \<times> 's, 'w) duplex \<Rightarrow> ('w, 't, 'v) conn_act list option" where
  "forwardDecoy cfg rd wr dial race c =
     (if DecoyAddr cfg = [] then Some [CloseConn]
      else (case dial (DecoyAddr cfg) of
              Inl _ \<Rightarrow> Some [DialDecoy (DecoyAddr cfg), CloseConn]
            | Inr d \<Rightarrow>
                map_option (\<lambda>(up, down).
                    [DialDecoy (DecoyAddr cfg), SetDeadline None, SpliceDecoy up down, CloseDecoy, CloseConn])
                  (case race of
                     UpFirst n \<Rightarrow>
                       map_option (\<lambda>(_, _, up). (up, copy_rounds n rd wr (rx d) (tx c)))
                         (io_copy (peek_read rd) wr (rx c) (tx d))
                   | DownFirst n \<Rightarrow>
                       map_option (\<lambda>(_, _, down). (copy_rounds n (peek_read rd) wr (rx c) (tx d), down))
                         (io_copy rd wr (rx d) (tx c)))))"

definition terminate_tls ::
  "tcp_config \<Rightarrow> ('h, 'c) noise_lib \<Rightarrow> 't reader \<Rightarrow> 'v writer \<Rightarrow> io_err + ('t, 'v) duplex \<Rightarrow> bool
     \<Rightarrow> ('w, 't, 'v) conn_act list option" where
  "terminate_tls cfg lib trd twr tls_result queued =
     (case tls_result of
        Inl _ \<Rightarrow> Some [CloseConn]
      | Inr t \<Rightarrow>
     (case ServerHandshake lib trd twr (NoiseStatic cfg) (NoisePrologue cfg) (bytes_of ''avangard-srv-hello'') t of
        None \<Rightarrow> None
      | Some (Inl _, _) \<Rightarrow> Some [CloseTLS]
      | Some (Inr hr, t') \<Rightarrow> Some [SetDeadline None, if queued then Deliver (as_tunnel t' (Hash hr)) else CloseTLS]))"

definition handleConn ::
  "tcp_config \<Rightarrow> ('h, 'c) noise_lib \<Rightarrow> 's reader \<Rightarrow> 'w writer
     \<Rightarrow> ((bytes \<times> 's, 'w) duplex \<Rightarrow> io_err + ('t, 'v) duplex) \<Rightarrow> 't reader \<Rightarrow> 'v writer
     \<Rightarrow> (string \<Rightarrow> io_err + ('s, 'w) duplex) \<Rightarrow> race \<Rightarrow> bool \<Rightarrow> ('s, 'w) duplex \<Rightarrow> ('w, 't, 'v) conn_act list option" where
  "handleConn cfg lib rd wr tls trd twr dial race queued c =
     map_option (\<lambda>acts. SetDeadline (Some 10) # acts)
     (case peekClientHelloSNI (peek_read rd) ([], rx c) of
        None \<Rightarrow> None
      | Some (None, _) \<Rightarrow> Some [Panic]
      | Some (Some (Peek sni raw err), (_, s)) \<Rightarrow>
          if err \<noteq> None \<and> raw = [] then Some [CloseConn]
          else
            let pre = \<lparr>rx = (raw, s), tx = tx c\<rparr> in
            if \<not> isMagicSNI cfg sni then forwardDecoy cfg rd wr dial race pre
            else map_option (\<lambda>acts. SetDeadline (Some 15) # acts)
                   (terminate_tls cfg lib trd twr (tls pre) queued))"

subsection \<open>Peeking through the wrapper\<close>

abbreviation unreplayed :: "'a \<times> 's \<Rightarrow> 'a \<times> bytes \<times> 's" where
  "unreplayed p \<equiv> (case p of (r, s) \<Rightarrow> (r, [], s))"

context byte_source
begin

lemma read_loop_unreplayed:
  "read_loop (peek_read rd) n acc ([], s)
     = map_option (\<lambda>(got, e, t). (got, e, ([], t))) (read_loop rd n acc s)"
proof (induction "pending s" arbitrary: acc s rule: less_induct)
  case less
  show ?case
  proof (cases "n \<le> length acc")
    case True
    then show ?thesis
      by (simp add: read_loop.simps)
  next
    case False
    then have pos: "0 < n - length acc"
      by simp
    obtain got e t where rd: "rd (n - length acc) s = (got, e, t)"
      by (metis prod_cases3)
    then have pr: "peek_read rd (n - length acc) ([], s) = (got, e, ([], t))"
      by (simp add: peek_read_def)
    show ?thesis
    proof (cases e)
      case None
      then have "pending t < pending s"
        using read_ok [OF pos] rd by blast
      then show ?thesis
        using less.hyps None False
        by (subst (1 2) read_loop.simps) (simp add: rd pr)
    next
      case (Some err)
      then show ?thesis
        using False by (subst (1 2) read_loop.simps) (simp add: rd pr)
    qed
  qed
qed

lemma peek_unreplayed:
  "peekClientHelloSNI (peek_read rd) ([], s) = map_option unreplayed (peekClientHelloSNI rd s)"
  unfolding peekClientHelloSNI_def read_full_def read_loop_unreplayed Let_def
  by (auto simp: read_loop_unreplayed split: option.split)

end

text \<open>What the peek of \<open>handleConn\<close> leaves: the parts of \<open>peek_spec\<close> and the unread connection.\<close>

lemma peek_handle:
  obtains sni raw err c' where
    "peekClientHelloSNI (peek_read seg_read) ([], c) = Some (Some (Peek sni raw err), ([], c'))"
    "peek_spec (conn_content c) (snd c) = (Peek sni raw err, conn_content c')" "snd c' = snd c"
proof -
  obtain c' where "peekClientHelloSNI seg_read c = Some (Some (fst (peek_spec (conn_content c) (snd c))), c')"
    "conn_content c' = snd (peek_spec (conn_content c) (snd c))" "snd c' = snd c"
    using sock.peek_spec_refined by blast
  moreover obtain sni raw err where "fst (peek_spec (conn_content c) (snd c)) = Peek sni raw err"
    by (metis peek.exhaust)
  ultimately show ?thesis
    using that [of sni raw err c'] by (simp add: sock.peek_unreplayed prod_eq_iff)
qed

text \<open>How a splice with the decoy leaves the two peers: \<open>up\<close> is the decoy's, \<open>down\<close> the client's; the
  copy that ended first is complete, the other one a prefix.\<close>

definition spliced :: "race \<Rightarrow> (bytes \<times> conn, peer) duplex \<Rightarrow> (conn, peer) duplex \<Rightarrow> peer \<Rightarrow> peer \<Rightarrow> bool" where
  "spliced race c d up down \<longleftrightarrow>
     (let from_client = fst (rx c) @ conn_content (snd (rx c)); from_decoy = conn_content (rx d) in
        (\<exists>n. fst up = fst (tx d) @ take n from_client)
      \<and> (\<exists>n. fst down = fst (tx c) @ take n from_decoy)
      \<and> (case race of UpFirst _ \<Rightarrow> delivered (tx d) from_client up
                    | DownFirst _ \<Rightarrow> delivered (tx c) from_decoy down))"

lemma forwardDecoy_cases:
  obtains (no_decoy) "DecoyAddr cfg = []" "forwardDecoy cfg seg_read peer_write dial race c = Some [CloseConn]"
    | (no_dial) e where "DecoyAddr cfg \<noteq> []" "dial (DecoyAddr cfg) = Inl e"
        "forwardDecoy cfg seg_read peer_write dial race c = Some [DialDecoy (DecoyAddr cfg), CloseConn]"
    | (splice) d up down where "DecoyAddr cfg \<noteq> []" "dial (DecoyAddr cfg) = Inr d"
        "forwardDecoy cfg seg_read peer_write dial race c
           = Some [DialDecoy (DecoyAddr cfg), SetDeadline None, SpliceDecoy up down, CloseDecoy, CloseConn]"
        "spliced race c d up down"
proof (cases "DecoyAddr cfg = []")
  case True
  then show ?thesis
    using no_decoy by (simp add: forwardDecoy_def)
next
  case some: False
  show ?thesis
  proof (cases "dial (DecoyAddr cfg)")
    case (Inl e)
    then show ?thesis
      using no_dial some by (simp add: forwardDecoy_def)
  next
    case (Inr d)
    let ?from = "fst (rx c) @ conn_content (snd (rx c))"
    obtain e1 c1 up where up: "io_copy (peek_read seg_read) peer_write (rx c) (tx d) = Some (e1, c1, up)"
      "delivered (tx d) ?from up"
      using front.pre.io_copy_delivered [of "rx c" "tx d"] by (auto simp: split_beta)
    obtain e2 c2 down where down: "io_copy seg_read peer_write (rx d) (tx c) = Some (e2, c2, down)"
      "delivered (tx c) (conn_content (rx d)) down"
      using sock.io_copy_delivered by blast
    obtain k m where cut: "fst (copy_rounds n (peek_read seg_read) peer_write (rx c) (tx d)) = fst (tx d) @ take (k n) ?from"
      "fst (copy_rounds n seg_read peer_write (rx d) (tx c)) = fst (tx c) @ take (m n) (conn_content (rx d))" for n
      using front.pre.to_peer.copy_rounds_prefix [of "rx c" _ "tx d"] sock.to_peer.copy_rounds_prefix [of "rx d" _ "tx c"]
      unfolding split_beta by metis
    show ?thesis
      by (cases race; rule splice [OF some Inr])
        (use up down cut in \<open>auto simp: forwardDecoy_def some Inr spliced_def Let_def delivered_def\<close>)
  qed
qed

lemma terminate_tls_cases:
  obtains (failed) e where "tls_result = Inl e"
      "terminate_tls cfg lib seg_read peer_write tls_result queued = Some [CloseConn]"
    | (refused) t where "tls_result = Inr t"
        "terminate_tls cfg lib seg_read peer_write tls_result queued = Some [CloseTLS]"
    | (ok) t hr t' where "tls_result = Inr t"
        "ServerHandshake lib seg_read peer_write (NoiseStatic cfg) (NoisePrologue cfg)
           (bytes_of ''avangard-srv-hello'') t = Some (Inr hr, t')"
        "terminate_tls cfg lib seg_read peer_write tls_result queued
           = Some [SetDeadline None, if queued then Deliver (as_tunnel t' (Hash hr)) else CloseTLS]"
proof (cases tls_result)
  case (Inl e)
  then show ?thesis
    using failed by (simp add: terminate_tls_def)
next
  case (Inr t)
  obtain r t' where "ServerHandshake lib seg_read peer_write (NoiseStatic cfg) (NoisePrologue cfg)
      (bytes_of ''avangard-srv-hello'') t = Some (r, t')"
    using handshake_returns by blast
  then show ?thesis
    using Inr refused ok by (cases r) (auto simp: terminate_tls_def)
qed

text \<open>The routes through \<open>handleConn\<close>, over the stream's bytes.\<close>

definition peeked_name :: "conn \<Rightarrow> string" where
  "peeked_name c = (case fst (peek_spec (conn_content c) (snd c)) of Peek sni _ _ \<Rightarrow> sni)"

lemma handleConn_cases:
  obtains (short) "length (conn_content (rx c)) < 5"
      "handleConn cfg lib seg_read peer_write tls seg_read peer_write dial race queued c
         = Some [SetDeadline (Some 10), CloseConn]"
    | (decoy) raw c' where "\<not> isMagicSNI cfg (peeked_name (rx c))"
        "\<exists>e. peek_spec (conn_content (rx c)) (snd (rx c)) = (Peek (peeked_name (rx c)) raw e, conn_content c')"
        "5 \<le> length (conn_content (rx c))"
        "handleConn cfg lib seg_read peer_write tls seg_read peer_write dial race queued c
          = map_option (\<lambda>acts. SetDeadline (Some 10) # acts)
              (forwardDecoy cfg seg_read peer_write dial race \<lparr>rx = (raw, c'), tx = tx c\<rparr>)"
    | (magic) raw c' where "isMagicSNI cfg (peeked_name (rx c))"
        "\<exists>e. peek_spec (conn_content (rx c)) (snd (rx c)) = (Peek (peeked_name (rx c)) raw e, conn_content c')"
        "handleConn cfg lib seg_read peer_write tls seg_read peer_write dial race queued c
          = map_option (\<lambda>acts. SetDeadline (Some 10) # SetDeadline (Some 15) # acts)
              (terminate_tls cfg lib seg_read peer_write (tls \<lparr>rx = (raw, c'), tx = tx c\<rparr>) queued)"
proof (rule peek_handle [of "rx c"])
  fix sni raw err c'
  assume p: "peekClientHelloSNI (peek_read seg_read) ([], rx c) = Some (Some (Peek sni raw err), ([], c'))"
    and spec: "peek_spec (conn_content (rx c)) (snd (rx c)) = (Peek sni raw err, conn_content c')"
  have name: "peeked_name (rx c) = sni"
    by (simp add: peeked_name_def spec)
  show thesis
  proof (cases "err \<noteq> None \<and> raw = []")
    case True
    then have "length (conn_content (rx c)) < 5"
      using spec by (rule_tac ccontr) (auto simp: peek_spec_def split: if_splits option.splits)
    then show ?thesis
      using True p short by (simp add: handleConn_def)
  next
    case False
    then have long: "5 \<le> length (conn_content (rx c))"
      using spec by (rule_tac ccontr) (auto simp: peek_spec_def split: if_splits)
    have h: "handleConn cfg lib seg_read peer_write tls seg_read peer_write dial race queued c
      = map_option (\<lambda>acts. SetDeadline (Some 10) # acts)
         (if \<not> isMagicSNI cfg sni then forwardDecoy cfg seg_read peer_write dial race \<lparr>rx = (raw, c'), tx = tx c\<rparr>
          else map_option (\<lambda>acts. SetDeadline (Some 15) # acts)
            (terminate_tls cfg lib seg_read peer_write (tls \<lparr>rx = (raw, c'), tx = tx c\<rparr>) queued))"
      unfolding handleConn_def p using False by (auto simp: Let_def)
    show ?thesis
    proof (cases "isMagicSNI cfg sni")
      case True
      then show ?thesis
        using magic [of raw c'] h spec by (simp add: name option.map_comp comp_def)
    next
      case False
      then show ?thesis
        using decoy [of raw c'] h spec long by (simp add: name)
    qed
  qed
qed

text \<open>What the decoy can see of a connection: the client's bytes, and zeros after a record cut short.\<close>

definition seen_bytes :: "conn \<Rightarrow> bytes" where
  "seen_bytes c = conn_content c @
     (if handshake_header (conn_content c) then replicate (5 + record_len (conn_content c) - length (conn_content c)) 0 else [])"

lemma peek_seen_bytes:
  assumes "peek_spec (conn_content c) (snd c) = (Peek n raw e, rest)" "5 \<le> length (conn_content c)"
  shows "raw @ rest = seen_bytes c"
  using peek_replay [OF assms(1)] assms(2) by (simp add: seen_bytes_def)

text \<open>All the runs of the handler, as action lists.\<close>

lemma handleConn_traces:
  obtains (short) "length (conn_content (rx c)) < 5"
      "handleConn cfg lib seg_read peer_write tls seg_read peer_write dial race queued c
         = Some [SetDeadline (Some 10), CloseConn]"
    | (no_decoy) "\<not> isMagicSNI cfg (peeked_name (rx c))" "DecoyAddr cfg = []"
      "handleConn cfg lib seg_read peer_write tls seg_read peer_write dial race queued c
         = Some [SetDeadline (Some 10), CloseConn]"
    | (no_dial) e where "\<not> isMagicSNI cfg (peeked_name (rx c))" "DecoyAddr cfg \<noteq> []" "dial (DecoyAddr cfg) = Inl e"
      "handleConn cfg lib seg_read peer_write tls seg_read peer_write dial race queued c
         = Some [SetDeadline (Some 10), DialDecoy (DecoyAddr cfg), CloseConn]"
    | (splice) pre d up down where "\<not> isMagicSNI cfg (peeked_name (rx c))" "DecoyAddr cfg \<noteq> []" "dial (DecoyAddr cfg) = Inr d"
      "handleConn cfg lib seg_read peer_write tls seg_read peer_write dial race queued c
         = Some [SetDeadline (Some 10), DialDecoy (DecoyAddr cfg), SetDeadline None, SpliceDecoy up down, CloseDecoy, CloseConn]"
      "spliced race pre d up down" "tx pre = tx c" "fst (rx pre) @ conn_content (snd (rx pre)) = seen_bytes (rx c)"
    | (tls_failed) pre e where "isMagicSNI cfg (peeked_name (rx c))" "tls pre = Inl e"
      "handleConn cfg lib seg_read peer_write tls seg_read peer_write dial race queued c
         = Some [SetDeadline (Some 10), SetDeadline (Some 15), CloseConn]"
    | (refused) pre t where "isMagicSNI cfg (peeked_name (rx c))" "tls pre = Inr t"
      "handleConn cfg lib seg_read peer_write tls seg_read peer_write dial race queued c
         = Some [SetDeadline (Some 10), SetDeadline (Some 15), CloseTLS]"
    | (complete) pre t hr t' where "isMagicSNI cfg (peeked_name (rx c))" "tls pre = Inr t"
      "ServerHandshake lib seg_read peer_write (NoiseStatic cfg) (NoisePrologue cfg)
         (bytes_of ''avangard-srv-hello'') t = Some (Inr hr, t')"
      "handleConn cfg lib seg_read peer_write tls seg_read peer_write dial race queued c
         = Some [SetDeadline (Some 10), SetDeadline (Some 15), SetDeadline None, if queued then Deliver (as_tunnel t' (Hash hr)) else CloseTLS]"
proof (rule handleConn_cases [of c cfg lib tls dial race queued])
  assume "length (conn_content (rx c)) < 5"
    "handleConn cfg lib seg_read peer_write tls seg_read peer_write dial race queued c
         = Some [SetDeadline (Some 10), CloseConn]"
  then show thesis
    by (rule short)
next
  fix raw c'
  let ?pre = "\<lparr>rx = (raw, c'), tx = tx c\<rparr> :: (bytes \<times> conn, peer) duplex"
  assume magic: "\<not> isMagicSNI cfg (peeked_name (rx c))"
    and spec: "\<exists>e. peek_spec (conn_content (rx c)) (snd (rx c)) = (Peek (peeked_name (rx c)) raw e, conn_content c')"
    and long: "5 \<le> length (conn_content (rx c))"
    and h: "handleConn cfg lib seg_read peer_write tls seg_read peer_write dial race queued c
          = map_option (\<lambda>acts. SetDeadline (Some 10) # acts) (forwardDecoy cfg seg_read peer_write dial race ?pre)"
  have sent: "fst (rx ?pre) @ conn_content (snd (rx ?pre)) = seen_bytes (rx c)"
    using spec long peek_seen_bytes by fastforce
  show thesis
    by (rule forwardDecoy_cases [of cfg dial race ?pre])
      (use h magic sent in \<open>auto intro: no_decoy no_dial splice\<close>)
next
  fix raw c'
  let ?tls = "tls \<lparr>rx = (raw, c'), tx = tx c\<rparr>"
  assume "isMagicSNI cfg (peeked_name (rx c))"
    "handleConn cfg lib seg_read peer_write tls seg_read peer_write dial race queued c
       = map_option (\<lambda>acts. SetDeadline (Some 10) # SetDeadline (Some 15) # acts)
           (terminate_tls cfg lib seg_read peer_write ?tls queued)"
  then show thesis
    by (cases rule: terminate_tls_cases [of ?tls cfg lib queued])
      (auto intro: tls_failed refused complete)
qed

definition ends_conn :: "('w, 't, 'v) conn_act \<Rightarrow> bool" where
  "ends_conn a \<longleftrightarrow> a = CloseConn \<or> a = CloseTLS \<or> (\<exists>ts. a = Deliver ts)"

subsection \<open>Properties\<close>

text \<open>C23. Every connection is disposed of exactly once: whatever the client sends, whatever TLS, the Noise
  library and the decoy do, the handler returns, does not panic, and its last action closes the
  connection or hands the stream to the accept queue; no action before does.\<close>

theorem handleConn_disposes:
  "\<exists>acts. handleConn cfg lib seg_read peer_write tls seg_read peer_write dial race queued c = Some acts
     \<and> acts \<noteq> [] \<and> ends_conn (last acts) \<and> Panic \<notin> set acts \<and> \<not> list_ex ends_conn (butlast acts)"
  by (rule handleConn_traces [of c cfg lib tls dial race queued]) (simp_all add: ends_conn_def)


text \<open>C25. The decoy sees what the prober sent: its copy gets a prefix of the client's bytes, from the
  first one on, and all of them when that copy ends first and the decoy takes them; the client gets
  a prefix of the decoy's answer. A record cut short by the end of the stream is padded with zeros
  that the client never sent.\<close>

theorem decoy_sees_client_bytes:
  assumes "handleConn cfg lib seg_read peer_write tls seg_read peer_write dial race queued c = Some acts"
    and "SpliceDecoy up down \<in> set acts"
  shows "\<exists>d. dial (DecoyAddr cfg) = Inr d
     \<and> (\<exists>n. fst up = fst (tx d) @ take n (seen_bytes (rx c)))
     \<and> (\<exists>n. fst down = fst (tx c) @ take n (conn_content (rx d)))
     \<and> (case race of UpFirst _ \<Rightarrow> delivered (tx d) (seen_bytes (rx c)) up
                   | DownFirst _ \<Rightarrow> delivered (tx c) (conn_content (rx d)) down)"
  by (rule handleConn_traces [of c cfg lib tls dial race queued])
    (use assms in \<open>auto simp: spliced_def Let_def split: race.splits if_splits\<close>)

text \<open>A prober whose ClientHello names \<^verbatim>\<open>ya.ru\<close>, cut into two segments, and a server for \<^verbatim>\<open>x.y\<close> with a decoy.\<close>

definition sample_config :: tcp_config where
  "sample_config = \<lparr>NoiseStatic = sample_key, NoisePrologue = [1], DecoyAddr = ''d:443'', magicSNIs = [''x.y'']\<rparr>"

definition sample_probe :: "(conn, peer) duplex" where
  "sample_probe = \<lparr>rx = ([hello_record sample_hello, [23, 3, 3]], EOF), tx = ([], None)\<rparr>"

definition sample_decoy :: "string \<Rightarrow> io_err + (conn, peer) duplex" where
  "sample_decoy a = Inr \<lparr>rx = ([[8]], EOF), tx = ([], None)\<rparr>"

definition no_tls :: "(bytes \<times> conn, peer) duplex \<Rightarrow> io_err + (conn, peer) duplex" where
  "no_tls pre = Inl EOF"

lemma sample_hello_ok: "hello_ok sample_hello"
  by code_simp

lemma sample_probe_content: "conn_content (rx sample_probe) = hello_record sample_hello @ [23, 3, 3]"
  by (simp add: sample_probe_def)

lemma sample_probe_name: "peeked_name (rx sample_probe) = ''ya.ru''"
  using parse_hello_found [OF sample_hello_ok] hello_peeked [OF sample_hello_ok, of "[23, 3, 3]" "snd (rx sample_probe)"]
  by (simp add: peeked_name_def sample_probe_content) (simp add: sample_hello_def)

lemma sample_probe_run:
  obtains up down where "handleConn sample_config plain_lib seg_read peer_write no_tls seg_read peer_write sample_decoy
      (UpFirst 0) True sample_probe = Some [SetDeadline (Some 10), DialDecoy ''d:443'', SetDeadline None,
        SpliceDecoy up down, CloseDecoy, CloseConn]"
proof (rule handleConn_traces [of sample_probe sample_config plain_lib no_tls sample_decoy "UpFirst 0" True])
  assume "length (conn_content (rx sample_probe)) < 5"
  then show thesis
    by (simp add: sample_probe_content hello_record_def)
qed (use that in \<open>auto simp: isMagicSNI_def sample_probe_name sample_config_def sample_decoy_def\<close>)


theorem decoy_sees_client_bytes_witness:
  "\<exists>up down. SpliceDecoy up down \<in> set (the (handleConn sample_config plain_lib seg_read peer_write no_tls seg_read
        peer_write sample_decoy (UpFirst 0) True sample_probe))
     \<and> fst up = hello_record sample_hello @ [23, 3, 3]"
proof (rule sample_probe_run)
  fix up down
  assume run: "handleConn sample_config plain_lib seg_read peer_write no_tls seg_read peer_write sample_decoy
      (UpFirst 0) True sample_probe = Some [SetDeadline (Some 10), DialDecoy ''d:443'', SetDeadline None,
        SpliceDecoy up down, CloseDecoy, CloseConn]"
  have "seen_bytes (rx sample_probe) = hello_record sample_hello @ [23, 3, 3]"
    using record_len_hello(1) [OF sample_hello_ok, of "[23, 3, 3]"]
    by (simp add: seen_bytes_def sample_probe_content) (simp add: hello_record_def)
  then show ?thesis
    using decoy_sees_client_bytes [OF run, of up down] by (auto simp: run sample_decoy_def delivered_def)
qed

lemma magic_hello_tls:
  assumes "hello_ok ch" and "ch_name ch \<in> set (magicSNIs cfg)"
    and "conn_content (rx c) = hello_record ch @ rest"
  shows "\<exists>pre. fst (rx pre) @ conn_content (snd (rx pre)) = hello_record ch @ rest \<and> tx pre = tx c
     \<and> handleConn cfg lib seg_read peer_write tls seg_read peer_write dial race queued c
         = map_option (\<lambda>acts. SetDeadline (Some 10) # SetDeadline (Some 15) # acts)
             (terminate_tls cfg lib seg_read peer_write (tls pre) queued)"
proof -
  have spec: "peek_spec (conn_content (rx c)) (snd (rx c)) = (Peek (ch_name ch) (hello_record ch) None, rest)"
    unfolding assms(3) by (rule hello_peeked [OF assms(1)])
  then have magic: "isMagicSNI cfg (peeked_name (rx c))"
    using assms(2) by (simp add: peeked_name_def isMagicSNI_def)
  have long: "\<not> length (conn_content (rx c)) < 5"
    by (simp add: assms(3) hello_record_def)
  show ?thesis
    by (rule handleConn_cases [of c cfg lib tls dial race queued])
      (use spec magic long in \<open>auto intro!: exI\<close>)
qed

text \<open>A client that names a configured host reaches TLS with its bytes intact: for every well-formed
  ClientHello with such a name, and whatever follows it, the TLS library reads exactly what the
  client sent, and the decoy is not involved.\<close>

theorem magic_hello_reaches_tls:
  assumes "hello_ok ch" and "ch_name ch \<in> set (magicSNIs cfg)"
    and "conn_content (rx c) = hello_record ch @ rest"
  shows "\<exists>pre. fst (rx pre) @ conn_content (snd (rx pre)) = hello_record ch @ rest \<and> tx pre = tx c
     \<and> handleConn cfg lib seg_read peer_write tls seg_read peer_write dial race queued c
         = map_option (\<lambda>acts. SetDeadline (Some 10) # SetDeadline (Some 15) # acts)
             (terminate_tls cfg lib seg_read peer_write (tls pre) queued)"
  using assms by (rule magic_hello_tls)

theorem magic_hello_reaches_tls_witness:
  "\<exists>pre :: (bytes \<times> conn, peer) duplex. fst (rx pre) @ conn_content (snd (rx pre)) = hello_record sample_hello @ [23, 3, 3]
     \<and> handleConn (sample_config\<lparr>magicSNIs := [''ya.ru'']\<rparr>) plain_lib seg_read peer_write no_tls seg_read peer_write
         sample_decoy (UpFirst 0) True sample_probe = Some [SetDeadline (Some 10), SetDeadline (Some 15), CloseConn]"
proof -
  have "ch_name sample_hello \<in> set (magicSNIs (sample_config\<lparr>magicSNIs := [''ya.ru'']\<rparr>))"
    by (simp add: sample_hello_def)
  from magic_hello_reaches_tls [OF sample_hello_ok this sample_probe_content, of plain_lib no_tls sample_decoy "UpFirst 0" True]
  show ?thesis
    by (auto simp: terminate_tls_def no_tls_def)
qed

end
