(* ===== verification/Clients.thy ===== *)
theory Clients
  imports Noise GoNet
begin

text \<open>
  The dialling side of the transports: the checks of the four \<^verbatim>\<open>NewClient\<close> functions
  (\<^verbatim>\<open>pkg/transport/{tcp,quic,smuxtcp,ws}\<close>), the choice of a TLS fingerprint (\<^verbatim>\<open>pkg/utlsx\<close>), \<^verbatim>\<open>Dial\<close> of
  the TCP client, and the session handling of the SMUX client.

  Third-party and operating-system calls are their results: TCP dial, TLS handshake, opening of a
  SMUX session or stream. The Noise handshake is the model's.
\<close>

subsection \<open>Fingerprints\<close>

text \<open>A fingerprint is a string type; the library's hello identifiers are its constructors.\<close>

datatype client_hello_id = HelloRandomizedALPN | HelloChrome_Auto | HelloFirefox_Auto | HelloSafari_Auto | HelloIOS_Auto

definition resolve :: "string \<Rightarrow> client_hello_id option" where
  "resolve fp =
     (if fp = ''auto'' \<or> fp = '''' then Some HelloRandomizedALPN
      else if fp = ''chrome'' then Some HelloChrome_Auto
      else if fp = ''firefox'' then Some HelloFirefox_Auto
      else if fp = ''safari'' then Some HelloSafari_Auto
      else if fp = ''ios'' then Some HelloIOS_Auto
      else if fp = ''yandex'' then Some HelloChrome_Auto
      else None)"

definition FingerprintFromString :: "string \<Rightarrow> string" where
  "FingerprintFromString s =
     (if s \<in> {''chrome'', ''firefox'', ''safari'', ''ios'', ''yandex''} then s else ''auto'')"

text \<open>How \<^verbatim>\<open>dialTLS\<close> makes the TLS client: \<open>None\<close> is Go's own, \<open>Some id\<close> uTLS with that hello.\<close>

datatype tls_choice = GoTLS | UTLS client_hello_id | NoFingerprint

definition dialTLS :: "string \<Rightarrow> tls_choice" where
  "dialTLS fp =
     (if fp = '''' then GoTLS
      else (case resolve (FingerprintFromString fp) of None \<Rightarrow> NoFingerprint | Some hello \<Rightarrow> UTLS hello))"

subsection \<open>Client configuration\<close>

record client_config =
  Addr :: string
  UUID :: string
  SNI :: string
  ServerStaticPub :: bytes
  InsecureSkipVerify :: bool
  CPrologue :: bytes
  Fingerprint :: string

definition DefaultPrologue :: bytes where "DefaultPrologue = bytes_of ''avangard-v1''"

datatype config_err = AddrRequired | BadStaticPub | UnknownTransport string | QuicDial string

definition checkClient :: "client_config \<Rightarrow> config_err + client_config" where
  "checkClient cfg =
     (if Addr cfg = '''' then Inl AddrRequired
      else if length (ServerStaticPub cfg) \<noteq> 32 then Inl BadStaticPub
      else Inr (if CPrologue cfg = [] then cfg\<lparr>CPrologue := DefaultPrologue\<rparr> else cfg))"

text \<open>The four constructors; QUIC also connects at once, with the result \<open>dialed\<close>.\<close>

definition tcp_NewClient :: "client_config \<Rightarrow> config_err + client_config" where
  "tcp_NewClient cfg = checkClient cfg"

definition smux_NewClient :: "client_config \<Rightarrow> config_err + client_config" where
  "smux_NewClient cfg = checkClient cfg"

definition ws_NewClient :: "client_config \<Rightarrow> string \<Rightarrow> config_err + client_config \<times> string" where
  "ws_NewClient cfg path =
     (case checkClient cfg of
        Inl e \<Rightarrow> Inl e
      | Inr c \<Rightarrow> Inr (c, if path = '''' then ''/ws'' else path))"

definition quic_NewClient :: "(client_config \<Rightarrow> string option) \<Rightarrow> client_config \<Rightarrow> config_err + client_config" where
  "quic_NewClient dial_err cfg =
     (case checkClient cfg of
        Inl e \<Rightarrow> Inl e
      | Inr c \<Rightarrow> (case dial_err c of Some e \<Rightarrow> Inl (QuicDial e) | None \<Rightarrow> Inr c))"

subsection \<open>Dialling TCP\<close>

datatype dial_err = DialFailed string | TlsFailed string | NoiseFailed noise_err | SmuxFailed string
  | Reconnect dial_err | OpenFailed string

text \<open>What is closed on the way out.\<close>

datatype dial_act = CloseRaw | CloseTLS

text \<open>
  \<^verbatim>\<open>Dial\<close> of the TCP client. \<open>net_dial\<close> and \<open>tls_dial\<close> are the results of the two network operations;
  the TLS one depends on the fingerprint choice. The value is the error or the stream with its
  channel binding, and what was closed.
\<close>

definition tcp_Dial ::
  "('h, 'c) noise_lib \<Rightarrow> 's reader \<Rightarrow> 'w writer \<Rightarrow> string + 'r \<Rightarrow> ('r \<Rightarrow> tls_choice \<Rightarrow> string + ('s, 'w) duplex)
     \<Rightarrow> client_config \<Rightarrow> ((dial_err + ('s, 'w) duplex \<times> bytes) \<times> dial_act list) option" where
  "tcp_Dial lib rd wr net_dial tls_dial cfg =
     (case net_dial of
        Inl e \<Rightarrow> Some (Inl (DialFailed e), [])
      | Inr raw \<Rightarrow>
     (case tls_dial raw (dialTLS (Fingerprint cfg)) of
        Inl e \<Rightarrow> Some (Inl (TlsFailed e), [CloseRaw])
      | Inr t \<Rightarrow>
     (case ClientHandshake lib rd wr (ServerStaticPub cfg) (CPrologue cfg) (bytes_of ''avangard-cli-hello'') t of
        None \<Rightarrow> None
      | Some (Inl e, _) \<Rightarrow> Some (Inl (NoiseFailed e), [CloseTLS])
      | Some (Inr hr, t') \<Rightarrow> Some (Inr (t', Hash hr), []))))"

subsection \<open>The SMUX client\<close>

text \<open>
  The client keeps one session, its raw connection and its transcript hash. An attempt to set up a
  connection is an \<open>outer\<close>, the result of \<^verbatim>\<open>dialOuter\<close>'s four operations; \<open>closed\<close> and
  \<open>open_stream\<close> are the SMUX library's \<^verbatim>\<open>IsClosed\<close> and \<^verbatim>\<open>OpenStream\<close> on a session.
\<close>

record ('ss, 'r) smux_client =
  session :: "'ss option"
  raw_conn :: "'r option"
  hash :: bytes

record ('ss, 'r) outer =
  o_dial :: "string + 'r"
  o_tls :: "string option"
  o_noise :: "noise_err + bytes"
  o_smux :: "string + 'ss"

definition dialOuter ::
  "('ss, 'r) outer \<Rightarrow> ('ss, 'r) smux_client \<Rightarrow> dial_err option \<times> ('ss, 'r) smux_client" where
  "dialOuter o1 c =
     (case o_dial o1 of
        Inl e \<Rightarrow> (Some (DialFailed e), c)
      | Inr raw \<Rightarrow>
     (case o_tls o1 of
        Some e \<Rightarrow> (Some (TlsFailed e), c)
      | None \<Rightarrow>
     (case o_noise o1 of
        Inl e \<Rightarrow> (Some (NoiseFailed e), c)
      | Inr h \<Rightarrow>
     (case o_smux o1 of
        Inl e \<Rightarrow> (Some (SmuxFailed e), c)
      | Inr ss \<Rightarrow> (None, c\<lparr>session := Some ss, raw_conn := Some raw, hash := h\<rparr>)))))"

text \<open>The attempt itself: \<^verbatim>\<open>dialOuter\<close> with the Noise handshake of the model, and what it closes on the way out.\<close>

definition smux_dialOuter ::
  "('h, 'c) noise_lib \<Rightarrow> 's reader \<Rightarrow> 'w writer \<Rightarrow> string + 'r \<Rightarrow> ('r \<Rightarrow> tls_choice \<Rightarrow> string + ('s, 'w) duplex)
     \<Rightarrow> (('s, 'w) duplex \<Rightarrow> string + 'ss) \<Rightarrow> client_config \<Rightarrow> ('ss, 'r) smux_client
     \<Rightarrow> ((dial_err option \<times> ('ss, 'r) smux_client) \<times> dial_act list) option" where
  "smux_dialOuter lib rd wr net_dial tls_dial smux cfg c =
     (case net_dial of
        Inl e \<Rightarrow> Some ((Some (DialFailed e), c), [])
      | Inr raw \<Rightarrow>
     (case tls_dial raw (dialTLS (Fingerprint cfg)) of
        Inl e \<Rightarrow> Some ((Some (TlsFailed e), c), [CloseRaw])
      | Inr t \<Rightarrow>
     (case ClientHandshake lib rd wr (ServerStaticPub cfg) (CPrologue cfg) (bytes_of ''avangard-cli-hello'') t of
        None \<Rightarrow> None
      | Some (Inl e, _) \<Rightarrow> Some ((Some (NoiseFailed e), c), [CloseTLS])
      | Some (Inr hr, t') \<Rightarrow>
     (case smux t' of
        Inl e \<Rightarrow> Some ((Some (SmuxFailed e), c), [CloseTLS])
      | Inr ss \<Rightarrow> Some ((None, c\<lparr>session := Some ss, raw_conn := Some raw, hash := Hash hr\<rparr>), [])))))"

text \<open>\<open>o1\<close> is the connection attempt that a missing or closed session asks for, \<open>o2\<close> the one after a
  stream could not be opened. A session that is \<open>None\<close> when a stream is opened would be a nil
  dereference, the model's \<open>None\<close>.\<close>

definition smux_Dial ::
  "('ss \<Rightarrow> bool) \<Rightarrow> ('ss \<Rightarrow> string + 'st) \<Rightarrow> ('ss, 'r) outer \<Rightarrow> ('ss, 'r) outer \<Rightarrow> ('ss, 'r) smux_client
     \<Rightarrow> ((dial_err + 'st \<times> 'r option \<times> bytes) \<times> ('ss, 'r) smux_client) option" where
  "smux_Dial closed open_stream o1 o2 c =
     (case (if (case session c of None \<Rightarrow> True | Some ss \<Rightarrow> closed ss) then dialOuter o1 c else (None, c)) of
        (Some e, c1) \<Rightarrow> Some (Inl e, c1)
      | (None, c1) \<Rightarrow>
     (case session c1 of
        None \<Rightarrow> None
      | Some ss \<Rightarrow>
     (case open_stream ss of
        Inr st \<Rightarrow> Some (Inr (st, raw_conn c1, hash c1), c1)
      | Inl _ \<Rightarrow>
     (case dialOuter o2 (c1\<lparr>session := None\<rparr>) of
        (Some e, c2) \<Rightarrow> Some (Inl (Reconnect e), c2)
      | (None, c2) \<Rightarrow>
     (case session c2 of
        None \<Rightarrow> None
      | Some ss2 \<Rightarrow>
     (case open_stream ss2 of
        Inl e \<Rightarrow> Some (Inl (OpenFailed e), c2)
      | Inr st \<Rightarrow> Some (Inr (st, raw_conn c2, hash c2), c2)))))))"

text \<open>\<open>Close\<close> closes the session and the raw connection, when there are any.\<close>

definition smux_Close :: "('ss, 'r) smux_client \<Rightarrow> 'ss option \<times> 'r option" where
  "smux_Close c = (session c, raw_conn c)"

text \<open>A session was established by an attempt when all four of its operations succeeded.\<close>

definition established :: "('ss, 'r) outer set \<Rightarrow> 'ss \<Rightarrow> 'r option \<Rightarrow> bytes \<Rightarrow> bool" where
  "established past ss r h \<longleftrightarrow> (\<exists>o1 \<in> past. \<exists>raw. o_dial o1 = Inr raw \<and> r = Some raw \<and> o_tls o1 = None
     \<and> o_noise o1 = Inr h \<and> o_smux o1 = Inr ss)"

definition smux_ok :: "('ss, 'r) outer set \<Rightarrow> ('ss, 'r) smux_client \<Rightarrow> bool" where
  "smux_ok past c \<longleftrightarrow> (\<forall>ss. session c = Some ss \<longrightarrow> established past ss (raw_conn c) (hash c))"

text \<open>Every attempt is an \<open>outer\<close>: nothing else of the operations matters to the client.\<close>

lemma smux_dialOuter_attempt:
  assumes "smux_dialOuter lib rd wr net_dial tls_dial smux cfg c = Some (r, acts)"
  shows "\<exists>o1. r = dialOuter o1 c"
proof -
  have "\<exists>o1. r = dialOuter o1 c" if "r = (Some (DialFailed e), c)" for e
    using that by (intro exI [of _ "\<lparr>o_dial = Inl e, o_tls = None, o_noise = Inr [], o_smux = Inl []\<rparr>"]) (simp add: dialOuter_def)
  moreover have "\<exists>o1. r = dialOuter o1 c" if "r = (Some (TlsFailed e), c)" for e
    using that by (intro exI [of _ "\<lparr>o_dial = Inr undefined, o_tls = Some e, o_noise = Inr [], o_smux = Inl []\<rparr>"]) (simp add: dialOuter_def)
  moreover have "\<exists>o1. r = dialOuter o1 c" if "r = (Some (NoiseFailed e), c)" for e
    using that by (intro exI [of _ "\<lparr>o_dial = Inr undefined, o_tls = None, o_noise = Inl e, o_smux = Inl []\<rparr>"]) (simp add: dialOuter_def)
  moreover have "\<exists>o1. r = dialOuter o1 c" if "r = (Some (SmuxFailed e), c)" for e
    using that by (intro exI [of _ "\<lparr>o_dial = Inr undefined, o_tls = None, o_noise = Inr [], o_smux = Inl e\<rparr>"]) (simp add: dialOuter_def)
  moreover have "\<exists>o1. r = dialOuter o1 c" if "r = (None, c\<lparr>session := Some ss, raw_conn := Some raw, hash := h\<rparr>)" for ss raw h
    using that by (intro exI [of _ "\<lparr>o_dial = Inr raw, o_tls = None, o_noise = Inr h, o_smux = Inr ss\<rparr>"]) (simp add: dialOuter_def)
  ultimately show ?thesis
    using assms by (auto simp: smux_dialOuter_def split: sum.splits option.splits prod.splits)
qed

lemma established_mono: "established past ss r h \<Longrightarrow> past \<subseteq> past' \<Longrightarrow> established past' ss r h"
  unfolding established_def by blast

lemma smux_ok_mono: "smux_ok past c \<Longrightarrow> past \<subseteq> past' \<Longrightarrow> smux_ok past' c"
  unfolding smux_ok_def by (meson established_mono)

lemma dialOuter_ok:
  assumes "dialOuter o1 c = (e, c')" "smux_ok past c" "o1 \<in> past"
  shows "smux_ok past c' \<and> (e = None \<longrightarrow> session c' \<noteq> None)"
proof -
  consider "c' = c" "e \<noteq> None"
    | raw h ss where "o_dial o1 = Inr raw" "o_tls o1 = None" "o_noise o1 = Inr h" "o_smux o1 = Inr ss"
        "c' = c\<lparr>session := Some ss, raw_conn := Some raw, hash := h\<rparr>"
    using assms(1) by (simp add: dialOuter_def split: sum.split_asm option.split_asm) metis+
  then show ?thesis
  proof cases
    case 1
    then show ?thesis
      using 1 assms(2) by auto
  next
    case (2 raw h ss)
    then have "established past ss (Some raw) h"
      using assms(3) unfolding established_def by blast
    then show ?thesis
      using 2(5) by (simp add: smux_ok_def)
  qed
qed

lemma smux_Dial_binding:
  assumes "smux_ok past c"
  shows "\<exists>r c'. smux_Dial closed open_stream o1 o2 c = Some (r, c') \<and> smux_ok (past \<union> {o1, o2}) c'
     \<and> (case r of Inl _ \<Rightarrow> True
        | Inr (st, raw, h) \<Rightarrow> \<exists>ss. session c' = Some ss \<and> open_stream ss = Inr st
            \<and> established (past \<union> {o1, o2}) ss raw h)"
proof -
  let ?past = "past \<union> {o1, o2}"
  have ok: "smux_ok ?past c"
    using assms by (rule smux_ok_mono) auto
  obtain e1 c1 where one: "(if (case session c of None \<Rightarrow> True | Some ss \<Rightarrow> closed ss) then dialOuter o1 c else (None, c)) = (e1, c1)"
    by fastforce
  have ok1: "smux_ok ?past c1" "e1 = None \<Longrightarrow> session c1 \<noteq> None"
    using one ok dialOuter_ok [OF _ ok, of o1 e1 c1] by (auto split: if_splits option.splits)
  show ?thesis
  proof (cases e1)
    case (Some e)
    then show ?thesis
      using one ok1 by (simp add: smux_Dial_def)
  next
    case None
    then obtain ss where ss: "session c1 = Some ss"
      using ok1(2) by blast
    show ?thesis
    proof (cases "open_stream ss")
      case (Inr st)
      then show ?thesis
        using one None ss ok1(1) by (auto simp: smux_Dial_def smux_ok_def)
    next
      case (Inl err)
      obtain e2 c2 where two: "dialOuter o2 (c1\<lparr>session := None\<rparr>) = (e2, c2)"
        by fastforce
      have "smux_ok ?past (c1\<lparr>session := None\<rparr>)"
        by (simp add: smux_ok_def)
      from dialOuter_ok [OF two this] have ok2: "smux_ok ?past c2" "e2 = None \<longrightarrow> session c2 \<noteq> None"
        by simp_all
      show ?thesis
      proof (cases e2)
        case (Some e)
        then show ?thesis
          using one None ss Inl two ok2 by (simp add: smux_Dial_def)
      next
        case none2: None
        then obtain ss2 where ss2: "session c2 = Some ss2"
          using ok2(2) by blast
        then have "established ?past ss2 (raw_conn c2) (hash c2)"
          using ok2(1) by (simp add: smux_ok_def)
        then show ?thesis
          using one None ss Inl two ok2(1) none2 ss2
          by (cases "open_stream ss2") (simp_all add: smux_Dial_def)
      qed
    qed
  qed
qed

subsection \<open>Properties\<close>

text \<open>A substream carries the channel binding of its own session: from a consistent client, \<open>Dial\<close>
  never dereferences a nil session; a stream that it returns was opened on a session that some
  connection attempt established, and comes with that attempt's raw connection and Noise transcript
  hash, also after a reconnect; and the client is consistent again.\<close>

theorem smux_stream_binding:
  assumes "smux_ok past c"
  shows "\<exists>r c'. smux_Dial closed open_stream o1 o2 c = Some (r, c') \<and> smux_ok (past \<union> {o1, o2}) c'
     \<and> (case r of Inl _ \<Rightarrow> True
        | Inr (st, raw, h) \<Rightarrow> \<exists>ss. session c' = Some ss \<and> open_stream ss = Inr st
            \<and> established (past \<union> {o1, o2}) ss raw h)"
  using assms by (rule smux_Dial_binding)

text \<open>A client without session whose first connection dies before the stream is opened.\<close>

definition sample_outer :: "nat \<Rightarrow> bytes \<Rightarrow> (nat, nat) outer" where
  "sample_outer n h = \<lparr>o_dial = Inr n, o_tls = None, o_noise = Inr h, o_smux = Inr (n + 10)\<rparr>"

theorem smux_stream_binding_witness:
  "\<exists>c'. smux_Dial (\<lambda>_. False) (\<lambda>ss. if ss = 11 then Inl ''broken'' else Inr (ss + 5)) (sample_outer 1 [1]) (sample_outer 2 [2])
      \<lparr>session = None, raw_conn = None, hash = []\<rparr> = Some (Inr (17, Some 2, [2]), c')
     \<and> smux_ok {sample_outer 1 [1], sample_outer 2 [2]} c'"
proof -
  let ?c = "\<lparr>session = None, raw_conn = None, hash = []\<rparr> :: (nat, nat) smux_client"
  have "smux_ok {} ?c"
    by (simp add: smux_ok_def)
  from smux_stream_binding [OF this, of "\<lambda>_. False" "\<lambda>ss. if ss = 11 then Inl ''broken'' else Inr (ss + 5 :: nat)"
      "sample_outer 1 [1]" "sample_outer 2 [2]"]
  show ?thesis
    by (auto simp: smux_Dial_def dialOuter_def sample_outer_def)
qed

text \<open>No fingerprint string breaks the dial: whatever the configuration says, \<open>dialTLS\<close> resolves to Go's own
  TLS (for the empty string) or to a uTLS hello; a name it does not know falls back to the
  randomised one.\<close>

theorem fingerprint_resolves:
  "dialTLS fp = (if fp = '''' then GoTLS
     else if fp \<in> {''chrome'', ''yandex''} then UTLS HelloChrome_Auto
     else if fp = ''firefox'' then UTLS HelloFirefox_Auto
     else if fp = ''safari'' then UTLS HelloSafari_Auto
     else if fp = ''ios'' then UTLS HelloIOS_Auto
     else UTLS HelloRandomizedALPN)"
  by (simp add: dialTLS_def FingerprintFromString_def resolve_def)

end
