(* ===== verification/Ws.thy ===== *)
theory Ws
  imports Protocol Noise
begin

text \<open>
  \<^verbatim>\<open>wsStream\<close> of \<^verbatim>\<open>pkg/transport/ws/ws.go\<close>: a byte stream over WebSocket messages. \<open>Read\<close> hands out the
  pending message and fetches the next one when it is used up; \<open>Write\<close> sends one message. The
  WebSocket library is the list of messages that successive \<^verbatim>\<open>ReadMessage\<close> calls return, with the
  error after them, and on the sending side the messages sent and how many more it takes.
\<close>

record ws_stream =
  readBuf :: bytes
  messages :: "bytes list"
  ws_error :: io_err

definition newWSStream :: "bytes list \<Rightarrow> io_err \<Rightarrow> ws_stream" where
  "newWSStream ms e = \<lparr>readBuf = [], messages = ms, ws_error = e\<rparr>"

definition ws_read :: "ws_stream reader" where
  "ws_read k s =
     (if readBuf s = [] then
        (case messages s of
           [] \<Rightarrow> ([], Some (ws_error s), s)
         | m # ms \<Rightarrow> (take k m, None, s\<lparr>readBuf := drop k m, messages := ms\<rparr>))
      else (take k (readBuf s), None, s\<lparr>readBuf := drop k (readBuf s)\<rparr>))"

type_synonym ws_peer = "bytes list \<times> nat option"

definition ws_write :: "ws_peer writer" where
  "ws_write b p =
     (case snd p of
        Some 0 \<Rightarrow> (Some (NetErr ''websocket: close sent''), p)
      | Some (Suc n) \<Rightarrow> (None, (fst p @ [b], Some n))
      | None \<Rightarrow> (None, (fst p @ [b], None)))"

subsection \<open>A WebSocket stream is a byte source and a byte sink\<close>

definition ws_content :: "ws_stream \<Rightarrow> bytes" where
  "ws_content s = readBuf s @ concat (messages s)"

definition ws_pending :: "ws_stream \<Rightarrow> nat" where
  "ws_pending s = length (messages s) + length (ws_content s)"

interpretation ws: byte_source ws_read ws_content ws_error ws_pending
proof unfold_locales
  fix k s got s'
  assume "0 < (k :: nat)" "ws_read k s = (got, None, s')"
  then show "ws_content s = got @ ws_content s' \<and> length got \<le> k \<and> ws_error s' = ws_error s
      \<and> ws_pending s' < ws_pending s"
    by (auto simp: ws_read_def ws_content_def ws_pending_def split: if_splits list.splits)
next
  fix k s got e s'
  assume "0 < (k :: nat)" "ws_read k s = (got, Some e, s')"
  then show "ws_content s = got \<and> length got \<le> k \<and> e = ws_error s \<and> ws_content s' = []
      \<and> ws_error s' = ws_error s"
    by (auto simp: ws_read_def ws_content_def split: if_splits list.splits)
qed

interpretation ws: byte_sink ws_write "\<lambda>p. concat (fst p)"
  by unfold_locales (auto simp: ws_write_def split: option.splits nat.splits)

subsection \<open>Properties\<close>

text \<open>Message boundaries do not matter: whatever a sender wrote, cut into messages by any writes,
  comes out of \<open>Read\<close> as the same byte stream, so the header decoder and the Noise frame reader
  give on a WebSocket what their formats say of the concatenated messages, and they return.\<close>

theorem ws_transparent:
  "map_option (\<lambda>(r, s). (r, (ws_content s, ws_error s))) (decode ws_read (newWSStream ms e))
     = Some (parse_header (concat ms, e))
   \<and> map_option (\<lambda>(r, s). (r, (ws_content s, ws_error s))) (readFrame ws_read (newWSStream ms e))
     = Some (parse_frame (concat ms, e))"
  using ws.decode_parses [of "newWSStream ms e"] ws.refinesD [OF ws.readFrame_refines, of "newWSStream ms e"]
  by (simp add: ws_content_def newWSStream_def)

end
