(* ===== verification/Carriers.thy ===== *)
theory Carriers
  imports TcpServer Clients Ws
begin

text \<open>
  The transports between the socket and the tunnel: \<^verbatim>\<open>Listen\<close>, the accept loops and the per-connection
  handlers of the QUIC, SMUX and WebSocket servers, \<^verbatim>\<open>Listen\<close> of the TCP server, and \<^verbatim>\<open>Dial\<close> of the QUIC and
  WebSocket clients (\<^verbatim>\<open>pkg/transport\<close>). A handler gives its visible actions in order; a stream that
  is handed to \<^verbatim>\<open>Accept\<close> is the tunnel's stream type with the transcript hash as channel binding.
  QUIC, TLS, HTTP and the SMUX library are the results of the calls the code makes; whether the accept
  queue takes a stream before the server is closed is the argument \<open>queued\<close>.
\<close>

subsection \<open>Listening\<close>

text \<open>\<open>sCert\<close> is the certificate chain, \<open>None\<close> when it is nil.\<close>

record server_config =
  sAddr :: string
  sUUIDs :: "string list"
  sStatic :: dh_key
  sCert :: "bytes list option"
  sDecoyAddr :: string
  sPrologue :: bytes

datatype listen_err = CertRequired | ListenFailed string

definition with_prologue :: "server_config \<Rightarrow> server_config" where
  "with_prologue cfg = (if sPrologue cfg = [] then cfg\<lparr>sPrologue := DefaultPrologue\<rparr> else cfg)"

text \<open>\<open>listen\<close> is the operating system's or the QUIC library's answer for an address.\<close>

definition quic_Listen :: "(string \<Rightarrow> string option) \<Rightarrow> server_config \<Rightarrow> listen_err + server_config" where
  "quic_Listen listen cfg =
     (if sCert cfg = None then Inl CertRequired
      else (case listen (sAddr cfg) of Some e \<Rightarrow> Inl (ListenFailed e) | None \<Rightarrow> Inr (with_prologue cfg)))"

definition smux_Listen :: "(string \<Rightarrow> string option) \<Rightarrow> server_config \<Rightarrow> listen_err + server_config" where
  "smux_Listen listen cfg =
     (if sCert cfg = None then Inl CertRequired
      else let cfg' = with_prologue cfg in
        case listen (sAddr cfg) of Some e \<Rightarrow> Inl (ListenFailed e) | None \<Rightarrow> Inr cfg')"

definition ws_ListenTLS :: "(string \<Rightarrow> string option) \<Rightarrow> server_config \<Rightarrow> string \<Rightarrow> listen_err + server_config \<times> string" where
  "ws_ListenTLS listen cfg path =
     (if sCert cfg = None then Inl CertRequired
      else let path' = (if path = [] then ''/ws'' else path); cfg' = with_prologue cfg in
        case listen (sAddr cfg) of Some e \<Rightarrow> Inl (ListenFailed e) | None \<Rightarrow> Inr (cfg', path'))"

text \<open>The TCP server's state is the configuration that its handler uses.\<close>

definition tcp_Listen :: "(string \<Rightarrow> string option) \<Rightarrow> server_config \<Rightarrow> string list \<Rightarrow> listen_err + tcp_config" where
  "tcp_Listen listen cfg magic =
     (if sCert cfg = None then Inl CertRequired
      else (case listen (sAddr cfg) of
              Some e \<Rightarrow> Inl (ListenFailed e)
            | None \<Rightarrow> Inr \<lparr>NoiseStatic = sStatic cfg, NoisePrologue = sPrologue (with_prologue cfg),
                          DecoyAddr = sDecoyAddr cfg, magicSNIs = magic\<rparr>))"

subsection \<open>Accept loops\<close>

text \<open>The results of successive \<^verbatim>\<open>Accept\<close> calls, an error with whether the server was closed by then. The value
  is the connections whose handlers were started, and how the loop ended: not yet, silently, or with
  the error logged.\<close>

datatype loop_end = Waiting | Quiet | Logged string

fun acceptLoop :: "((string \<times> bool) + 'c) list \<Rightarrow> 'c list \<times> loop_end" where
  "acceptLoop [] = ([], Waiting)"
| "acceptLoop (Inr c # rs) = (case acceptLoop rs of (cs, e) \<Rightarrow> (c # cs, e))"
| "acceptLoop (Inl (err, closed) # rs) = ([], if closed then Quiet else Logged err)"

text \<open>The streams of one QUIC connection.\<close>

fun quic_handleConn :: "(string + 'st) list \<Rightarrow> 'st list" where
  "quic_handleConn [] = []"
| "quic_handleConn (Inr st # rs) = st # quic_handleConn rs"
| "quic_handleConn (Inl e # rs) = []"

subsection \<open>Handlers\<close>

datatype closed_what = TheStream | TheTLS | TheRaw | TheWebSocket | TheSession

datatype ('s, 'w) carrier_act = Deadline "nat option" | Shut closed_what | Hand "('s, 'w) tstream"

definition srv_hello :: bytes where "srv_hello = bytes_of ''avangard-srv-hello''"
definition cli_hello :: bytes where "cli_hello = bytes_of ''avangard-cli-hello''"

definition quic_handleStream ::
  "server_config \<Rightarrow> ('h, 'c) noise_lib \<Rightarrow> 's reader \<Rightarrow> 'w writer \<Rightarrow> bool \<Rightarrow> ('s, 'w) duplex
     \<Rightarrow> ('s, 'w) carrier_act list option" where
  "quic_handleStream cfg lib rd wr queued d =
     (case ServerHandshake lib rd wr (sStatic cfg) (sPrologue cfg) srv_hello d of
        None \<Rightarrow> None
      | Some (Inl _, _) \<Rightarrow> Some [Shut TheStream]
      | Some (Inr hr, d') \<Rightarrow> Some [if queued then Hand (as_tunnel d' (Hash hr)) else Shut TheStream])"

text \<open>A failed upgrade has been answered by the library.\<close>

definition ws_handleWS ::
  "server_config \<Rightarrow> ('h, 'c) noise_lib \<Rightarrow> string + (ws_stream, ws_peer) duplex \<Rightarrow> bool
     \<Rightarrow> (ws_stream, ws_peer) carrier_act list option" where
  "ws_handleWS cfg lib upgraded queued =
     (case upgraded of
        Inl _ \<Rightarrow> Some []
      | Inr d \<Rightarrow>
     (case ServerHandshake lib ws_read ws_write (sStatic cfg) (sPrologue cfg) srv_hello d of
        None \<Rightarrow> None
      | Some (Inl _, _) \<Rightarrow> Some [Shut TheWebSocket]
      | Some (Inr hr, d') \<Rightarrow> Some [if queued then Hand (as_tunnel d' (Hash hr)) else Shut TheWebSocket]))"

text \<open>The results of \<^verbatim>\<open>AcceptStream\<close> on one session, each with whether the queue takes the stream.\<close>

fun acceptStreams :: "bytes \<Rightarrow> ((string + ('s, 'w) duplex) \<times> bool) list \<Rightarrow> ('s, 'w) carrier_act list" where
  "acceptStreams h [] = []"
| "acceptStreams h ((Inl e, q) # rs) = [Shut TheSession]"
| "acceptStreams h ((Inr d, True) # rs) = Hand (as_tunnel d h) # acceptStreams h rs"
| "acceptStreams h ((Inr d, False) # rs) = [Shut TheStream, Shut TheSession]"

definition smux_handleOuter ::
  "server_config \<Rightarrow> ('h, 'c) noise_lib \<Rightarrow> 't reader \<Rightarrow> 'v writer \<Rightarrow> string + ('t, 'v) duplex \<Rightarrow> string option
     \<Rightarrow> ((string + ('s, 'w) duplex) \<times> bool) list \<Rightarrow> ('s, 'w) carrier_act list option" where
  "smux_handleOuter cfg lib trd twr tls smux substreams =
     map_option (\<lambda>acts. Deadline (Some 15) # acts)
     (case tls of
        Inl _ \<Rightarrow> Some [Shut TheRaw]
      | Inr t \<Rightarrow>
     (case ServerHandshake lib trd twr (sStatic cfg) (sPrologue cfg) srv_hello t of
        None \<Rightarrow> None
      | Some (Inl _, _) \<Rightarrow> Some [Shut TheTLS]
      | Some (Inr hr, _) \<Rightarrow>
          Some (Deadline None #
            (case smux of Some _ \<Rightarrow> [Shut TheTLS] | None \<Rightarrow> acceptStreams (Hash hr) substreams))))"

subsection \<open>Dialling\<close>

datatype carrier_err = OpenStream string | CarrierDial string | CarrierTLS string | Upgrade string | CarrierNoise noise_err

definition quic_Dial ::
  "('h, 'c) noise_lib \<Rightarrow> 's reader \<Rightarrow> 'w writer \<Rightarrow> client_config \<Rightarrow> string + ('s, 'w) duplex
     \<Rightarrow> ((carrier_err + ('s, 'w) tstream) \<times> closed_what list) option" where
  "quic_Dial lib rd wr cfg opened =
     (case opened of
        Inl e \<Rightarrow> Some (Inl (OpenStream e), [])
      | Inr d \<Rightarrow>
     (case ClientHandshake lib rd wr (ServerStaticPub cfg) (CPrologue cfg) cli_hello d of
        None \<Rightarrow> None
      | Some (Inl e, _) \<Rightarrow> Some (Inl (CarrierNoise e), [TheStream])
      | Some (Inr hr, d') \<Rightarrow> Some (Inr (as_tunnel d' (Hash hr)), [])))"

text \<open>\<open>tls_dial\<close> depends on the fingerprint, \<open>upgrade\<close> on the host and path of the request.\<close>

definition ws_Dial ::
  "('h, 'c) noise_lib \<Rightarrow> client_config \<Rightarrow> string \<Rightarrow> (string \<Rightarrow> string option) \<Rightarrow> (tls_choice \<Rightarrow> string option)
     \<Rightarrow> (string \<Rightarrow> string \<Rightarrow> string + (ws_stream, ws_peer) duplex)
     \<Rightarrow> ((carrier_err + (ws_stream, ws_peer) tstream) \<times> closed_what list) option" where
  "ws_Dial lib cfg path tcp_dial tls_dial upgrade =
     (case tcp_dial (Addr cfg) of
        Some e \<Rightarrow> Some (Inl (CarrierDial e), [])
      | None \<Rightarrow>
     (case tls_dial (dialTLS (Fingerprint cfg)) of
        Some e \<Rightarrow> Some (Inl (CarrierTLS e), [TheRaw])
      | None \<Rightarrow>
     (case upgrade (if SNI cfg = [] then Addr cfg else SNI cfg) path of
        Inl e \<Rightarrow> Some (Inl (Upgrade e), [TheTLS])
      | Inr d \<Rightarrow>
     (case ClientHandshake lib ws_read ws_write (ServerStaticPub cfg) (CPrologue cfg) cli_hello d of
        None \<Rightarrow> None
      | Some (Inl e, _) \<Rightarrow> Some (Inl (CarrierNoise e), [TheWebSocket])
      | Some (Inr hr, d') \<Rightarrow> Some (Inr (as_tunnel d' (Hash hr)), [])))))"

subsection \<open>The handshake over any duplex byte stream\<close>

text \<open>The messages and results of an NK exchange, named; \<open>nk_completes\<close> says that there are some.\<close>

definition nk_run :: "('h, 'c) noise_lib \<Rightarrow> dh_key \<Rightarrow> bytes \<Rightarrow> bytes \<Rightarrow> bytes \<Rightarrow> bytes \<Rightarrow> bytes \<Rightarrow> 'c \<Rightarrow> 'c \<Rightarrow> bytes \<Rightarrow> bool" where
  "nk_run lib static prologue p1 p2 m1 m2 c1 c2 h \<longleftrightarrow>
     (\<exists>hc hs hc1 hs1 hc2 hs2.
        NewHandshakeState lib \<lparr>Initiator = True, Prologue = prologue, PeerStatic = Public static, StaticKeypair = None\<rparr> = Inr hc
      \<and> NewHandshakeState lib \<lparr>Initiator = False, Prologue = prologue, PeerStatic = [], StaticKeypair = Some static\<rparr> = Inr hs
      \<and> WriteMessage lib hc p1 = Inr (m1, None, None, hc1) \<and> ReadMessage lib hs m1 = Inr (p1, None, None, hs1)
      \<and> WriteMessage lib hs1 p2 = Inr (m2, Some c1, Some c2, hs2) \<and> ReadMessage lib hc1 m2 = Inr (p2, Some c1, Some c2, hc2)
      \<and> ChannelBinding lib hc2 = h \<and> ChannelBinding lib hs2 = h
      \<and> length m1 \<in> {1..65535} \<and> length m2 \<in> {1..65535})"

lemma nk_run_ex:
  "nk_completes lib static prologue p1 p2 \<Longrightarrow> \<exists>m1 m2 c1 c2 h. nk_run lib static prologue p1 p2 m1 m2 c1 c2 h"
  unfolding nk_completes_def nk_run_def by blast

context byte_source
begin

lemma readFrame_returns: "\<exists>r s'. readFrame rd s = Some (r, s') \<and> parse_frame (content s, final s) = (r, (content s', final s'))"
  using readFrame_refines unfolding refines_def view_def by blast

lemma readFrame_frame:
  assumes "content s = frame m @ rest" "length m \<in> {1..65535}"
  shows "\<exists>s'. readFrame rd s = Some (Inr m, s') \<and> content s' = rest \<and> final s' = final s"
proof -
  have "m \<noteq> []" "length m \<le> 65535"
    using assms(2) by auto
  then have "parse_frame (content s, final s) = (Inr m, (rest, final s))"
    unfolding assms(1) by (rule parse_frame_frame)
  then show ?thesis
    using readFrame_returns [of s] by auto
qed

lemma ServerHandshake_returns: "\<exists>r d'. ServerHandshake lib rd wr static prologue reply d = Some (r, d')"
proof -
  obtain r s where "readFrame rd (rx d) = Some (r, s)"
    using readFrame_returns by blast
  then show ?thesis
    by (auto simp: ServerHandshake_def split: sum.split prod.split option.split)
qed

lemma client_completes:
  assumes "nk_run lib static prologue p1 p2 m1 m2 c1 c2 h" "length (Public static) = 32"
    and "content (rx d) = frame m2 @ rest" "writeFrame wr m1 (tx d) = (None, w)"
  shows "\<exists>s. ClientHandshake lib rd wr (Public static) prologue p1 d
      = Some (Inr \<lparr>Send = c1, Recv = c2, Hash = h, Payload = p2\<rparr>, d\<lparr>tx := w, rx := s\<rparr>)
    \<and> content s = rest \<and> final s = final (rx d)"
proof -
  have len: "length m2 \<in> {1..65535}"
    using assms(1) by (auto simp: nk_run_def)
  obtain s where "readFrame rd (rx d) = Some (Inr m2, s)" "content s = rest" "final s = final (rx d)"
    using readFrame_frame [OF assms(3) len] by blast
  then show ?thesis
    using assms(1,2,4) by (auto simp: nk_run_def ClientHandshake_def)
qed

lemma server_completes:
  assumes "nk_run lib static prologue p1 p2 m1 m2 c1 c2 h"
    and "content (rx d) = frame m1 @ rest" "writeFrame wr m2 (tx d) = (None, w)"
  shows "\<exists>s. ServerHandshake lib rd wr static prologue p2 d
      = Some (Inr \<lparr>Send = c2, Recv = c1, Hash = h, Payload = p1\<rparr>, d\<lparr>rx := s, tx := w\<rparr>)
    \<and> content s = rest \<and> final s = final (rx d)"
proof -
  have len: "length m1 \<in> {1..65535}"
    using assms(1) by (auto simp: nk_run_def)
  obtain s where "readFrame rd (rx d) = Some (Inr m1, s)" "content s = rest" "final s = final (rx d)"
    using readFrame_frame [OF assms(2) len] by blast
  then show ?thesis
    using assms(1,3) by (auto simp: nk_run_def ServerHandshake_def)
qed

end

lemma writeFrame_ws:
  "length m \<le> 65535 \<Longrightarrow> writeFrame ws_write m (ms, None) = (None, (ms @ [be16 (word_of_nat (length m)), m], None))"
  by (simp add: writeFrame_def ws_write_def frame_header)

text \<open>A QUIC client and server complete the handshake on one stream.\<close>

lemma quic_session:
  assumes run: "nk_run lib (sStatic q) (sPrologue q) cli_hello srv_hello m1 m2 c1 c2 h" "length (Public (sStatic q)) = 32"
    and cfg: "ServerStaticPub cfg = Public (sStatic q)" "CPrologue cfg = sPrologue q"
    and io: "concat up = frame m1 @ x" "concat down = frame m2 @ y"
  shows "\<exists>s1 s2.
      quic_Dial lib seg_read peer_write cfg (Inr \<lparr>rx = (down, e1), tx = ([], None)\<rparr>)
        = Some (Inr \<lparr>rx = s1, tx = (frame m1, None), Channel = h\<rparr>, [])
    \<and> quic_handleStream q lib seg_read peer_write True \<lparr>rx = (up, e2), tx = ([], None)\<rparr>
        = Some [Hand \<lparr>rx = s2, tx = (frame m2, None), Channel = h\<rparr>]
    \<and> conn_content s1 = y \<and> conn_content s2 = x"
proof -
  let ?cd = "\<lparr>rx = (down, e1), tx = ([], None)\<rparr> :: (conn, peer) duplex"
  let ?sd = "\<lparr>rx = (up, e2), tx = ([], None)\<rparr> :: (conn, peer) duplex"
  have "writeFrame peer_write m1 (tx ?cd) = (None, (frame m1, None))" "writeFrame peer_write m2 (tx ?sd) = (None, (frame m2, None))"
    using run(1) writeFrame_open [of m1 "[]"] writeFrame_open [of m2 "[]"] by (auto simp: nk_run_def)
  then show ?thesis
    using sock.client_completes [OF run, of ?cd y peer_write] sock.server_completes [OF run(1), of ?sd x peer_write] io cfg
    by (auto simp: conn_content_def quic_Dial_def quic_handleStream_def as_tunnel_def)
qed

subsection \<open>The substreams of a session\<close>

text \<open>The substreams before the first one that fails or is not taken.\<close>

definition taken :: "((string + ('s, 'w) duplex) \<times> bool) list \<Rightarrow> ('s, 'w) duplex list" where
  "taken rs = map (\<lambda>r. projr (fst r)) (takeWhile (\<lambda>r. \<not> isl (fst r) \<and> snd r) rs)"

definition after_taken :: "((string + ('s, 'w) duplex) \<times> bool) list \<Rightarrow> ('s, 'w) carrier_act list" where
  "after_taken rs = (case drop (length (taken rs)) rs of
     [] \<Rightarrow> []
   | (Inl _, _) # _ \<Rightarrow> [Shut TheSession]
   | (Inr _, _) # _ \<Rightarrow> [Shut TheStream, Shut TheSession])"

lemma acceptStreams_shape:
  "acceptStreams h rs = map (\<lambda>d. Hand (as_tunnel d h)) (taken rs) @ after_taken rs"
  by (induction h rs rule: acceptStreams.induct) (auto simp: taken_def after_taken_def)

subsection \<open>Properties\<close>


text \<open>A WebSocket session: a client that dials with the server's key and the same prologue, and a server
  that serves it, over any WebSocket messages that carry the two handshake frames and whatever follows
  (the messages each side actually sends are among them), both end with a stream, with the same channel
  binding, and with nothing of what follows consumed. The request goes to the configured name, or to the
  address when there is none.\<close>

theorem ws_session:
  assumes "nk_completes lib (sStatic scfg) (sPrologue scfg) cli_hello srv_hello"
    and "length (Public (sStatic scfg)) = 32"
    and "ServerStaticPub cfg = Public (sStatic scfg)" "CPrologue cfg = sPrologue scfg"
    and "tcp_dial (Addr cfg) = None" "tls_dial (dialTLS (Fingerprint cfg)) = None"
  shows "\<exists>cms sms h. \<forall>up down x y e1 e2. concat up = concat cms @ x \<and> concat down = concat sms @ y \<longrightarrow>
    (\<exists>s1 s2.
       ws_Dial lib cfg path tcp_dial tls_dial
         (\<lambda>host p. if host = (if SNI cfg = [] then Addr cfg else SNI cfg) \<and> p = path
            then Inr \<lparr>rx = newWSStream down e1, tx = ([], None)\<rparr> else Inl ''bad handshake'')
         = Some (Inr \<lparr>rx = s1, tx = (cms, None), Channel = h\<rparr>, [])
     \<and> ws_handleWS scfg lib (Inr \<lparr>rx = newWSStream up e2, tx = ([], None)\<rparr>) True
         = Some [Hand \<lparr>rx = s2, tx = (sms, None), Channel = h\<rparr>]
     \<and> ws_content s1 = y \<and> ws_content s2 = x)"
proof -
  obtain m1 m2 c1 c2 h where run: "nk_run lib (sStatic scfg) (sPrologue scfg) cli_hello srv_hello m1 m2 c1 c2 h"
    using nk_run_ex [OF assms(1)] by blast
  have len: "length m1 \<le> 65535" "length m2 \<le> 65535"
    using run by (auto simp: nk_run_def)
  let ?ms = "\<lambda>m. [be16 (word_of_nat (length m)), m]"
  show ?thesis
  proof (rule exI [of _ "?ms m1"], rule exI [of _ "?ms m2"], rule exI [of _ h], intro allI impI)
    fix up down x y e1 e2
    assume io: "concat up = concat (?ms m1) @ x \<and> concat down = concat (?ms m2) @ y"
    let ?cd = "\<lparr>rx = newWSStream down e1, tx = ([], None)\<rparr> :: (ws_stream, ws_peer) duplex"
    let ?sd = "\<lparr>rx = newWSStream up e2, tx = ([], None)\<rparr> :: (ws_stream, ws_peer) duplex"
    have "ws_content (rx ?cd) = frame m2 @ y" "ws_content (rx ?sd) = frame m1 @ x"
      using io by (simp_all add: ws_content_def newWSStream_def frame_def)
    then obtain s1 s2 where
      "ClientHandshake lib ws_read ws_write (Public (sStatic scfg)) (sPrologue scfg) cli_hello ?cd
         = Some (Inr \<lparr>Send = c1, Recv = c2, Hash = h, Payload = srv_hello\<rparr>, ?cd\<lparr>tx := (?ms m1, None), rx := s1\<rparr>)"
      "ws_content s1 = y"
      "ServerHandshake lib ws_read ws_write (sStatic scfg) (sPrologue scfg) srv_hello ?sd
         = Some (Inr \<lparr>Send = c2, Recv = c1, Hash = h, Payload = cli_hello\<rparr>, ?sd\<lparr>rx := s2, tx := (?ms m2, None)\<rparr>)"
      "ws_content s2 = x"
      using ws.client_completes [OF run assms(2), of ?cd y ws_write "(?ms m1, None)"]
        ws.server_completes [OF run, of ?sd x ws_write "(?ms m2, None)"] writeFrame_ws [OF len(1), of "[]"] writeFrame_ws [OF len(2), of "[]"]
      by auto
    then show "\<exists>s1 s2.
       ws_Dial lib cfg path tcp_dial tls_dial
         (\<lambda>host p. if host = (if SNI cfg = [] then Addr cfg else SNI cfg) \<and> p = path
            then Inr ?cd else Inl ''bad handshake'')
         = Some (Inr \<lparr>rx = s1, tx = (?ms m1, None), Channel = h\<rparr>, [])
     \<and> ws_handleWS scfg lib (Inr ?sd) True = Some [Hand \<lparr>rx = s2, tx = (?ms m2, None), Channel = h\<rparr>]
     \<and> ws_content s1 = y \<and> ws_content s2 = x"
      using assms(3-6) by (simp add: ws_Dial_def ws_handleWS_def as_tunnel_def)
  qed
qed

definition sample_scfg :: server_config where
  "sample_scfg = \<lparr>sAddr = '':443'', sUUIDs = [''id''], sStatic = sample_key, sCert = Some [[1]], sDecoyAddr = [], sPrologue = DefaultPrologue\<rparr>"

definition sample_ccfg :: client_config where
  "sample_ccfg = \<lparr>Addr = ''h:443'', UUID = ''id'', SNI = [], ServerStaticPub = Public sample_key, InsecureSkipVerify = False,
     CPrologue = DefaultPrologue, Fingerprint = []\<rparr>"

lemma sample_completes: "nk_completes plain_lib sample_key p cli_hello srv_hello"
  by (simp add: nk_completes_def plain_lib_def plain_write_def plain_read_def cli_hello_def srv_hello_def)

theorem ws_session_witness:
  "\<exists>cms sms h s1 s2.
     ws_Dial plain_lib sample_ccfg ''/ws'' (\<lambda>_. None) (\<lambda>_. None)
       (\<lambda>host p. if host = ''h:443'' \<and> p = ''/ws'' then Inr \<lparr>rx = newWSStream [concat sms] EOF, tx = ([], None)\<rparr> else Inl ''bad handshake'')
       = Some (Inr \<lparr>rx = s1, tx = (cms, None), Channel = h\<rparr>, [])
   \<and> ws_handleWS sample_scfg plain_lib (Inr \<lparr>rx = newWSStream (cms @ [[9]]) EOF, tx = ([], None)\<rparr>) True
       = Some [Hand \<lparr>rx = s2, tx = (sms, None), Channel = h\<rparr>]
   \<and> ws_content s2 = [9]"
proof -
  have c: "nk_completes plain_lib (sStatic sample_scfg) (sPrologue sample_scfg) cli_hello srv_hello"
    using sample_completes by (simp add: sample_scfg_def)
  have key: "length (Public (sStatic sample_scfg)) = 32" "ServerStaticPub sample_ccfg = Public (sStatic sample_scfg)"
    "CPrologue sample_ccfg = sPrologue sample_scfg"
    by (simp_all add: sample_scfg_def sample_ccfg_def sample_key_def)
  have host: "(if SNI sample_ccfg = [] then Addr sample_ccfg else SNI sample_ccfg) = ''h:443''"
    by (simp add: sample_ccfg_def)
  obtain cms sms h where s: "\<forall>up down x y e1 e2. concat up = concat cms @ x \<and> concat down = concat sms @ y \<longrightarrow>
    (\<exists>s1 s2.
       ws_Dial plain_lib sample_ccfg ''/ws'' (\<lambda>_. None) (\<lambda>_. None)
         (\<lambda>host p. if host = ''h:443'' \<and> p = ''/ws''
            then Inr \<lparr>rx = newWSStream down e1, tx = ([], None)\<rparr> else Inl ''bad handshake'')
         = Some (Inr \<lparr>rx = s1, tx = (cms, None), Channel = h\<rparr>, [])
     \<and> ws_handleWS sample_scfg plain_lib (Inr \<lparr>rx = newWSStream up e2, tx = ([], None)\<rparr>) True
         = Some [Hand \<lparr>rx = s2, tx = (sms, None), Channel = h\<rparr>]
     \<and> ws_content s1 = y \<and> ws_content s2 = x)"
    using ws_session [OF c key, where tcp_dial = "\<lambda>_. None" and tls_dial = "\<lambda>_. None" and path = "''/ws''", OF refl refl]
    unfolding host by blast
  show ?thesis
    using s [rule_format, of "cms @ [[9]]" "[9]" "[concat sms]" "[]" EOF EOF] by auto
qed

end
