(* ===== verification/GoUrl.thy ===== *)
theory GoUrl
  imports GoStrings GoNet "HOL-Library.Char_ord" "HOL-Library.List_Lexorder"
begin

text \<open>
  Go's \<^verbatim>\<open>net/url\<close> (of the Go 1.24 that \<^verbatim>\<open>go.mod\<close> names) as far as \<^verbatim>\<open>pkg/uri\<close> uses it: percent
  escapes per component, \<^verbatim>\<open>url.Parse\<close>, \<^verbatim>\<open>Hostname\<close>, \<^verbatim>\<open>Port\<close>, \<^verbatim>\<open>Query\<close>, \<^verbatim>\<open>Values.Encode\<close> and
  \<^verbatim>\<open>URL.String\<close>. Errors are \<open>None\<close>: the caller passes them on unread.
\<close>

subsection \<open>Escapes\<close>

datatype escape_mode = EncPath | EncUser | EncHost | EncZone | EncQuery | EncFragment

definition is_alnum :: "char \<Rightarrow> bool" where
  "is_alnum c \<longleftrightarrow> is_digit c \<or> (97 \<le> (of_char c :: nat) \<and> (of_char c :: nat) \<le> 122)
     \<or> (65 \<le> (of_char c :: nat) \<and> (of_char c :: nat) \<le> 90)"

definition should_escape :: "char \<Rightarrow> escape_mode \<Rightarrow> bool" where
  "should_escape c m =
     (if is_alnum c then False
      else if m \<in> {EncHost, EncZone} \<and> c \<in> set ''!$&()*+,;=:[]<>'' \<union> {CHR 0x27, CHR 0x22} then False
      else if c \<in> set ''-_.~'' then False
      else if c \<in> set ''$&+,/:;=?@'' then
        (case m of
           EncPath \<Rightarrow> c = CHR ''?''
         | EncUser \<Rightarrow> c \<in> set ''@/?:''
         | EncQuery \<Rightarrow> True
         | EncFragment \<Rightarrow> False
         | _ \<Rightarrow> True)
      else if m = EncFragment \<and> c \<in> set ''!()*'' then False
      else True)"

definition upper_digit :: "nat \<Rightarrow> char" where
  "upper_digit d = char_of (if d < 10 then 48 + d else 55 + d)"

definition percent :: "char \<Rightarrow> string" where
  "percent c = [CHR ''%'', upper_digit (of_char c div 16), upper_digit (of_char c mod 16)]"

definition escape_char :: "escape_mode \<Rightarrow> char \<Rightarrow> string" where
  "escape_char m c =
     (if should_escape c m then (if c = CHR '' '' \<and> m = EncQuery then ''+'' else percent c) else [c])"

definition escape :: "escape_mode \<Rightarrow> string \<Rightarrow> string" where
  "escape m s = concat (map (escape_char m) s)"

text \<open>Whether the escape \<^verbatim>\<open>%hl\<close> may stand in a component: in a host only for bytes that are not ASCII,
  and for the percent sign.\<close>

definition escape_allowed :: "escape_mode \<Rightarrow> char \<Rightarrow> char \<Rightarrow> bool" where
  "escape_allowed m h l \<longleftrightarrow>
     (m = EncHost \<longrightarrow> 8 \<le> digit_val h \<or> [h, l] = ''25'')
   \<and> (m = EncZone \<longrightarrow> [h, l] = ''25'' \<or> char_of (16 * digit_val h + digit_val l) = CHR '' ''
        \<or> \<not> should_escape (char_of (16 * digit_val h + digit_val l)) EncHost)"

fun unescape :: "escape_mode \<Rightarrow> string \<Rightarrow> string option" where
  "unescape m [] = Some []"
| "unescape m (c # cs) =
     (if c = CHR ''%'' then
        (case cs of
           h # l # r \<Rightarrow>
             if is_hex h \<and> is_hex l \<and> escape_allowed m h l
             then map_option (Cons (char_of (16 * digit_val h + digit_val l))) (unescape m r)
             else None
         | _ \<Rightarrow> None)
      else if m \<in> {EncHost, EncZone} \<and> is_ascii c \<and> should_escape c m then None
      else map_option (Cons (if c = CHR ''+'' \<and> m = EncQuery then CHR '' '' else c)) (unescape m cs))"

subsection \<open>Parsing a URL\<close>

record parsed_url =
  scheme :: string
  user :: "string option"
  host :: string
  path :: string
  raw_query :: string
  fragment :: string

definition cut :: "char \<Rightarrow> string \<Rightarrow> string \<times> string" where
  "cut d s = (takeWhile (\<lambda>c. c \<noteq> d) s, tl (dropWhile (\<lambda>c. c \<noteq> d) s))"

definition is_ctl :: "char \<Rightarrow> bool" where
  "is_ctl c \<longleftrightarrow> of_char c < (32 :: nat) \<or> of_char c = (127 :: nat)"

definition scheme_tail :: "char \<Rightarrow> bool" where
  "scheme_tail c \<longleftrightarrow> is_digit c \<or> c \<in> set ''+-.''"

definition get_scheme :: "string \<Rightarrow> (string \<times> string) option" where
  "get_scheme s =
     (if s \<noteq> [] \<and> scheme_tail (hd s) then Some ([], s)
      else (case dropWhile (\<lambda>c. is_alnum c \<or> scheme_tail c) s of
              [] \<Rightarrow> Some ([], s)
            | c # r \<Rightarrow>
                if c \<noteq> CHR '':'' then Some ([], s)
                else if r = tl s then None
                else Some (takeWhile (\<lambda>c. is_alnum c \<or> scheme_tail c) s, r)))"

definition valid_userinfo :: "string \<Rightarrow> bool" where
  "valid_userinfo s \<longleftrightarrow> list_all (\<lambda>c. is_alnum c \<or> c \<in> set ''-._:~!$&()*+,;=%@'' \<or> c = CHR 0x27) s"

definition valid_optional_port :: "string \<Rightarrow> bool" where
  "valid_optional_port s \<longleftrightarrow> s = [] \<or> (hd s = CHR '':'' \<and> list_all is_digit (tl s))"

definition parse_host :: "string \<Rightarrow> string option" where
  "parse_host h =
     (if HasPrefix h ''['' then
        (case find_last_index CHR '']'' h of
           None \<Rightarrow> None
         | Some i \<Rightarrow>
             if \<not> valid_optional_port (drop (i + 1) h) then None
             else (case Index (take i h) ''%25'' of
                     Some z \<Rightarrow>
                       Option.bind (unescape EncHost (take z h)) (\<lambda>h1.
                       Option.bind (unescape EncZone (drop z (take i h))) (\<lambda>h2.
                       Option.bind (unescape EncHost (drop i h)) (\<lambda>h3. Some (h1 @ h2 @ h3))))
                   | None \<Rightarrow> unescape EncHost h))
      else (case find_last_index CHR '':'' h of
              Some i \<Rightarrow> if valid_optional_port (drop i h) then unescape EncHost h else None
            | None \<Rightarrow> unescape EncHost h))"

text \<open>The user information counts up to its first colon; a password must be well-formed too.\<close>

definition parse_user :: "string \<Rightarrow> string option" where
  "parse_user info =
     (if \<not> valid_userinfo info then None
      else if CHR '':'' \<notin> set info then unescape EncUser info
      else Option.bind (unescape EncUser (fst (cut CHR '':'' info))) (\<lambda>u.
           Option.bind (unescape EncUser (snd (cut CHR '':'' info))) (\<lambda>_. Some u)))"

definition parse_authority :: "string \<Rightarrow> (string option \<times> string) option" where
  "parse_authority a =
     (case find_last_index CHR ''@'' a of
        None \<Rightarrow> map_option (Pair None) (parse_host a)
      | Some i \<Rightarrow>
          Option.bind (parse_host (drop (i + 1) a)) (\<lambda>h.
          Option.bind (parse_user (take i a)) (\<lambda>u. Some (Some u, h))))"

definition with_path :: "string \<Rightarrow> parsed_url \<Rightarrow> parsed_url option" where
  "with_path p u = map_option (\<lambda>q. u\<lparr>path := q\<rparr>) (unescape EncPath p)"

text \<open>\<^verbatim>\<open>parse\<close> on the text before the fragment. A path without leading slash after a scheme is
  opaque; without a scheme its first segment has no colon.\<close>

definition parse_rest :: "string \<Rightarrow> parsed_url \<Rightarrow> parsed_url option" where
  "parse_rest rest u =
     (if \<not> HasPrefix rest ''/'' \<and> scheme u \<noteq> [] then Some u
      else if \<not> HasPrefix rest ''/'' \<and> CHR '':'' \<in> set (fst (cut CHR ''/'' rest)) then None
      else if (scheme u \<noteq> [] \<or> \<not> HasPrefix rest ''///'') \<and> HasPrefix rest ''//'' then
        Option.bind (parse_authority (takeWhile (\<lambda>c. c \<noteq> CHR ''/'') (drop 2 rest))) (\<lambda>(usr, h).
          with_path (dropWhile (\<lambda>c. c \<noteq> CHR ''/'') (drop 2 rest)) (u\<lparr>user := usr, host := h\<rparr>))
      else with_path rest u)"

definition parse_no_fragment :: "string \<Rightarrow> parsed_url option" where
  "parse_no_fragment s =
     (if list_ex is_ctl s then None
      else if s = ''*'' then Some \<lparr>scheme = [], user = None, host = [], path = ''*'', raw_query = [], fragment = []\<rparr>
      else Option.bind (get_scheme s) (\<lambda>(sch, rest).
        let (body, query) = cut CHR ''?'' rest in
        parse_rest body \<lparr>scheme = ToLower id sch, user = None, host = [], path = [], raw_query = query, fragment = []\<rparr>))"

definition url_parse :: "string \<Rightarrow> parsed_url option" where
  "url_parse s =
     (case cut CHR ''#'' s of (u, frag) \<Rightarrow>
        Option.bind (parse_no_fragment u) (\<lambda>url.
        Option.bind (unescape EncFragment frag) (\<lambda>f. Some (url\<lparr>fragment := f\<rparr>))))"

subsection \<open>Host, port and query of a parsed URL\<close>

definition url_split_host_port :: "string \<Rightarrow> string \<times> string" where
  "url_split_host_port hp =
     (let (h, p) = (case find_last_index CHR '':'' hp of
                      Some i \<Rightarrow> if valid_optional_port (drop i hp) then (take i hp, drop (i + 1) hp) else (hp, [])
                    | None \<Rightarrow> (hp, []))
      in (if HasPrefix h ''['' \<and> last h = CHR '']'' then butlast (tl h) else h, p))"

definition Hostname :: "parsed_url \<Rightarrow> string" where "Hostname u = fst (url_split_host_port (host u))"
definition Port :: "parsed_url \<Rightarrow> string" where "Port u = snd (url_split_host_port (host u))"

text \<open>Malformed pairs are left out of the query, as \<^verbatim>\<open>URL.Query\<close> drops the error.\<close>

definition query_pair :: "string \<Rightarrow> (string \<times> string) list" where
  "query_pair piece =
     (if CHR '';'' \<in> set piece \<or> piece = [] then []
      else (case (unescape EncQuery (fst (cut CHR ''='' piece)), unescape EncQuery (snd (cut CHR ''='' piece))) of
              (Some k, Some v) \<Rightarrow> [(k, v)]
            | _ \<Rightarrow> []))"

definition Query :: "parsed_url \<Rightarrow> (string \<times> string) list" where
  "Query u = concat (map query_pair (split_on CHR ''&'' (raw_query u)))"

definition Get :: "(string \<times> string) list \<Rightarrow> string \<Rightarrow> string" where
  "Get q k = (case map_of q k of Some v \<Rightarrow> v | None \<Rightarrow> [])"

subsection \<open>Printing\<close>

definition encode_values :: "(string \<times> string) list \<Rightarrow> string" where
  "encode_values q = join_with ''&'' (map (\<lambda>(k, v). escape EncQuery k @ ''='' @ escape EncQuery v) (sort_key fst q))"

text \<open>\<^verbatim>\<open>URL.String\<close> of a URL with a user, without path.\<close>

definition url_string :: "string \<Rightarrow> string \<Rightarrow> string \<Rightarrow> string \<Rightarrow> string \<Rightarrow> string" where
  "url_string sch usr hp query frag =
     sch @ ''://'' @ escape EncUser usr @ ''@'' @ escape EncHost hp
     @ (if query = [] then [] else ''?'' @ query) @ (if frag = [] then [] else ''#'' @ escape EncFragment frag)"

subsection \<open>Escapes are read back\<close>

lemma upper_digit_ok: "d < 16 \<Longrightarrow> is_hex (upper_digit d) \<and> digit_val (upper_digit d) = d"
  by (simp add: upper_digit_def is_hex_def is_digit_def digit_val_def)

lemma is_alnum_hex: "is_hex c \<Longrightarrow> is_alnum c"
  by (auto simp: is_hex_def is_alnum_def)

lemma char_nibbles: "(of_char c :: nat) div 16 < 16" "(of_char c :: nat) mod 16 < 16"
proof -
  have "(of_char c :: nat) < 16 * 16"
    by simp
  then show "(of_char c :: nat) div 16 < 16"
    by (rule less_mult_imp_div_less)
qed simp

lemma unescape_percent:
  assumes "escape_allowed m (upper_digit (of_char c div 16)) (upper_digit (of_char c mod 16))"
  shows "unescape m (percent c @ t) = map_option (Cons c) (unescape m t)"
  using upper_digit_ok [OF char_nibbles(1)] upper_digit_ok [OF char_nibbles(2)] assms by (simp add: percent_def)

lemma should_escape_special: "should_escape CHR ''%'' m" "should_escape CHR ''+'' EncQuery"
  by (simp_all add: should_escape_def is_alnum_def is_digit_def)

lemma unescape_escape_char:
  assumes "m \<in> {EncHost, EncZone} \<Longrightarrow>
    \<not> should_escape c m \<or> escape_allowed m (upper_digit (of_char c div 16)) (upper_digit (of_char c mod 16))"
  shows "unescape m (escape_char m c @ t) = map_option (Cons c) (unescape m t)"
proof (cases "should_escape c m")
  case True
  then show ?thesis
    using assms unescape_percent [of m c t] by (auto simp: escape_char_def escape_allowed_def)
next
  case False
  then have "c \<noteq> CHR ''%''" "\<not> (c = CHR ''+'' \<and> m = EncQuery)"
    using should_escape_special by auto
  with False show ?thesis
    by (auto simp: escape_char_def)
qed

lemma escape_Nil [simp]: "escape m [] = []"
  by (simp add: escape_def)

lemma escape_Cons: "escape m (c # s) = escape_char m c @ escape m s"
  by (simp add: escape_def)

lemma escape_append [simp]: "escape m (s @ t) = escape m s @ escape m t"
  by (simp add: escape_def)

lemma escape_plain: "\<forall>c \<in> set s. \<not> should_escape c m \<Longrightarrow> escape m s = s"
  by (induction s) (auto simp: escape_Cons escape_char_def)

lemma escape_empty [simp]: "escape m s = [] \<longleftrightarrow> s = []"
  by (cases s) (auto simp: escape_Cons escape_char_def percent_def)

lemma unescape_escape: "m \<notin> {EncHost, EncZone} \<Longrightarrow> unescape m (escape m s) = Some s"
proof (induction s)
  case (Cons c s)
  then show ?case
    using unescape_escape_char [of m c "escape m s"] by (simp add: escape_Cons)
qed simp

text \<open>The characters that survive in a host name: those that need no escape, non-ASCII bytes, and
  the percent sign.\<close>

definition host_char :: "char \<Rightarrow> bool" where
  "host_char c \<longleftrightarrow> \<not> should_escape c EncHost \<or> \<not> is_ascii c \<or> c = CHR ''%''"

lemma host_char_escape:
  assumes "host_char c"
  shows "\<not> should_escape c EncHost
     \<or> escape_allowed EncHost (upper_digit (of_char c div 16)) (upper_digit (of_char c mod 16))"
proof (cases "is_ascii c")
  case True
  have "escape_allowed EncHost (upper_digit (of_char CHR ''%'' div 16)) (upper_digit (of_char CHR ''%'' mod 16))"
    by code_simp
  then show ?thesis
    using True assms unfolding host_char_def by blast
next
  case False
  then have "8 \<le> (of_char c :: nat) div 16"
    by (simp add: is_ascii_def)
  then show ?thesis
    using upper_digit_ok [OF char_nibbles(1), of c] by (simp add: escape_allowed_def)
qed

lemma unescape_escape_host: "\<forall>c \<in> set s. host_char c \<Longrightarrow> unescape EncHost (escape EncHost s) = Some s"
proof (induction s)
  case (Cons c s)
  then show ?case
    using unescape_escape_char [of EncHost c "escape EncHost s"] host_char_escape [of c] by (simp add: escape_Cons)
qed simp

lemma escape_set: "d \<in> set (escape m s) \<Longrightarrow>
    d \<in> set s \<and> \<not> should_escape d m \<or> d = CHR ''%'' \<or> is_hex d \<or> d = CHR ''+'' \<and> m = EncQuery"
proof (induction s)
  case (Cons c s)
  have "is_hex (upper_digit (of_char c div 16))" "is_hex (upper_digit (of_char c mod 16))"
    using upper_digit_ok char_nibbles by blast+
  with Cons show ?case
    by (auto simp: escape_Cons escape_char_def percent_def split: if_splits)
qed simp

text \<open>The delimiters of a URL do not occur in an escaped component.\<close>

lemma escape_free:
  assumes "should_escape d m" "d \<noteq> CHR ''%''" "\<not> is_hex d" "d \<noteq> CHR ''+''"
  shows "d \<notin> set (escape m s)"
  using escape_set [of d m s] assms by blast

lemma delimiters [simp]:
  "CHR ''#'' \<notin> set (escape EncUser s)" "CHR ''?'' \<notin> set (escape EncUser s)" "CHR ''/'' \<notin> set (escape EncUser s)"
  "CHR ''@'' \<notin> set (escape EncUser s)" "CHR '':'' \<notin> set (escape EncUser s)"
  "CHR ''#'' \<notin> set (escape EncHost s)" "CHR ''?'' \<notin> set (escape EncHost s)" "CHR ''/'' \<notin> set (escape EncHost s)"
  "CHR ''@'' \<notin> set (escape EncHost s)"
  "CHR ''#'' \<notin> set (escape EncQuery s)" "CHR ''&'' \<notin> set (escape EncQuery s)"
  "CHR ''='' \<notin> set (escape EncQuery s)" "CHR '';'' \<notin> set (escape EncQuery s)"
  "CHR ''#'' \<notin> set (escape EncFragment s)"
  by (rule escape_free; code_simp)+

lemma ctl_escaped: "is_ctl d \<Longrightarrow> should_escape d m \<and> d \<noteq> CHR ''%'' \<and> \<not> is_hex d \<and> d \<noteq> CHR ''+''"
proof -
  assume d: "is_ctl d"
  have "list_all (\<lambda>c. \<not> is_ctl c) ''!$&()*+,;=:[]<>-_.~/?@%''" "\<not> is_ctl CHR 0x27" "\<not> is_ctl CHR 0x22"
    by code_simp+
  then have "d \<notin> set ''!$&()*+,;=:[]<>-_.~/?@%''" "d \<noteq> CHR 0x27" "d \<noteq> CHR 0x22"
    using d unfolding list_all_iff by blast+
  moreover have "\<not> is_alnum d" "\<not> is_hex d"
    using d by (auto simp: is_ctl_def is_alnum_def is_digit_def is_hex_def)
  ultimately show ?thesis
    by (simp add: should_escape_def)
qed

lemma escape_no_ctl [simp]: "\<not> list_ex is_ctl (escape m s)"
  unfolding list_ex_iff using ctl_escaped escape_free by blast

lemma user_unescaped: "\<not> should_escape d EncUser \<Longrightarrow> is_alnum d \<or> d \<in> set ''-._:~!$&()*+,;=%@''"
  by (rule ccontr) (auto simp: should_escape_def split: if_splits)

lemma valid_userinfo_escape: "valid_userinfo (escape EncUser s)"
proof -
  have "is_alnum d \<or> d \<in> set ''-._:~!$&()*+,;=%@''" if "d \<in> set (escape EncUser s)" for d
  proof -
    have "CHR ''%'' \<in> set ''-._:~!$&()*+,;=%@''" "CHR ''+'' \<in> set ''-._:~!$&()*+,;=%@''"
      by simp_all
    then show ?thesis
      using escape_set [OF that] user_unescaped [of d] is_alnum_hex [of d] by blast
  qed
  then show ?thesis
    unfolding valid_userinfo_def list_all_iff by blast
qed

subsection \<open>Parsing a printed URL\<close>

lemma free_while:
  "d \<notin> set s \<Longrightarrow> takeWhile (\<lambda>c. c \<noteq> d) (s @ t) = s @ takeWhile (\<lambda>c. c \<noteq> d) t"
  "d \<notin> set s \<Longrightarrow> dropWhile (\<lambda>c. c \<noteq> d) (s @ t) = dropWhile (\<lambda>c. c \<noteq> d) t"
  by (induction s) auto

lemma free_all: "d \<notin> set s \<Longrightarrow> takeWhile (\<lambda>c. c \<noteq> d) s = s" "d \<notin> set s \<Longrightarrow> dropWhile (\<lambda>c. c \<noteq> d) s = []"
  by (induction s) auto

lemma cut_append: "d \<notin> set s \<Longrightarrow> cut d (s @ d # t) = (s, t)"
  by (simp add: cut_def free_while)

lemma cut_absent: "d \<notin> set s \<Longrightarrow> cut d s = (s, [])"
  by (simp add: cut_def free_all)

lemma get_scheme_append:
  assumes "list_all is_alnum s" "s \<noteq> []" "\<not> scheme_tail (hd s)"
  shows "get_scheme (s @ CHR '':'' # r) = Some (s, r)"
proof -
  let ?P = "\<lambda>c. is_alnum c \<or> scheme_tail c"
  have colon: "\<not> ?P CHR '':''"
    by code_simp
  have "dropWhile ?P (s @ CHR '':'' # r) = CHR '':'' # r" "takeWhile ?P (s @ CHR '':'' # r) = s"
    using assms(1) colon by (simp_all add: dropWhile_append2 takeWhile_append2 list_all_iff)
  moreover have "r \<noteq> tl (s @ CHR '':'' # r)"
    using assms(2) by (auto dest: arg_cong [of _ _ length])
  ultimately show ?thesis
    using assms by (simp add: get_scheme_def)
qed

lemma parse_user_escape: "parse_user (escape EncUser s) = Some s"
  by (simp add: parse_user_def valid_userinfo_escape unescape_escape)

lemma parse_authority_escape:
  assumes "parse_host (escape EncHost hp) = Some hp"
  shows "parse_authority (escape EncUser usr @ CHR ''@'' # escape EncHost hp) = Some (Some usr, hp)"
  using assms by (simp add: parse_authority_def find_last_index_append parse_user_escape)

lemma parse_rest_authority:
  assumes "parse_authority a = Some (usr, h)" "CHR ''/'' \<notin> set a" "scheme u \<noteq> []"
  shows "parse_rest (''//'' @ a) u = Some (u\<lparr>user := usr, host := h, path := []\<rparr>)"
  using assms by (simp add: parse_rest_def with_path_def free_all HasPrefix_def)

lemma parse_no_fragment_escape:
  assumes sch: "list_all is_alnum sch" "sch \<noteq> []" "\<not> scheme_tail (hd sch)" "map lower_char sch = sch"
    and hp: "parse_host (escape EncHost hp) = Some hp"
    and q: "CHR ''?'' \<notin> set sch" "\<not> list_ex is_ctl sch" "\<not> list_ex is_ctl q" "list_all is_ascii sch"
  shows "parse_no_fragment (sch @ ''://'' @ escape EncUser usr @ ''@'' @ escape EncHost hp @ (if q = [] then [] else ''?'' @ q))
    = Some \<lparr>scheme = sch, user = Some usr, host = hp, path = [], raw_query = q, fragment = []\<rparr>"
proof -
  let ?body = "''//'' @ escape EncUser usr @ CHR ''@'' # escape EncHost hp"
  let ?rest = "?body @ (if q = [] then [] else ''?'' @ q)"
  let ?s = "sch @ CHR '':'' # ?rest"
  have "\<not> list_ex is_ctl ?s"
    using q by (auto simp: is_ctl_def)
  moreover have "?s \<noteq> ''*''"
    using sch(2) by (auto simp: append_eq_Cons_conv)
  moreover have "get_scheme ?s = Some (sch, ?rest)"
    using sch(1-3) by (rule get_scheme_append)
  moreover have "cut CHR ''?'' ?rest = (?body, q)"
    using cut_append [of "CHR ''?''" ?body q] cut_absent [of "CHR ''?''" ?body] by simp
  moreover have "ToLower id sch = sch"
    using sch(4) q(4) by (simp add: ToLower_def)
  ultimately show ?thesis
    using parse_rest_authority [OF parse_authority_escape [OF hp, of usr], of "\<lparr>scheme = sch, user = None, host = [], path = [], raw_query = q, fragment = []\<rparr>"] sch(2)
    by (simp add: parse_no_fragment_def)
qed

text \<open>A printed URL parses to its parts.\<close>

lemma url_parse_string:
  assumes sch: "list_all is_alnum sch" "sch \<noteq> []" "\<not> scheme_tail (hd sch)" "map lower_char sch = sch"
    and hp: "parse_host (escape EncHost hp) = Some hp"
    and q: "CHR ''?'' \<notin> set sch" "\<not> list_ex is_ctl sch" "\<not> list_ex is_ctl q" "list_all is_ascii sch"
    and frag: "CHR ''#'' \<notin> set sch" "CHR ''#'' \<notin> set q"
  shows "url_parse (url_string sch usr hp q f)
    = Some \<lparr>scheme = sch, user = Some usr, host = hp, path = [], raw_query = q, fragment = f\<rparr>"
proof -
  let ?u = "sch @ ''://'' @ escape EncUser usr @ ''@'' @ escape EncHost hp @ (if q = [] then [] else ''?'' @ q)"
  have u: "CHR ''#'' \<notin> set ?u"
    using frag by auto
  have "url_string sch usr hp q f = ?u @ (if f = [] then [] else CHR ''#'' # escape EncFragment f)"
    by (simp add: url_string_def)
  then have "cut CHR ''#'' (url_string sch usr hp q f) = (?u, escape EncFragment f)"
    using cut_append [OF u, of "escape EncFragment f"] cut_absent [OF u] by (cases "f = []") simp_all
  then show ?thesis
    using parse_no_fragment_escape [OF sch hp q, of usr] by (simp add: url_parse_def unescape_escape)
qed

lemma url_string_fragment:
  "url_string sch usr hp q f = url_string sch usr hp q [] @ (if f = [] then [] else CHR ''#'' # escape EncFragment f)"
  by (simp add: url_string_def)

text \<open>An empty fragment is as good as none.\<close>

lemma url_parse_empty_fragment: "CHR ''#'' \<notin> set s \<Longrightarrow> url_parse (s @ ''#'') = url_parse s"
  by (simp add: url_parse_def cut_append cut_absent)

subsection \<open>The printed query\<close>

lemma encode_values_chars:
  "d \<in> set (encode_values q) \<Longrightarrow> (\<exists>s. d \<in> set (escape EncQuery s)) \<or> d = CHR ''='' \<or> d = CHR ''&''"
proof -
  have "d \<in> set (join_with sep ss) \<Longrightarrow> d \<in> set sep \<or> (\<exists>s \<in> set ss. d \<in> set s)" for sep ss
    by (induction sep ss rule: join_with.induct) auto
  then show "d \<in> set (encode_values q) \<Longrightarrow> ?thesis"
    by (fastforce simp: encode_values_def)
qed

lemma split_join_with: "ss \<noteq> [] \<Longrightarrow> \<forall>s \<in> set ss. d \<notin> set s \<Longrightarrow> split_on d (join_with [d] ss) = ss"
  by (induction "[d]" ss rule: join_with.induct) (simp_all add: split_on_plain split_on_append)

lemma query_pair_escape:
  "query_pair (escape EncQuery k @ ''='' @ escape EncQuery v) = [(k, v)]"
  by (simp add: query_pair_def cut_append unescape_escape)

lemma encode_values_free:
  "CHR ''?'' \<notin> set (encode_values q)" "CHR ''#'' \<notin> set (encode_values q)" "\<not> list_ex is_ctl (encode_values q)"
proof -
  have no: "CHR ''?'' \<notin> set (escape EncQuery s)" for s
    by (rule escape_free) code_simp+
  show "CHR ''?'' \<notin> set (encode_values q)" "CHR ''#'' \<notin> set (encode_values q)"
    using encode_values_chars [of _ q] no by fastforce+
  have "\<not> is_ctl CHR ''=''" "\<not> is_ctl CHR ''&''"
    by code_simp+
  then show "\<not> list_ex is_ctl (encode_values q)"
    using encode_values_chars [of _ q] escape_no_ctl [of EncQuery] unfolding list_ex_iff by blast
qed

text \<open>Reading the query that was printed gives the values, sorted by key.\<close>

lemma query_encode:
  assumes "raw_query u = encode_values q"
  shows "Query u = sort_key fst q"
proof (cases "q = []")
  case True
  then show ?thesis
    using assms by (simp add: Query_def encode_values_def query_pair_def)
next
  case False
  let ?ps = "map (\<lambda>(k, v). escape EncQuery k @ ''='' @ escape EncQuery v) (sort_key fst q)"
  have "?ps \<noteq> []"
    using False by (metis length_0_conv length_map length_sort)
  moreover have "\<forall>s \<in> set ?ps. CHR ''&'' \<notin> set s"
    by auto
  ultimately have "split_on CHR ''&'' (encode_values q) = ?ps"
    unfolding encode_values_def by (rule split_join_with)
  moreover have "concat (map query_pair (map (\<lambda>(k, v). escape EncQuery k @ ''='' @ escape EncQuery v) xs)) = xs" for xs
    by (induction xs) (auto simp: query_pair_escape simp del: append_Cons append_Nil)
  ultimately show ?thesis
    using assms by (simp add: Query_def)
qed

lemma get_sorted: "distinct (map fst q) \<Longrightarrow> Get (sort_key fst q) k = Get q k"
proof -
  assume d: "distinct (map fst q)"
  then have "map_of (sort_key fst q) = map_of q"
    by (intro map_of_inject_set [THEN iffD2]) (simp_all add: distinct_map distinct_sort)
  then show ?thesis
    by (simp add: Get_def)
qed

subsection \<open>Host and port\<close>

definition printable_host :: "string \<Rightarrow> bool" where
  "printable_host h \<longleftrightarrow> h \<noteq> [] \<and> CHR ''['' \<notin> set h \<and> CHR '']'' \<notin> set h
     \<and> (if CHR '':'' \<in> set h then \<forall>c \<in> set h. \<not> should_escape c EncHost else \<forall>c \<in> set h. host_char c)"

definition digits :: "string \<Rightarrow> bool" where
  "digits p \<longleftrightarrow> p \<noteq> [] \<and> list_all is_digit p"

lemma digits_plain: "digits p \<Longrightarrow> \<not> is_digit c \<Longrightarrow> c \<notin> set p"
  by (auto simp: digits_def list_all_iff)

lemma digit_unescaped: "is_digit c \<Longrightarrow> \<not> should_escape c m"
  by (simp add: should_escape_def is_alnum_def)

lemma host_punctuation: "\<not> should_escape CHR '':'' EncHost" "\<not> should_escape CHR ''['' EncHost" "\<not> should_escape CHR '']'' EncHost"
  by code_simp+

lemma not_digit: "\<not> is_digit CHR '':''" "\<not> is_digit CHR '']''" "\<not> is_digit CHR ''[''"
  by code_simp+

lemma Hostname_join:
  assumes "CHR ''['' \<notin> set h" "h \<noteq> []" "digits p" "host u = join_host_port h p"
  shows "Hostname u = h" "Port u = p"
proof -
  have p: "CHR '':'' \<notin> set p" "valid_optional_port (CHR '':'' # p)"
    using assms(3) digits_plain [OF assms(3) not_digit(1)] by (simp_all add: valid_optional_port_def digits_def)
  have "url_split_host_port (join_host_port h p) = (h, p)"
  proof (cases "CHR '':'' \<in> set h")
    case True
    then show ?thesis
      using p find_last_index_append [of "CHR '':''" p "CHR ''['' # h @ '']''"]
      by (simp add: url_split_host_port_def join_host_port_def HasPrefix_def butlast_append)
  next
    case False
    moreover have "\<not> HasPrefix h ''[''"
      using assms(1,2) by (cases h) (auto simp: HasPrefix_def)
    ultimately show ?thesis
      using p by (simp add: url_split_host_port_def join_host_port_def find_last_index_append)
  qed
  then show "Hostname u = h" "Port u = p"
    using assms(4) by (simp_all add: Hostname_def Port_def)
qed

lemma parse_host_join:
  assumes h: "printable_host h" and p: "digits p"
  shows "parse_host (escape EncHost (join_host_port h p)) = Some (join_host_port h p)"
proof -
  have port: "valid_optional_port (CHR '':'' # p)" "escape EncHost p = p"
    using p digit_unescaped by (auto simp: valid_optional_port_def digits_def list_all_iff intro!: escape_plain)
  have plain: "CHR '':'' \<notin> set p" "CHR '']'' \<notin> set p" "\<forall>c \<in> set p. host_char c"
    using digits_plain [OF p not_digit(1)] digits_plain [OF p not_digit(2)] p digit_unescaped
    by (simp_all add: digits_def list_all_iff host_char_def)
  show ?thesis
  proof (cases "CHR '':'' \<in> set h")
    case True
    have un: "\<forall>c \<in> set (join_host_port h p). \<not> should_escape c EncHost"
      using h True p host_punctuation digit_unescaped
      by (auto simp: join_host_port_def printable_host_def digits_def list_all_iff)
    then have "escape EncHost (join_host_port h p) = join_host_port h p"
      by (rule escape_plain)
    moreover have "unescape EncHost (join_host_port h p) = Some (join_host_port h p)"
      using unescape_escape_host [of "join_host_port h p"] un calculation by (simp add: host_char_def)
    moreover have "find_last_index CHR '']'' (join_host_port h p) = Some (Suc (length h))"
      using True plain find_last_index_append [of "CHR '']''" "CHR '':'' # p" "CHR ''['' # h"]
      by (simp add: join_host_port_def)
    moreover have "CHR ''%'' \<notin> set h"
      using h True should_escape_special(1) by (auto simp: printable_host_def)
    then have "Index (CHR ''['' # h) ''%25'' = None"
      by (intro Index_None) simp_all
    ultimately show ?thesis
      using True port by (simp add: parse_host_def join_host_port_def HasPrefix_def)
  next
    case False
    let ?e = "escape EncHost h @ CHR '':'' # p"
    have e: "escape EncHost (join_host_port h p) = ?e"
      using False port host_punctuation(1) by (simp add: join_host_port_def escape_Cons escape_char_def)
    have hc: "\<forall>c \<in> set (join_host_port h p). host_char c"
      using False h plain host_punctuation(1) by (auto simp: join_host_port_def printable_host_def host_char_def)
    have "CHR ''['' \<notin> set (escape EncHost h)"
      using h escape_set [of "CHR ''[''" EncHost h] by (auto simp: printable_host_def is_hex_def is_digit_def)
    then have "\<not> HasPrefix ?e ''[''"
      using h by (cases "escape EncHost h") (auto simp: HasPrefix_def printable_host_def)
    then have "parse_host ?e = unescape EncHost ?e"
      using plain port by (simp add: parse_host_def find_last_index_append)
    then show ?thesis
      using unescape_escape_host [OF hc] by (simp add: e)
  qed
qed

end
