(* ===== verification/Base64.thy ===== *)
theory Base64
  imports GoNet
begin

text \<open>
  Go's \<^verbatim>\<open>encoding/base64\<close> as the program uses it: the standard and the URL alphabet, with and
  without padding. Decoding skips line breaks and does not look at the unused low bits of a last
  short group, as the library does outside its strict mode. The lemmas give the round trip and
  the alphabet of the encoded text.
\<close>

definition alphabet :: "char \<Rightarrow> char \<Rightarrow> string" where
  "alphabet c62 c63 = map char_of [65..<91::nat] @ map char_of [97..<123::nat] @ map char_of [48..<58::nat] @ [c62, c63]"

definition std_alphabet :: string where "std_alphabet = alphabet CHR ''+'' CHR ''/''"
definition url_alphabet :: string where "url_alphabet = alphabet CHR ''-'' CHR ''_''"

text \<open>The three bytes of a group of four characters, and the other way round.\<close>

definition sextets :: "nat \<Rightarrow> nat list" where
  "sextets v = [v div 262144 mod 64, v div 4096 mod 64, v div 64 mod 64, v mod 64]"

definition octets :: "nat list \<Rightarrow> bytes" where
  "octets q = (let v = foldl (\<lambda>a d. 64 * a + d) 0 q
     in [word_of_nat (v div 65536), word_of_nat (v div 256), word_of_nat v])"

fun group_val :: "bytes \<Rightarrow> nat" where
  "group_val [a] = unat a * 65536"
| "group_val [a, b] = unat a * 65536 + unat b * 256"
| "group_val (a # b # c # _) = unat a * 65536 + unat b * 256 + unat c"
| "group_val [] = 0"

fun b64_encode :: "string \<Rightarrow> bool \<Rightarrow> bytes \<Rightarrow> string" where
  "b64_encode alph pad [] = []"
| "b64_encode alph pad [a] = map ((!) alph) (take 2 (sextets (group_val [a]))) @ (if pad then ''=='' else [])"
| "b64_encode alph pad [a, b] = map ((!) alph) (take 3 (sextets (group_val [a, b]))) @ (if pad then ''='' else [])"
| "b64_encode alph pad (a # b # c # bs) = map ((!) alph) (sextets (group_val [a, b, c])) @ b64_encode alph pad bs"

definition digit_of :: "string \<Rightarrow> char \<Rightarrow> nat option" where
  "digit_of alph c = find_index c alph"

text \<open>The digits of a group, which must all be in the alphabet; a short group is filled with zeros.\<close>

fun digits_of :: "string \<Rightarrow> string \<Rightarrow> nat list option" where
  "digits_of alph [] = Some []"
| "digits_of alph (c # cs) =
     Option.bind (digit_of alph c) (\<lambda>d. Option.bind (digits_of alph cs) (\<lambda>ds. Some (d # ds)))"

definition short_group :: "string \<Rightarrow> string \<Rightarrow> bytes option" where
  "short_group alph cs = map_option (\<lambda>ds. take (length cs - 1) (octets (ds @ replicate (4 - length cs) 0))) (digits_of alph cs)"

fun b64_groups :: "string \<Rightarrow> bool \<Rightarrow> string \<Rightarrow> bytes option" where
  "b64_groups alph pad [] = Some []"
| "b64_groups alph pad (c0 # c1 # c2 # c3 # cs) =
     (if pad \<and> c2 = CHR ''='' \<and> c3 = CHR ''='' \<and> cs = [] then short_group alph [c0, c1]
      else if pad \<and> c3 = CHR ''='' \<and> cs = [] then short_group alph [c0, c1, c2]
      else Option.bind (short_group alph [c0, c1, c2, c3]) (\<lambda>bs. map_option ((@) bs) (b64_groups alph pad cs)))"
| "b64_groups alph pad cs = (if pad \<or> length cs < 2 then None else short_group alph cs)"

definition b64_decode :: "string \<Rightarrow> bool \<Rightarrow> string \<Rightarrow> bytes option" where
  "b64_decode alph pad s = b64_groups alph pad (filter (\<lambda>c. c \<noteq> CHR 0x0A \<and> c \<noteq> CHR 0x0D) s)"

text \<open>\<^verbatim>\<open>base64.RawURLEncoding\<close>, \<^verbatim>\<open>StdEncoding\<close> and \<^verbatim>\<open>RawStdEncoding\<close>.\<close>

abbreviation "raw_url_encode \<equiv> b64_encode url_alphabet False"
abbreviation "raw_url_decode \<equiv> b64_decode url_alphabet False"
abbreviation "std_decode \<equiv> b64_decode std_alphabet True"
abbreviation "raw_std_encode \<equiv> b64_encode std_alphabet False"
abbreviation "raw_std_decode \<equiv> b64_decode std_alphabet False"

subsection \<open>Digits\<close>

definition good_alphabet :: "string \<Rightarrow> bool" where
  "good_alphabet alph \<longleftrightarrow> length alph = 64 \<and> distinct alph \<and> CHR ''='' \<notin> set alph
     \<and> CHR 0x0A \<notin> set alph \<and> CHR 0x0D \<notin> set alph"

lemma good_alphabets [simp]: "good_alphabet std_alphabet" "good_alphabet url_alphabet"
  by code_simp+

lemma digit_of_nth:
  assumes "good_alphabet alph" "d < 64"
  shows "digit_of alph (alph ! d) = Some d"
proof -
  have d: "distinct alph" "d < length alph"
    using assms by (simp_all add: good_alphabet_def)
  then have "alph = take d alph @ alph ! d # drop (Suc d) alph"
    by (simp add: id_take_nth_drop)
  moreover have "alph ! d \<notin> set (take d alph)"
    using d by (auto simp: in_set_conv_nth distinct_conv_nth)
  ultimately have "find_index (alph ! d) alph = Some (length (take d alph))"
    using find_index_append [of "alph ! d" "take d alph" "drop (Suc d) alph"] by simp
  then show ?thesis
    using d by (simp add: digit_of_def)
qed

lemma digits_of_map:
  "good_alphabet alph \<Longrightarrow> list_all (\<lambda>d. d < 64) ds \<Longrightarrow> digits_of alph (map ((!) alph) ds) = Some ds"
  by (induction ds) (auto simp: digit_of_nth)

lemma sextets_small: "list_all (\<lambda>d. d < 64) (sextets v)" and length_sextets [simp]: "length (sextets v) = 4"
  by (simp_all add: sextets_def)

lemma sextets_val: "v < 16777216 \<Longrightarrow> foldl (\<lambda>x d. 64 * x + d) 0 (sextets v) = v"
proof -
  assume v: "v < 16777216"
  have "v mod 4096 = 64 * (v div 64 mod 64) + v mod 64"
    using mod_mult2_eq [of v 64 64] by simp
  moreover have "v div 4096 mod 4096 = 64 * (v div 262144 mod 64) + v div 4096 mod 64"
    using mod_mult2_eq [of "v div 4096" 64 64] by (simp add: div_mult2_eq [symmetric])
  moreover have "v div 4096 mod 4096 = v div 4096"
    using v by (simp add: less_mult_imp_div_less)
  moreover have "4096 * (v div 4096) + v mod 4096 = v"
    by simp
  ultimately show ?thesis
    by (simp add: sextets_def)
qed

lemma octets_sextets:
  assumes "a < 256" "b < 256" "c < 256"
  shows "octets (sextets (a * 65536 + b * 256 + c)) = [word_of_nat a, word_of_nat b, word_of_nat c]"
proof -
  let ?v = "a * 65536 + b * 256 + c"
  have v: "foldl (\<lambda>x d. 64 * x + d) 0 (sextets ?v) = ?v"
    using assms by (intro sextets_val) simp
  have "?v div 65536 = a"
    by (rule div_nat_eqI) (use assms in simp_all)
  moreover have "?v div 256 = a * 256 + b"
    by (rule div_nat_eqI) (use assms in simp_all)
  moreover have low: "(word_of_nat (c + 256 * m) :: byte) = word_of_nat c" for m c
    by (simp add: word_of_nat_eq_iff take_bit_eq_mod del: of_nat_add of_nat_mult)
  moreover have "(word_of_nat (a * 256 + b) :: byte) = word_of_nat b" "(word_of_nat ?v :: byte) = word_of_nat c"
    using low [of b a] low [of c "a * 256 + b"] by (simp_all add: ac_simps del: of_nat_add of_nat_mult)
  ultimately show ?thesis
    by (simp add: octets_def Let_def v del: of_nat_add of_nat_mult)
qed

lemma sextets_tail:
  "sextets (a * 65536 + b * 256) = take 3 (sextets (a * 65536 + b * 256)) @ [0]"
  "sextets (a * 65536) = take 2 (sextets (a * 65536)) @ [0, 0]"
  by (simp_all add: sextets_def)

lemma short_group_sextets:
  assumes "good_alphabet alph" "2 \<le> n" "n \<le> 4" "sextets v = take n (sextets v) @ replicate (4 - n) 0"
  shows "short_group alph (map ((!) alph) (take n (sextets v))) = Some (take (n - 1) (octets (sextets v)))"
proof -
  have "list_all (\<lambda>d. d < 64) (take n (sextets v))"
    using sextets_small [of v] by (auto simp: list_all_iff dest: in_set_takeD)
  then show ?thesis
    using assms by (simp add: short_group_def digits_of_map flip: assms(4))
qed

lemma short_groups:
  assumes "good_alphabet alph"
  shows "short_group alph (map ((!) alph) (take 2 (sextets (group_val [a])))) = Some [a]"
    and "short_group alph (map ((!) alph) (take 3 (sextets (group_val [a, b])))) = Some [a, b]"
    and "short_group alph (map ((!) alph) (sextets (group_val [a, b, c]))) = Some [a, b, c]"
  using short_group_sextets [OF assms, of 2 "unat a * 65536"] sextets_tail(2) [of "unat a"]
    short_group_sextets [OF assms, of 3 "unat a * 65536 + unat b * 256"] sextets_tail(1) [of "unat a" "unat b"]
    short_group_sextets [OF assms, of 4 "unat a * 65536 + unat b * 256 + unat c"]
    octets_sextets [of "unat a" 0 0] octets_sextets [of "unat a" "unat b" 0] octets_sextets [of "unat a" "unat b" "unat c"]
  by (simp_all add: numeral_2_eq_2 numeral_3_eq_3)

subsection \<open>Round trip\<close>

lemma digit_plain: "good_alphabet alph \<Longrightarrow> d < 64 \<Longrightarrow> alph ! d \<noteq> CHR ''=''"
  by (metis good_alphabet_def nth_mem)

lemma b64_groups_encode:
  "good_alphabet alph \<Longrightarrow> b64_groups alph pad (b64_encode alph pad bs) = Some bs"
proof (induction alph pad bs rule: b64_encode.induct)
  case (2 alph pad a)
  then show ?case
    using short_groups(1) [of alph a] by (cases pad) (simp_all add: sextets_def numeral_2_eq_2)
next
  case (3 alph pad a b)
  moreover have "alph ! (d mod 64) \<noteq> CHR ''=''" for d
    using digit_plain [OF 3(1)] by simp
  ultimately show ?case
    using short_groups(2) [of alph a b] by (cases pad) (simp_all add: sextets_def numeral_3_eq_3)
next
  case (4 alph pad a b c bs)
  moreover have "alph ! (d mod 64) \<noteq> CHR ''=''" for d
    using digit_plain [OF 4(2)] by simp
  ultimately show ?case
    using short_groups(3) [of alph a b c] by (simp add: sextets_def)
qed simp

lemma b64_encode_set: "good_alphabet alph \<Longrightarrow> set (b64_encode alph pad bs) \<subseteq> insert CHR ''='' (set alph)"
  by (induction alph pad bs rule: b64_encode.induct) (auto simp: sextets_def good_alphabet_def)

text \<open>Decoding undoes encoding.\<close>

lemma b64_round_trip: "good_alphabet alph \<Longrightarrow> b64_decode alph pad (b64_encode alph pad bs) = Some bs"
proof -
  assume alph: "good_alphabet alph"
  then have "filter (\<lambda>c. c \<noteq> CHR 0x0A \<and> c \<noteq> CHR 0x0D) (b64_encode alph pad bs) = b64_encode alph pad bs"
    using b64_encode_set [OF alph, of pad bs] by (intro filter_True) (auto simp: good_alphabet_def)
  then show ?thesis
    using alph by (simp add: b64_decode_def b64_groups_encode)
qed

subsection \<open>What the decoder refuses\<close>

lemma digits_of_chars: "digits_of alph cs = Some ds \<Longrightarrow> set cs \<subseteq> set alph"
  by (induction cs arbitrary: ds) (auto simp: digit_of_def find_index_def bind_eq_Some_conv split: if_splits)

lemma short_group_chars: "short_group alph cs = Some bs \<Longrightarrow> set cs \<subseteq> set alph"
  unfolding short_group_def using digits_of_chars by blast

lemma b64_groups_chars: "b64_groups alph False cs = Some bs \<Longrightarrow> set cs \<subseteq> set alph"
proof (induction alph "False" cs arbitrary: bs rule: b64_groups.induct)
  case (2 alph c0 c1 c2 c3 cs)
  then obtain b r where b: "short_group alph [c0, c1, c2, c3] = Some b" and r: "b64_groups alph False cs = Some r"
    by (auto simp only: b64_groups.simps bind_eq_Some_conv map_option_eq_Some simp_thms if_False)
  have "set cs \<subseteq> set alph"
    by (rule "2.hyps" [OF _ _ b r]) simp_all
  then show ?case
    using short_group_chars [OF b] by simp
qed (auto dest: short_group_chars split: if_splits)

lemma b64_groups_padded: "b64_groups alph True cs = Some bs \<Longrightarrow> 4 dvd length cs"
proof (induction alph "True" cs arbitrary: bs rule: b64_groups.induct)
  case (2 alph c0 c1 c2 c3 cs)
  then have "cs = [] \<or> 4 dvd length cs"
    by (auto simp: bind_eq_Some_conv split: if_splits)
  moreover have "length (c0 # c1 # c2 # c3 # cs) = 4 + length cs"
    by simp
  ultimately show ?case
    by (metis dvd_add dvd_refl list.size(3) add_0_right)
qed simp_all

lemma length_b64_raw: "length (b64_encode alph False bs) = (4 * length bs + 2) div 3"
  by (induction alph "False" bs rule: b64_encode.induct) (simp_all add: sextets_def)

lemma decode_plain: "good_alphabet alph \<Longrightarrow> b64_decode a pad (b64_encode alph False bs) = b64_groups a pad (b64_encode alph False bs)"
proof -
  assume alph: "good_alphabet alph"
  then have "filter (\<lambda>c. c \<noteq> CHR 0x0A \<and> c \<noteq> CHR 0x0D) (b64_encode alph False bs) = b64_encode alph False bs"
    using b64_encode_set [OF alph, of False bs] by (intro filter_True) (auto simp: good_alphabet_def)
  then show ?thesis
    by (simp add: b64_decode_def)
qed

end
