(* ===== verification/Uri.thy ===== *)
theory Uri
  imports GoUrl Base64
begin

text \<open>
  \<^verbatim>\<open>pkg/uri/uri.go\<close>: the \<^verbatim>\<open>avangard://\<close> URI. \<open>Parse\<close> reads a configuration from text, \<open>uri_string\<close> is
  \<^verbatim>\<open>Config.String\<close>. The properties: what \<open>Parse\<close> accepts is a usable configuration, and it reads
  back what \<^verbatim>\<open>String\<close> printed, up to the normalisation \<open>canonical\<close>.
\<close>

definition Scheme :: string where "Scheme = ''avangard''"

text \<open>\<^verbatim>\<open>Mode\<close> is a string type with these constants.\<close>

definition ModeAuto :: string where "ModeAuto = ''auto''"
definition ModeYandexCDN :: string where "ModeYandexCDN = ''yandex_cdn''"
definition ModeGosuslugiWS :: string where "ModeGosuslugiWS = ''gosuslugi_ws''"
definition ModeSplitDPI :: string where "ModeSplitDPI = ''splitdpi''"
definition ModeQUICCamouflage :: string where "ModeQUICCamouflage = ''quic_camouflage''"
definition ModeDNSTunnel :: string where "ModeDNSTunnel = ''dns_tunnel''"

text \<open>A nil \<^verbatim>\<open>ServerPub\<close> is the empty list: the program only asks for its length.\<close>

record uri_config =
  uUUID :: string
  uHost :: string
  uPort :: int
  uSNI :: string
  uFingerprint :: string
  uMode :: string
  uRegion :: string
  uServerPub :: bytes
  uTOFUHash :: string
  uName :: string

datatype uri_err = UrlSyntax | BadScheme string | MissingUUID | MissingHost | UriMissingPort | BadPort
  | PkBase64 | PkLength nat

definition getOrDefault :: "string \<Rightarrow> string \<Rightarrow> string" where
  "getOrDefault v d = (if v = [] then d else v)"

text \<open>\<^verbatim>\<open>strconv.Atoi\<close>: an optional sign, digits, and the range of a 64-bit int.\<close>

definition Atoi :: "string \<Rightarrow> int option" where
  "Atoi s =
     (let neg = HasPrefix s ''-''; ds = (if HasPrefix s ''-'' \<or> HasPrefix s ''+'' then tl s else s);
          v = (if neg then - int (num_val 10 ds) else int (num_val 10 ds))
      in if ds = [] \<or> \<not> list_all is_digit ds then None
         else if v < - (2 ^ 63) \<or> 2 ^ 63 \<le> v then None
         else Some v)"

text \<open>The \<^verbatim>\<open>pk\<close> parameter: URL alphabet first, then the padded standard one.\<close>

definition decode_pk :: "string \<Rightarrow> uri_err + bytes" where
  "decode_pk pk =
     (case (case raw_url_decode pk of Some raw \<Rightarrow> Some raw | None \<Rightarrow> std_decode pk) of
        None \<Rightarrow> Inl PkBase64
      | Some raw \<Rightarrow> if length raw \<noteq> 32 then Inl (PkLength (length raw)) else Inr raw)"

definition Parse :: "string \<Rightarrow> uri_err + uri_config" where
  "Parse s =
     (case url_parse s of
        None \<Rightarrow> Inl UrlSyntax
      | Some u \<Rightarrow>
        if scheme u \<noteq> Scheme then Inl (BadScheme (scheme u))
        else if user u = None \<or> the (user u) = [] then Inl MissingUUID
        else if Hostname u = [] then Inl MissingHost
        else if Port u = [] then Inl UriMissingPort
        else (case Atoi (Port u) of
                None \<Rightarrow> Inl BadPort
              | Some port \<Rightarrow>
                let q = Query u;
                    cfg = \<lparr>uUUID = the (user u), uHost = Hostname u, uPort = port, uSNI = Get q ''sni'',
                           uFingerprint = Get q ''fp'', uMode = getOrDefault (Get q ''mode'') ModeAuto,
                           uRegion = getOrDefault (Get q ''region'') ''auto'', uServerPub = [],
                           uTOFUHash = Get q ''tofu'', uName = fragment u\<rparr>
                in if Get q ''pk'' \<noteq> [] then
                     (case decode_pk (Get q ''pk'') of Inl e \<Rightarrow> Inl e | Inr raw \<Rightarrow> Inr (cfg\<lparr>uServerPub := raw\<rparr>))
                   else Inr cfg))"

definition query_values :: "uri_config \<Rightarrow> (string \<times> string) list" where
  "query_values c =
     (if uSNI c \<noteq> [] then [(''sni'', uSNI c)] else [])
   @ (if uFingerprint c \<noteq> [] then [(''fp'', uFingerprint c)] else [])
   @ (if uMode c \<noteq> [] then [(''mode'', uMode c)] else [])
   @ (if uRegion c \<noteq> [] then [(''region'', uRegion c)] else [])
   @ (if length (uServerPub c) = 32 then [(''pk'', raw_url_encode (uServerPub c))] else [])
   @ (if uTOFUHash c \<noteq> [] then [(''tofu'', uTOFUHash c)] else [])"

definition uri_string :: "uri_config \<Rightarrow> string" where
  "uri_string c =
     TrimSuffix (url_string Scheme (uUUID c) (join_host_port (uHost c) (itoa_int (uPort c)))
       (encode_values (query_values c)) (uName c)) ''?''"

text \<open>What a configuration becomes when it is printed and read: the defaults are filled in, a key of
  the wrong length is dropped, and a question mark at the end of the name is lost.\<close>

definition canonical :: "uri_config \<Rightarrow> uri_config" where
  "canonical c = c\<lparr>uMode := getOrDefault (uMode c) ModeAuto, uRegion := getOrDefault (uRegion c) ''auto'',
     uServerPub := (if length (uServerPub c) = 32 then uServerPub c else []),
     uName := TrimSuffix (uName c) ''?''\<rparr>"

definition printable_config :: "uri_config \<Rightarrow> bool" where
  "printable_config c \<longleftrightarrow> uUUID c \<noteq> [] \<and> printable_host (uHost c) \<and> 0 \<le> uPort c \<and> uPort c < 2 ^ 63"

text \<open>A configuration the client can work with, as \<open>Parse\<close> gives it.\<close>

definition usable_config :: "uri_config \<Rightarrow> bool" where
  "usable_config c \<longleftrightarrow> uUUID c \<noteq> [] \<and> uHost c \<noteq> [] \<and> 0 \<le> uPort c \<and> uPort c < 2 ^ 63 \<and> uMode c \<noteq> [] \<and> uRegion c \<noteq> []
     \<and> (uServerPub c = [] \<or> length (uServerPub c) = 32)"

subsection \<open>Ports\<close>

lemma port_digits: "digits (itoa_nat n)"
  using itoa_nat_digits by (auto simp: digits_def list_all_iff)

lemma Atoi_itoa: "0 \<le> i \<Longrightarrow> i < 2 ^ 63 \<Longrightarrow> Atoi (itoa_int i) = Some i"
proof -
  assume i: "0 \<le> i" "i < 2 ^ 63"
  let ?s = "itoa_nat (nat i)"
  have "is_digit (hd ?s)"
    by (rule itoa_nat_digits [of _ "nat i"]) simp
  then have "hd ?s \<noteq> CHR ''-''" "hd ?s \<noteq> CHR ''+''"
    by (auto simp: is_digit_def)
  then have "\<not> HasPrefix ?s ''-''" "\<not> HasPrefix ?s ''+''"
    by (cases ?s; simp add: HasPrefix_def)+
  then show ?thesis
    using i port_digits [of "nat i"] by (simp add: Atoi_def itoa_int_def digits_def Let_def)
qed

lemma Port_digits: "list_all is_digit (Port u)"
proof -
  have "drop (i + 1) s = tl (drop i s)" for i and s :: string
    by (simp add: drop_Suc tl_drop)
  then have "valid_optional_port (drop i s) \<Longrightarrow> list_all is_digit (drop (i + 1) s)" for i s
    by (cases "drop i s") (auto simp: valid_optional_port_def)
  then show ?thesis
    by (auto simp: Port_def url_split_host_port_def Let_def split: option.split)
qed

lemma Atoi_digits: "list_all is_digit s \<Longrightarrow> Atoi s = Some i \<Longrightarrow> 0 \<le> i \<and> i < 2 ^ 63"
proof -
  assume s: "list_all is_digit s" and i: "Atoi s = Some i"
  have "\<not> HasPrefix s ''-''"
    using s by (cases s) (auto simp: HasPrefix_def is_digit_def)
  with i show ?thesis
    by (auto simp: Atoi_def Let_def split: if_splits)
qed

subsection \<open>The query of a printed configuration\<close>

lemma query_keys: "distinct (map fst (query_values c))"
  by (simp add: query_values_def)

lemma get_values:
  "Get (query_values c) ''sni'' = uSNI c" "Get (query_values c) ''fp'' = uFingerprint c"
  "Get (query_values c) ''mode'' = uMode c" "Get (query_values c) ''region'' = uRegion c"
  "Get (query_values c) ''tofu'' = uTOFUHash c"
  "Get (query_values c) ''pk'' = (if length (uServerPub c) = 32 then raw_url_encode (uServerPub c) else [])"
  by (simp_all add: Get_def query_values_def)

lemma pk_empty: "raw_url_encode bs = [] \<longleftrightarrow> bs = []"
  by (cases "(url_alphabet, False, bs)" rule: b64_encode.cases) (auto simp: sextets_def)

lemma decode_pk_encode: "length bs = 32 \<Longrightarrow> decode_pk (raw_url_encode bs) = Inr bs"
  by (simp add: decode_pk_def b64_round_trip)

subsection \<open>Parsing a printed configuration\<close>

text \<open>The text before the fragment does not end in a question mark, so \<^verbatim>\<open>TrimSuffix\<close> only ever
  reaches the name.\<close>

lemma base_last:
  assumes "hp \<noteq> []"
  shows "last (url_string sch usr hp (encode_values q) []) \<noteq> CHR ''?''"
proof (cases "encode_values q = []")
  case True
  then have "last (url_string sch usr hp (encode_values q) []) = last (escape EncHost hp)"
    using assms by (simp add: url_string_def)
  moreover have "last (escape EncHost hp) \<in> set (escape EncHost hp)"
    using assms by simp
  ultimately show ?thesis
    using delimiters(7) [of hp] by metis
next
  case False
  then have "last (url_string sch usr hp (encode_values q) []) = last (encode_values q)"
    by (simp add: url_string_def)
  then show ?thesis
    using False encode_values_free(1) [of q] last_in_set by metis
qed

lemma url_parse_trimmed:
  assumes hp: "parse_host (escape EncHost hp) = Some hp" "hp \<noteq> []"
  shows "url_parse (TrimSuffix (url_string Scheme usr hp (encode_values q) f) ''?'')
    = Some \<lparr>scheme = Scheme, user = Some usr, host = hp, path = [], raw_query = encode_values q, fragment = TrimSuffix f ''?''\<rparr>"
proof -
  let ?base = "url_string Scheme usr hp (encode_values q) []"
  have sch: "list_all is_alnum Scheme" "Scheme \<noteq> []" "\<not> scheme_tail (hd Scheme)" "map lower_char Scheme = Scheme"
    "CHR ''?'' \<notin> set Scheme" "\<not> list_ex is_ctl Scheme" "list_all is_ascii Scheme" "CHR ''#'' \<notin> set Scheme"
    by code_simp+
  have parse: "url_parse (url_string Scheme usr hp (encode_values q) g)
      = Some \<lparr>scheme = Scheme, user = Some usr, host = hp, path = [], raw_query = encode_values q, fragment = g\<rparr>" for g
    using sch encode_values_free hp(1) by (intro url_parse_string) simp_all
  have hash: "CHR ''#'' \<notin> set ?base"
    using sch(8) encode_values_free(2) [of q] by (auto simp: url_string_def)
  have last: "last ?base \<noteq> CHR ''?''" "?base \<noteq> []"
    using base_last [OF hp(2)] by (simp_all add: url_string_def)
  show ?thesis
  proof (cases "f \<noteq> [] \<and> last f = CHR ''?''")
    case True
    then obtain g where g: "f = g @ ''?''"
      by (metis append_butlast_last_id)
    have "\<not> should_escape CHR ''?'' EncFragment"
      by code_simp
    then have "url_string Scheme usr hp (encode_values q) f = (?base @ CHR ''#'' # escape EncFragment g) @ ''?''"
      by (subst url_string_fragment) (simp add: g escape_Cons escape_char_def)
    then have "TrimSuffix (url_string Scheme usr hp (encode_values q) f) ''?'' = ?base @ CHR ''#'' # escape EncFragment g"
      by (simp add: TrimSuffix_def)
    moreover have "url_parse (?base @ CHR ''#'' # escape EncFragment g)
        = url_parse (url_string Scheme usr hp (encode_values q) g)"
      using url_parse_empty_fragment [OF hash] by (subst (2) url_string_fragment) simp
    moreover have "TrimSuffix f ''?'' = g"
      by (simp add: g TrimSuffix_def)
    ultimately show ?thesis
      by (simp add: parse)
  next
    case False
    have "last (escape EncFragment f) \<noteq> CHR ''?''" if "f \<noteq> []"
    proof -
      obtain g c where f: "f = g @ [c]" "c \<noteq> CHR ''?''"
        using False \<open>f \<noteq> []\<close> by (metis append_butlast_last_id)
      have "upper_digit (of_char c mod 16) \<noteq> CHR ''?''"
        using upper_digit_ok [OF char_nibbles(2), of c] by (auto simp: is_hex_def is_digit_def)
      then show ?thesis
        using f by (simp add: escape_Cons escape_char_def percent_def)
    qed
    then have "last (url_string Scheme usr hp (encode_values q) f) \<noteq> CHR ''?''"
      using last by (subst url_string_fragment) simp
    then show ?thesis
      using False by (simp add: TrimSuffix_other parse)
  qed
qed

lemma Parse_String:
  assumes "printable_config c"
  shows "Parse (uri_string c) = Inr (canonical c)"
proof -
  let ?hp = "join_host_port (uHost c) (itoa_int (uPort c))"
  have h: "printable_host (uHost c)" "uUUID c \<noteq> []" "0 \<le> uPort c" "uPort c < 2 ^ 63"
    using assms by (simp_all add: printable_config_def)
  have port: "digits (itoa_int (uPort c))"
    using h(3) port_digits by (simp add: itoa_int_def)
  have plain: "CHR ''['' \<notin> set (uHost c)" "uHost c \<noteq> []"
    using h(1) by (simp_all add: printable_host_def)
  obtain u where u: "url_parse (uri_string c) = Some u" "scheme u = Scheme" "user u = Some (uUUID c)" "host u = ?hp"
    "raw_query u = encode_values (query_values c)" "fragment u = TrimSuffix (uName c) ''?''"
    using url_parse_trimmed [OF parse_host_join [OF h(1) port], of "uUUID c" "query_values c" "uName c"]
    unfolding uri_string_def by (simp add: join_host_port_def)
  have get: "Get (Query u) k = Get (query_values c) k" for k
    by (simp add: query_encode [OF u(5)] get_sorted query_keys)
  have pk: "raw_url_encode (uServerPub c) \<noteq> []" if "length (uServerPub c) = 32"
    using that by (auto simp: pk_empty)
  show ?thesis
    using h u Hostname_join [OF plain port u(4)] port pk plain(2)
    by (auto simp: Parse_def get get_values Atoi_itoa decode_pk_encode canonical_def digits_def Let_def)
qed

lemma Parse_usable:
  assumes "Parse s = Inr c"
  shows "usable_config c"
proof -
  obtain u where p: "url_parse s = Some u"
    using assms by (cases "url_parse s") (simp_all add: Parse_def)
  have u: "user u \<noteq> None" "the (user u) \<noteq> []" "Hostname u \<noteq> []"
    using assms by (simp_all add: Parse_def p split: if_split_asm)
  obtain port where port: "Atoi (Port u) = Some port"
    using assms by (cases "Atoi (Port u)") (simp_all add: Parse_def p split: if_split_asm)
  have c: "uUUID c = the (user u)" "uHost c = Hostname u" "uPort c = port"
      "uMode c = getOrDefault (Get (Query u) ''mode'') ModeAuto" "uRegion c = getOrDefault (Get (Query u) ''region'') ''auto''"
      "uServerPub c = [] \<or> decode_pk (Get (Query u) ''pk'') = Inr (uServerPub c)"
    using assms by (auto simp: Parse_def p port Let_def split: if_split_asm sum.split_asm)
  have "length (uServerPub c) = 32" if "decode_pk (Get (Query u) ''pk'') = Inr (uServerPub c)"
    using that by (simp add: decode_pk_def split: option.split_asm if_split_asm)
  moreover have "0 \<le> port" "port < 2 ^ 63"
    using Atoi_digits [OF Port_digits port] by simp_all
  ultimately show ?thesis
    using u c by (auto simp: usable_config_def getOrDefault_def ModeAuto_def)
qed

text \<open>A key printed with the unpadded standard alphabet is refused as soon as it has a character
  that the URL alphabet does not have.\<close>

lemma raw_std_key_refused:
  assumes "length bs = 32" "CHR ''+'' \<in> set (raw_std_encode bs) \<or> CHR ''/'' \<in> set (raw_std_encode bs)"
  shows "decode_pk (raw_std_encode bs) = Inl PkBase64"
proof -
  have "CHR ''+'' \<notin> set url_alphabet" "CHR ''/'' \<notin> set url_alphabet"
    by code_simp+
  then have "raw_url_decode (raw_std_encode bs) = None"
    using assms(2) b64_groups_chars [of url_alphabet "raw_std_encode bs"]
    by (cases "raw_url_decode (raw_std_encode bs)") (auto simp: decode_plain)
  moreover have "std_decode (raw_std_encode bs) = None"
    using b64_groups_padded [of std_alphabet "raw_std_encode bs"] assms(1) length_b64_raw [of std_alphabet bs]
    by (cases "std_decode (raw_std_encode bs)") (auto simp: decode_plain)
  ultimately show ?thesis
    by (simp add: decode_pk_def)
qed

subsection \<open>Properties\<close>

text \<open>C34. URI round trip: for a non-empty UUID, a host name or address without brackets whose characters
  may stand in a host, and any port from 0 to 2^63 - 1, \<open>Parse\<close> reads what \<^verbatim>\<open>String\<close> printed, whatever the
  other fields contain: mode and region get their defaults, a server key that has not 32 bytes is
  dropped, and one question mark at the end of the name is lost. A configuration with a mode, a region,
  a key of the right length (or none) and a name that does not end in a question mark is read back
  exactly.\<close>

theorem uri_round_trip:
  assumes "printable_config c"
  shows "Parse (uri_string c) = Inr (canonical c)
    \<and> (uMode c \<noteq> [] \<and> uRegion c \<noteq> [] \<and> (uServerPub c = [] \<or> length (uServerPub c) = 32)
         \<and> (uName c = [] \<or> last (uName c) \<noteq> CHR ''?'')
       \<longrightarrow> Parse (uri_string c) = Inr c)"
proof -
  have "canonical c = c" if "uMode c \<noteq> []" "uRegion c \<noteq> []" "uServerPub c = [] \<or> length (uServerPub c) = 32"
      "uName c = [] \<or> last (uName c) \<noteq> CHR ''?''"
    using that by (cases c) (auto simp: canonical_def getOrDefault_def TrimSuffix_other)
  then show ?thesis
    using Parse_String [OF assms] by auto
qed

definition sample_config :: uri_config where
  "sample_config = \<lparr>uUUID = ''id'', uHost = ''::1'', uPort = 70000, uSNI = ''ya.ru'', uFingerprint = ''a b&c'', uMode = ''auto'',
     uRegion = [], uServerPub = replicate 32 7, uTOFUHash = [], uName = ''home?''\<rparr>"

theorem uri_round_trip_witness:
  "Parse (uri_string sample_config) = Inr (sample_config\<lparr>uRegion := ''auto'', uName := ''home''\<rparr>)"
proof -
  have "printable_config sample_config"
    by code_simp
  from uri_round_trip [OF this] show ?thesis
    by (simp add: canonical_def sample_config_def getOrDefault_def TrimSuffix_def ModeAuto_def)
qed

text \<open>C35. Whatever the text, a configuration that \<open>Parse\<close> returns is usable: it has a UUID, a host, a mode and
  a region, its port is a 64-bit non-negative integer, and its server key is absent or has the 32
  bytes of an X25519 key.\<close>

theorem Parse_accepts_usable:
  assumes "Parse s = Inr c"
  shows "usable_config c"
  using assms by (rule Parse_usable)

theorem Parse_accepts_usable_witness:
  "usable_config (sample_config\<lparr>uRegion := ''auto'', uName := ''home''\<rparr>)"
proof (rule Parse_accepts_usable)
  have "printable_config sample_config"
    by code_simp
  from Parse_String [OF this] show "Parse (uri_string sample_config) = Inr (sample_config\<lparr>uRegion := ''auto'', uName := ''home''\<rparr>)"
    by (simp add: canonical_def sample_config_def getOrDefault_def TrimSuffix_def ModeAuto_def)
qed

end
