(* ===== verification/Commands.thy ===== *)
theory Commands
  imports Config Carriers Uri Listener
begin

text \<open>
  What the two commands put together: \<^verbatim>\<open>avangard-server keygen\<close> and \<^verbatim>\<open>run\<close>
  (\<^verbatim>\<open>cmd/avangard-server/main.go\<close>), and the dialer that \<^verbatim>\<open>avangard-client\<close> builds from a URI
  (\<^verbatim>\<open>cmd/avangard-client/main.go\<close>). Flags are arguments; printed text is a result; opening sockets
  and reading files are the operating system's answers.
\<close>

subsection \<open>Key generation\<close>

text \<open>\<^verbatim>\<open>genUUID\<close>: sixteen random bytes, or bytes of the clock when there are none, with version and
  variant set. \<^verbatim>\<open>%x\<close> on a byte slice prints two digits for each byte.\<close>

definition uuid_bytes :: "bytes option \<Rightarrow> u64 \<Rightarrow> bytes" where
  "uuid_bytes random now =
     (let b = (case random of Some b \<Rightarrow> b | None \<Rightarrow> map (\<lambda>i. ucast (drop_bit (i * 4) now)) [0..<16]);
          b = b[6 := (b ! 6 AND 0x0f) OR 0x40];
          b = b[8 := (b ! 8 AND 0x3f) OR 0x80]
      in b)"

definition genUUID :: "bytes option \<Rightarrow> u64 \<Rightarrow> string" where
  "genUUID random now =
     (let b = uuid_bytes random now in
      hex_string (take 4 b) @ ''-'' @ hex_string (take 2 (drop 4 b)) @ ''-'' @ hex_string (take 2 (drop 6 b)) @ ''-''
        @ hex_string (take 2 (drop 8 b)) @ ''-'' @ hex_string (take 6 (drop 10 b)))"

text \<open>\<^verbatim>\<open>%q\<close> on text of printable ASCII characters without quote or backslash, which is all it is used for.\<close>

definition quoted :: "string \<Rightarrow> string" where
  "quoted s = [CHR 0x22] @ s @ [CHR 0x22]"

definition unlines :: "string list \<Rightarrow> string" where
  "unlines ls = concat (map (\<lambda>l. l @ [CHR 0x0A]) ls)"

definition keygen_body :: "int \<Rightarrow> string \<Rightarrow> string \<Rightarrow> string \<Rightarrow> string \<Rightarrow> string" where
  "keygen_body port decoy outDir priv uid = unlines
     [''# Auto-generated by avangard-server keygen'',
      ''listen:'',
      ''  quic: '' @ [CHR 0x22] @ '':'' @ itoa_int port @ [CHR 0x22],
      ''  tcp: '' @ [CHR 0x22] @ '':'' @ itoa_int port @ [CHR 0x22],
      ''decoy:'',
      ''  domain: '' @ decoy,
      ''  addr: '' @ decoy @ '':443'',
      ''tls:'',
      ''  cert_file: '' @ outDir @ ''/cert.pem'',
      ''  key_file: '' @ outDir @ ''/key.pem'',
      ''auth:'',
      ''  static_privkey_b64: '' @ quoted priv,
      ''  accepted_uuids:'',
      ''    - '' @ quoted uid,
      ''logging:'',
      ''  level: info'']"

text \<open>The command gives an error, or the URI, the key line, and the file when an output directory is given;
  \<open>generated\<close>, \<open>mkdir\<close> and \<open>write\<close> are the answers of the key generator and the file system.\<close>

definition keygen_config :: "string \<Rightarrow> int \<Rightarrow> string \<Rightarrow> dh_key \<Rightarrow> string \<Rightarrow> uri_config" where
  "keygen_config pub_host port decoy static uid =
     \<lparr>uUUID = uid, uHost = pub_host, uPort = port, uSNI = decoy, uFingerprint = [], uMode = ModeAuto, uRegion = ''auto'',
      uServerPub = Public static, uTOFUHash = [], uName = ''avangard''\<rparr>"

definition keygen ::
  "string \<Rightarrow> int \<Rightarrow> string \<Rightarrow> string \<Rightarrow> string + dh_key \<Rightarrow> string \<Rightarrow> string option \<Rightarrow> string option
     \<Rightarrow> string + (string \<times> string \<times> string option)" where
  "keygen pub_host port decoy outDir generated uid mkdir write =
     (case generated of
        Inl e \<Rightarrow> Inl e
      | Inr static \<Rightarrow>
          let out = (uri_string (keygen_config pub_host port decoy static uid), raw_std_encode (Public static)) in
          if outDir \<noteq> [] then
            (case mkdir of
               Some e \<Rightarrow> Inl e
             | None \<Rightarrow>
                 let body = keygen_body port decoy outDir (raw_std_encode (Private static)) uid in
                 (case write of Some e \<Rightarrow> Inl e | None \<Rightarrow> Inr (fst out, snd out, Some body)))
          else Inr (fst out, snd out, None))"

subsection \<open>Running the server\<close>

datatype run_err = ConfigErr cfg_err | LoadTLS string | PrivB64 | StaticKeyErr key_err
  | QuicListenErr listen_err | TcpListenErr listen_err | NoListeners

datatype listener = QuicListener server_config | TcpListener tcp_config

record running =
  listeners :: "listener list"
  composite :: comp_state
  tunnel :: tunnel_server

definition run_quic :: "(string \<Rightarrow> string option) \<Rightarrow> server_yaml \<Rightarrow> server_config \<Rightarrow> run_err + listener list" where
  "run_quic listen cfg srvCfg =
     (if yQUIC cfg \<noteq> [] then
        (case quic_Listen listen (srvCfg\<lparr>sAddr := yQUIC cfg\<rparr>) of
           Inl e \<Rightarrow> Inl (QuicListenErr e) | Inr ln \<Rightarrow> Inr [QuicListener ln])
      else Inr [])"

definition run_tcp :: "(string \<Rightarrow> string option) \<Rightarrow> server_yaml \<Rightarrow> server_config \<Rightarrow> run_err + listener list" where
  "run_tcp listen cfg srvCfg =
     (if yTCP cfg \<noteq> [] then
        (let magic = (if yDecoyDomain cfg \<noteq> [] then [yDecoyDomain cfg] else []) in
         case tcp_Listen listen (srvCfg\<lparr>sAddr := yTCP cfg\<rparr>) magic of
           Inl e \<Rightarrow> Inl (TcpListenErr e) | Inr ln \<Rightarrow> Inr [TcpListener ln])
      else Inr [])"

text \<open>\<open>load_cert\<close>, \<open>base_mult\<close>, \<open>listen_udp\<close> and \<open>listen_tcp\<close> are the libraries' answers.\<close>

definition server_run ::
  "(string \<Rightarrow> string + server_yaml) \<Rightarrow> string + string \<Rightarrow> (string \<Rightarrow> string \<Rightarrow> string + bytes list)
     \<Rightarrow> (bytes \<Rightarrow> string + bytes) \<Rightarrow> (string \<Rightarrow> string option) \<Rightarrow> (string \<Rightarrow> string option) \<Rightarrow> run_err + running" where
  "server_run yaml file load_cert base_mult listen_udp listen_tcp =
     (case LoadServer yaml file of
        Inl e \<Rightarrow> Inl (ConfigErr e)
      | Inr cfg \<Rightarrow>
     (case load_cert (yCertFile cfg) (yKeyFile cfg) of
        Inl e \<Rightarrow> Inl (LoadTLS e)
      | Inr cert \<Rightarrow>
     (case raw_std_decode (yStaticPriv cfg) of
        None \<Rightarrow> Inl PrivB64
      | Some priv \<Rightarrow>
     (case StaticFromPriv base_mult priv of
        Inl e \<Rightarrow> Inl (StaticKeyErr e)
      | Inr static \<Rightarrow>
        let srvCfg = \<lparr>sAddr = [], sUUIDs = yUUIDs cfg, sStatic = static, sCert = Some cert,
                      sDecoyAddr = yDecoyAddr cfg, sPrologue = []\<rparr> in
     (case run_quic listen_udp cfg srvCfg of
        Inl e \<Rightarrow> Inl e
      | Inr qls \<Rightarrow>
     (case run_tcp listen_tcp cfg srvCfg of
        Inl e \<Rightarrow> Inl e
      | Inr tls \<Rightarrow>
        if qls @ tls = [] then Inl NoListeners
        else Inr \<lparr>listeners = qls @ tls, composite = NewComposite (length (qls @ tls)),
                  tunnel = NewServer (yUUIDs cfg)\<rparr>))))))"

subsection \<open>The client's dialer\<close>

datatype dialer = TcpDialer client_config | QuicDialer client_config

definition buildDialer :: "(client_config \<Rightarrow> string option) \<Rightarrow> uri_config \<Rightarrow> string \<Rightarrow> bool \<Rightarrow> config_err + dialer" where
  "buildDialer quic_dial u name insecure =
     (let cfg = \<lparr>Addr = join_host_port (uHost u) (itoa_int (uPort u)), UUID = uUUID u, SNI = uSNI u,
                 ServerStaticPub = uServerPub u, InsecureSkipVerify = insecure, CPrologue = [], Fingerprint = []\<rparr>
      in if name = ''tcp'' then map_sum id TcpDialer (tcp_NewClient cfg)
         else if name = ''quic'' then map_sum id QuicDialer (quic_NewClient quic_dial cfg)
         else Inl (UnknownTransport name))"

datatype client_err = UriErr uri_err | DialerErr config_err

text \<open>The common start of the \<^verbatim>\<open>tunnel\<close> and \<^verbatim>\<open>socks5\<close> commands.\<close>

definition client_setup :: "(client_config \<Rightarrow> string option) \<Rightarrow> string \<Rightarrow> string \<Rightarrow> bool \<Rightarrow> client_err + dialer \<times> tunnel_client" where
  "client_setup quic_dial arg name insecure =
     (case Parse arg of
        Inl e \<Rightarrow> Inl (UriErr e)
      | Inr u \<Rightarrow>
     (case buildDialer quic_dial u name insecure of
        Inl e \<Rightarrow> Inl (DialerErr e)
      | Inr d \<Rightarrow> Inr (d, \<lparr>uuid = uUUID u\<rparr>)))"

subsection \<open>UUIDs\<close>

lemma length_uuid_bytes: "(\<And>b. random = Some b \<Longrightarrow> length b = 16) \<Longrightarrow> length (uuid_bytes random now) = 16"
  by (cases random) (simp_all add: uuid_bytes_def Let_def)

lemma length_hex_string [simp]: "length (hex_string bs) = 2 * length bs"
  by (induction bs) (simp_all add: hex_string_def)

lemma genUUID_nonempty: "genUUID random now \<noteq> []"
  by (simp add: genUUID_def Let_def)

text \<open>A UUID has the form 8-4-4-4-12, version 4 and variant 8, 9, a or b, whatever the random source gave.\<close>

lemma high_nibble: "unat (b :: byte) div 16 = unat (drop_bit 4 b)"
proof -
  have "unat (drop_bit 4 b) = drop_bit 4 (unat b)"
    by (rule unat_drop_bit_eq)
  then show ?thesis
    by (simp only: drop_bit_eq_div [where 'a = nat]) simp
qed

lemma version_nibble: "unat ((x AND 0x0f) OR 0x40 :: byte) div 16 = 4"
proof -
  have "drop_bit 4 ((x AND 0x0f) OR 0x40 :: byte) = 4"
    by (simp only: drop_bit_or drop_bit_and) simp
  then show ?thesis
    by (simp add: high_nibble del: drop_bit_or drop_bit_and)
qed

lemma variant_nibble: "unat ((x AND 0x3f) OR 0x80 :: byte) div 16 \<in> {8, 9, 10, 11}"
proof -
  let ?y = "drop_bit 4 x AND 3 :: byte"
  have "?y \<le> 3"
    by (rule word_and_le1)
  then have y: "unat ?y \<le> 3"
    by (simp add: word_le_nat_alt)
  have "?y AND 8 = 0"
    by (simp only: and.assoc) simp
  then have "?y OR 8 = ?y + 8"
    by (simp only: disjunctive_add_eq_or)
  moreover have "unat (?y + 8) = unat ?y + 8"
    using y by (simp add: unat_plus_if')
  moreover have "drop_bit 4 ((x AND 0x3f) OR 0x80 :: byte) = ?y OR 8"
    by (simp only: drop_bit_or drop_bit_and) simp
  ultimately have "unat ((x AND 0x3f) OR 0x80 :: byte) div 16 = unat ?y + 8"
    by (simp only: high_nibble)
  then show ?thesis
    using y by auto
qed

lemma genUUID_form:
  assumes "\<And>b. random = Some b \<Longrightarrow> length b = 16"
  shows "length (genUUID random now) = 36"
    and "\<forall>i \<in> {8, 13, 18, 23}. genUUID random now ! i = CHR ''-''"
    and "genUUID random now ! 14 = CHR ''4''" "genUUID random now ! 19 \<in> set ''89ab''"
proof -
  let ?b = "uuid_bytes random now"
  have len: "length ?b = 16"
    using assms by (rule length_uuid_bytes)
  then show "length (genUUID random now) = 36" "\<forall>i \<in> {8, 13, 18, 23}. genUUID random now ! i = CHR ''-''"
    by (simp_all add: genUUID_def Let_def nth_append)
  have hex: "hex_string (x # xs) = digit_char (unat x div 16) # digit_char (unat x mod 16) # hex_string xs" for x xs
    by (simp add: hex_string_def)
  have "take 2 (drop 6 ?b) = [?b ! 6, ?b ! 7]" "take 2 (drop 8 ?b) = [?b ! 8, ?b ! 9]"
    using len by (simp_all add: list_eq_iff_nth_eq less_Suc_eq numeral_2_eq_2)
  then have "genUUID random now ! 14 = digit_char (unat (?b ! 6) div 16)" "genUUID random now ! 19 = digit_char (unat (?b ! 8) div 16)"
    using len by (simp_all add: genUUID_def Let_def nth_append hex)
  moreover obtain x y where "?b ! 6 = (x AND 0x0f) OR 0x40" "?b ! 8 = (y AND 0x3f) OR 0x80"
    using len by (simp add: uuid_bytes_def Let_def)
  moreover have "digit_char 4 = CHR ''4''" "digit_char 8 = CHR ''8''" "digit_char 9 = CHR ''9''" "digit_char 10 = CHR ''a''" "digit_char 11 = CHR ''b''"
    by code_simp+
  ultimately show "genUUID random now ! 14 = CHR ''4''" "genUUID random now ! 19 \<in> set ''89ab''"
    using version_nibble [of x] variant_nibble [of y] by auto
qed

text \<open>A URI without key parses, but no transport takes it.\<close>

lemma client_setup_needs_key:
  assumes "Parse arg = Inr u" "uServerPub u = []" "name \<in> {''tcp'', ''quic''}"
  shows "client_setup quic_dial arg name insecure = Inl (DialerErr BadStaticPub)"
  using assms by (auto simp: client_setup_def buildDialer_def tcp_NewClient_def quic_NewClient_def checkClient_def join_host_port_def)

subsection \<open>A generated configuration\<close>

text \<open>The fields that the generated file sets.\<close>

definition keygen_fields :: "int \<Rightarrow> string \<Rightarrow> string \<Rightarrow> string \<Rightarrow> string \<Rightarrow> server_yaml" where
  "keygen_fields port decoy outDir priv uid =
     \<lparr>yQUIC = '':'' @ itoa_int port, yTCP = '':'' @ itoa_int port, yDecoyDomain = decoy, yDecoyAddr = decoy @ '':443'',
      yCertFile = outDir @ ''/cert.pem'', yKeyFile = outDir @ ''/key.pem'', yStaticPriv = priv, yUUIDs = [uid], yLevel = ''info''\<rparr>"

lemma raw_std_nonempty: "length bs = 32 \<Longrightarrow> raw_std_encode bs \<noteq> []"
  using length_b64_raw [of std_alphabet bs] by auto

lemma server_run_keygen:
  assumes key: "length (Private static) = 32" "base_mult (Private static) = Inr (Public static)"
    and uid: "uid \<noteq> []"
    and yaml: "yaml body = Inr (keygen_fields port decoy outDir (raw_std_encode (Private static)) uid)"
    and cert: "load_cert (outDir @ ''/cert.pem'') (outDir @ ''/key.pem'') = Inr chain"
    and listen: "listen_udp ('':'' @ itoa_int port) = None" "listen_tcp ('':'' @ itoa_int port) = None"
  shows "server_run yaml (Inr body) load_cert base_mult listen_udp listen_tcp
    = Inr \<lparr>listeners =
         [QuicListener \<lparr>sAddr = '':'' @ itoa_int port, sUUIDs = [uid], sStatic = static, sCert = Some chain,
            sDecoyAddr = decoy @ '':443'', sPrologue = DefaultPrologue\<rparr>,
          TcpListener \<lparr>NoiseStatic = static, NoisePrologue = DefaultPrologue, DecoyAddr = decoy @ '':443'',
            magicSNIs = (if decoy = [] then [] else [decoy])\<rparr>],
         composite = NewComposite 2, tunnel = \<lparr>acceptedUUIDs = [uid]\<rparr>\<rparr>"
proof -
  let ?y = "keygen_fields port decoy outDir (raw_std_encode (Private static)) uid"
  have "LoadServer yaml (Inr body) = Inr ?y"
    using yaml raw_std_nonempty [OF key(1)] by (simp add: LoadServer_ok server_Validate_ok keygen_fields_def)
  moreover have "StaticFromPriv base_mult (Private static) = Inr static"
    using key by (cases static) (simp add: StaticFromPriv_def)
  moreover have "raw_std_decode (yStaticPriv ?y) = Some (Private static)"
    by (simp add: keygen_fields_def b64_round_trip)
  moreover have "load_cert (yCertFile ?y) (yKeyFile ?y) = Inr chain" "yQUIC ?y = '':'' @ itoa_int port" "yTCP ?y = '':'' @ itoa_int port"
    "yDecoyDomain ?y = decoy" "yDecoyAddr ?y = decoy @ '':443''" "yUUIDs ?y = [uid]"
    using cert by (simp_all add: keygen_fields_def)
  ultimately show ?thesis
    using listen by (simp add: server_run_def NewServer_def run_quic_def run_tcp_def quic_Listen_def tcp_Listen_def with_prologue_def numeral_2_eq_2)
qed

text \<open>The client's side: the printed URI leads to a dialer for either transport.\<close>

lemma client_setup_keygen:
  assumes "length (Public static) = 32" "printable_host pub_host" "0 \<le> port" "port < 2 ^ 63" "uid \<noteq> []"
    and "keygen pub_host port decoy outDir (Inr static) uid mkdir write = Inr (uri, pub_line, body)"
    and "\<And>cfg. quic_dial cfg = None"
    and "c = \<lparr>Addr = join_host_port pub_host (itoa_int port), UUID = uid, SNI = decoy, ServerStaticPub = Public static,
      InsecureSkipVerify = insecure, CPrologue = DefaultPrologue, Fingerprint = []\<rparr>"
  shows "client_setup quic_dial uri ''tcp'' insecure = Inr (TcpDialer c, \<lparr>uuid = uid\<rparr>)"
    and "client_setup quic_dial uri ''quic'' insecure = Inr (QuicDialer c, \<lparr>uuid = uid\<rparr>)"
proof -
  let ?cfg = "keygen_config pub_host port decoy static uid"
  have "printable_config ?cfg"
    using assms(2-5) by (simp add: printable_config_def keygen_config_def)
  moreover have "uri = uri_string ?cfg"
    using assms(6) by (auto simp: keygen_def Let_def split: if_splits option.splits)
  moreover have "canonical ?cfg = ?cfg"
    using assms(1) by (simp add: canonical_def keygen_config_def getOrDefault_def ModeAuto_def TrimSuffix_def)
  ultimately have "Parse uri = Inr ?cfg"
    using Parse_String by simp
  then show "client_setup quic_dial uri ''tcp'' insecure = Inr (TcpDialer c, \<lparr>uuid = uid\<rparr>)"
    "client_setup quic_dial uri ''quic'' insecure = Inr (QuicDialer c, \<lparr>uuid = uid\<rparr>)"
    using assms(1,7) by (simp_all add: assms(8) client_setup_def keygen_config_def buildDialer_def tcp_NewClient_def quic_NewClient_def
        checkClient_def join_host_port_def)
qed

end
