(* ===== verification/Iface.thy ===== *)
theory Iface
  imports Tunnel Ws
begin

text \<open>
  Interface values. A Go variable of type \<^verbatim>\<open>io.ReadWriteCloser\<close> holds one of several implementations, and the
  tunnel handler has two of them at once: the transport's stream, a WebSocket for instance, and the
  \<^verbatim>\<open>net.Conn\<close> of the destination. Such a value is an element of the sum of the implementations' states, and a
  call goes to the one it holds. A sum of byte sources is a byte source, and a sum of sinks a sink, so what
  is shown of the handler for any kind of stream holds for mixed ones.
\<close>

fun sum_read :: "'a reader \<Rightarrow> 'b reader \<Rightarrow> ('a + 'b) reader" where
  "sum_read ra rb k (Inl a) = (case ra k a of (got, e, a') \<Rightarrow> (got, e, Inl a'))"
| "sum_read ra rb k (Inr b) = (case rb k b of (got, e, b') \<Rightarrow> (got, e, Inr b'))"

fun sum_write :: "'a writer \<Rightarrow> 'b writer \<Rightarrow> ('a + 'b) writer" where
  "sum_write wa wb bs (Inl a) = (case wa bs a of (e, a') \<Rightarrow> (e, Inl a'))"
| "sum_write wa wb bs (Inr b) = (case wb bs b of (e, b') \<Rightarrow> (e, Inr b'))"

text \<open>A stream, and a connection, as interface values.\<close>

definition stream_value :: "('a, 'v) tstream \<Rightarrow> ('a + 'b, 'v + 'w) tstream" where
  "stream_value ts = \<lparr>rx = Inl (rx ts), tx = Inl (tx ts), Channel = Channel ts\<rparr>"

definition conn_value :: "('b, 'w) duplex \<Rightarrow> ('a + 'b, 'v + 'w) duplex" where
  "conn_value d = \<lparr>rx = Inr (rx d), tx = Inr (tx d)\<rparr>"

lemma value_fields [simp]:
  "rx (stream_value ts) = Inl (rx ts)" "tx (stream_value ts) = Inl (tx ts)" "Channel (stream_value ts) = Channel ts"
  "rx (conn_value d) = Inr (rx d)" "tx (conn_value d) = Inr (tx d)"
  by (simp_all add: stream_value_def conn_value_def)

locale two_copies = one: open_copy ra ca fa pa wa va oa + two: open_copy rb cb fb pb wb vb ob
  for ra :: "'a reader" and ca fa pa and wa :: "'v writer" and va oa
    and rb :: "'b reader" and cb fb pb and wb :: "'w writer" and vb ob
begin

sublocale both: open_copy "sum_read ra rb" "case_sum ca cb" "case_sum fa fb" "case_sum pa pb"
  "sum_write wa wb" "case_sum va vb" "case_sum oa ob"
proof unfold_locales
  fix k s got s'
  assume "0 < (k :: nat)" "sum_read ra rb k s = (got, None, s')"
  then show "case_sum ca cb s = got @ case_sum ca cb s' \<and> length got \<le> k \<and> case_sum fa fb s' = case_sum fa fb s
      \<and> case_sum pa pb s' < case_sum pa pb s"
    using one.read_ok two.read_ok by (cases s) (auto split: prod.splits)
next
  fix k s got e s'
  assume "0 < (k :: nat)" "sum_read ra rb k s = (got, Some e, s')"
  then show "case_sum ca cb s = got \<and> length got \<le> k \<and> e = case_sum fa fb s \<and> case_sum ca cb s' = []
      \<and> case_sum fa fb s' = case_sum fa fb s"
    using one.read_err two.read_err by (cases s) (auto split: prod.splits)
next
  fix b w w'
  assume "sum_write wa wb b w = (None, w')"
  then show "case_sum va vb w' = case_sum va vb w @ b"
    using one.write_ok two.write_ok by (cases w) (auto split: prod.splits)
next
  fix b w e w'
  assume "sum_write wa wb b w = (Some e, w')"
  then show "\<exists>n \<le> length b. case_sum va vb w' = case_sum va vb w @ take n b"
    using one.write_err two.write_err by (cases w) (auto split: prod.splits)
next
  fix w b
  assume "case_sum oa ob w"
  then show "\<exists>w'. sum_write wa wb b w = (None, w') \<and> case_sum oa ob w'"
    using one.write_open [of _ b] two.write_open [of _ b] by (cases w) fastforce+
qed

text \<open>A write and a copy stay with their implementation.\<close>

lemma sum_write_kept: "sum_write wa wb bs w = (e, w') \<Longrightarrow> isl w' = isl w"
  by (cases w) (auto split: prod.splits)

end

interpretation ws: open_sink ws_write "\<lambda>p. concat (fst p)" "\<lambda>p. snd p = None"
  by unfold_locales (simp add: ws_write_def)

text \<open>A WebSocket stream of a client and the TCP connection of a destination.\<close>

interpretation ws_net: two_copies ws_read ws_content ws_error ws_pending ws_write "\<lambda>p. concat (fst p)" "\<lambda>p. snd p = None"
    seg_read conn_content snd conn_pending peer_write fst "\<lambda>p. snd p = None"
  by unfold_locales

lemmas ws_request_handled = ws_net.both.request_handled

end
