(* ===== verification/EndToEnd.thy ===== *)
theory EndToEnd
  imports Commands Iface
begin

text \<open>
  From a client's \<^verbatim>\<open>Dial\<close> to the destination over the other transports: WebSocket, a SMUX session with many tunnels, and TLS
  over TCP behind the decoy. Each theorem joins the client's and the server's side of the transport
  (\<open>Clients\<close>, \<open>Carriers\<close>, \<open>TcpServer\<close>) with the request and its handling (\<open>Tunnel\<close>). The root theory has the one for
  QUIC.
\<close>

subsection \<open>What a tunnel is to do\<close>

text \<open>The destination of a request for a host and port: an IPv6 literal in Go's printed form.\<close>

definition target_of :: "string \<Rightarrow> nat \<Rightarrow> string" where
  "target_of h p = join_host_port (if CHR '':'' \<in> set h then canon_host h else h) (itoa_nat p)"

text \<open>The server's handler on a stream dials exactly the target; if that fails it closes the stream; otherwise it passes the payload on, sends
  the answer behind what the stream has sent before, and closes both.\<close>

definition serves :: "tunnel_server \<Rightarrow> (string \<Rightarrow> io_err + (conn, peer) duplex) \<Rightarrow> (conn, peer) tstream \<Rightarrow> string \<Rightarrow> bytes \<Rightarrow> bool" where
  "serves srv dial ts target payload \<longleftrightarrow>
     (case dial target of
        Inl _ \<Rightarrow> handle srv seg_read peer_write dial False ts = Some [Dial target, CloseStream]
      | Inr server \<Rightarrow> \<exists>v w. handle srv seg_read peer_write dial False ts = Some [Dial target, Splice v w, CloseUpstream, CloseStream]
          \<and> IoCopy.delivered (tx server) payload v \<and> fst w = fst (tx ts) @ conn_content (rx server))"

text \<open>It does so on a network stream with a client's request and a sending side that is open.\<close>

lemma stream_served:
  assumes "encodeDest h = Inr (atyp, addr)" "p < 65536"
    and "encode (request c (Channel ts) atyp addr (word_of_nat p)) = Inr out" "uuid c \<in> set (acceptedUUIDs srv)"
    and "conn_content (rx ts) = out @ payload" "snd (tx ts) = None"
  shows "serves srv dial ts (target_of h p) payload"
  unfolding serves_def
  using sock.to_peer.to_peer.request_handled [OF assms(3,1,2,4,5) target_of_def, of dial, unfolded passed_delivered] assms(6)
  by (cases "dial (target_of h p)") (fastforce simp: IoCopy.delivered_def)+

text \<open>What the two sides write reaches the other in any segments; both complete the handshake and are left with the rest.\<close>

lemma conn_session:
  assumes run: "nk_run lib static prologue cli_hello srv_hello m1 m2 c1 c2 ch" "length (Public static) = 32"
    and io: "concat up = frame m1 @ x" "concat down = frame m2 @ y"
  obtains s1 s2 where
    "ClientHandshake lib seg_read peer_write (Public static) prologue cli_hello \<lparr>rx = (down, e1), tx = ([], None)\<rparr>
      = Some (Inr \<lparr>Send = c1, Recv = c2, Hash = ch, Payload = srv_hello\<rparr>, \<lparr>rx = s1, tx = (frame m1, None)\<rparr>)"
    "ServerHandshake lib seg_read peer_write static prologue srv_hello \<lparr>rx = (up, e2), tx = ([], None)\<rparr>
      = Some (Inr \<lparr>Send = c2, Recv = c1, Hash = ch, Payload = cli_hello\<rparr>, \<lparr>rx = s2, tx = (frame m2, None)\<rparr>)"
    "conn_content s1 = y" "conn_content s2 = x"
proof -
  let ?cd = "\<lparr>rx = (down, e1), tx = ([], None)\<rparr> :: (conn, peer) duplex"
  let ?sd = "\<lparr>rx = (up, e2), tx = ([], None)\<rparr> :: (conn, peer) duplex"
  have "writeFrame peer_write m1 (tx ?cd) = (None, (frame m1, None))" "writeFrame peer_write m2 (tx ?sd) = (None, (frame m2, None))"
    using run(1) writeFrame_open [of m1 "[]"] writeFrame_open [of m2 "[]"] by (auto simp: nk_run_def)
  then show ?thesis
    using sock.client_completes [OF run, of ?cd y peer_write] sock.server_completes [OF run(1), of ?sd x peer_write] io that
    by (auto simp: conn_content_def)
qed

lemma acceptStreams_all: "acceptStreams ch (map (\<lambda>d. (Inr d, True)) ds) = map (\<lambda>d. Hand (as_tunnel d ch)) ds"
  by (induction ds) simp_all

lemma as_tunnel_fields [simp]: "rx (as_tunnel d ch) = rx d" "tx (as_tunnel d ch) = tx d" "Channel (as_tunnel d ch) = ch"
  by (simp_all add: as_tunnel_def)

subsection \<open>WebSocket\<close>

text \<open>What a writing side has taken, for the interface value of a WebSocket or a connection.\<close>

definition value_written :: "ws_peer + peer \<Rightarrow> bytes" where
  "value_written = case_sum (\<lambda>p. concat (fst p)) fst"

text \<open>The tunnel handler with a WebSocket stream from the client and TCP connections to destinations.\<close>

definition ws_handle :: "tunnel_server \<Rightarrow> (string \<Rightarrow> io_err + (conn, peer) duplex) \<Rightarrow> (ws_stream, ws_peer) tstream
    \<Rightarrow> (ws_peer + peer) act list option" where
  "ws_handle srv dial ts = handle srv (sum_read ws_read seg_read) (sum_write ws_write peer_write)
     (\<lambda>dest. map_sum id conn_value (dial dest)) False (stream_value ts)"

text \<open>\<open>serves\<close> for it. A destination that stops taking bytes has taken a part of the payload.\<close>

definition ws_serves :: "tunnel_server \<Rightarrow> (string \<Rightarrow> io_err + (conn, peer) duplex) \<Rightarrow> (ws_stream, ws_peer) tstream \<Rightarrow> string \<Rightarrow> bytes \<Rightarrow> bool" where
  "ws_serves srv dial ts target payload \<longleftrightarrow>
     (case dial target of
        Inl _ \<Rightarrow> ws_handle srv dial ts = Some [Dial target, CloseStream]
      | Inr server \<Rightarrow> \<exists>v w. ws_handle srv dial ts = Some [Dial target, Splice v w, CloseUpstream, CloseStream]
          \<and> (\<exists>n \<le> length payload. value_written v = fst (tx server) @ take n payload)
          \<and> (snd (tx server) = None \<longrightarrow> value_written v = fst (tx server) @ payload)
          \<and> value_written w = concat (fst (tx ts)) @ conn_content (rx server))"

lemma ws_handle_request:
  assumes "encode (request c (Channel ts) atyp addr (word_of_nat p)) = Inr out" "encodeDest h = Inr (atyp, addr)" "p < 65536"
    and "uuid c \<in> set (acceptedUUIDs srv)" "ws_content (rx ts) = out @ payload" "tx ts = (sms, None)"
  shows "ws_serves srv dial ts (target_of h p) payload"
proof -
  let ?ts = "stream_value ts :: (ws_stream + conn, ws_peer + peer) tstream"
  have req: "encode (request c (Channel ?ts) atyp addr (word_of_nat p)) = Inr out"
    "case_sum ws_content conn_content (rx ?ts) = out @ payload"
    using assms(1,5) by simp_all
  note handled = ws_request_handled [OF req(1) assms(2,3,4) req(2) target_of_def, of "\<lambda>dest. map_sum id conn_value (dial dest)"]
  show ?thesis
    using handled assms(6) by (cases "dial (target_of h p)") (fastforce simp: ws_serves_def ws_handle_def ws_net.both.passed_def value_written_def)+
qed

text \<open>C8. End to end over WebSocket: let the client hold the public key and the prologue of the server and one of its
  UUIDs, and let the Noise library complete an exchange whose messages arrive unchanged. However the WebSocket messages are
  cut, as long as they carry the client's handshake messages, the request and any payload, and back the server's handshake
  messages and any answer, both \<open>Dial\<close> and \<open>DialTunnel\<close> succeed, having sent the handshake and one message with the request; the
  server hands out the stream; and its tunnel handler, which reads and writes WebSocket messages on one side and a TCP
  connection on the other, dials exactly the requested host and port, passes on the payload without a byte of
  what came before, answers behind the handshake, and closes both.\<close>

theorem ws_tunnel_end_to_end:
  assumes noise: "nk_completes lib (sStatic scfg) (sPrologue scfg) cli_hello srv_hello" "length (Public (sStatic scfg)) = 32"
    and client: "ServerStaticPub cfg = Public (sStatic scfg)" "CPrologue cfg = sPrologue scfg"
    and net: "tcp_dial (Addr cfg) = None" "tls_dial (dialTLS (Fingerprint cfg)) = None"
    and uuid: "u \<in> set (acceptedUUIDs srv)"
    and dest: "encodeDest h = Inr (atyp, addr)" "CHR ''['' \<notin> set h" "CHR '']'' \<notin> set h" "p < 65536"
  shows "\<exists>cms sms req. \<forall>up down payload answer e1 e2.
    concat up = concat cms @ req @ payload \<and> concat down = concat sms @ answer \<longrightarrow>
    (\<exists>cts cts' ts.
       ws_Dial lib cfg pth tcp_dial tls_dial
         (\<lambda>host q. if host = (if SNI cfg = [] then Addr cfg else SNI cfg) \<and> q = pth
            then Inr \<lparr>rx = newWSStream down e1, tx = ([], None)\<rparr> else Inl ''bad handshake'') = Some (Inr cts, [])
     \<and> DialTunnel \<lparr>uuid = u\<rparr> ws_write (Inr cts) (join_host_port h (itoa_nat p)) = (Inr cts', False)
     \<and> fst (tx cts') = cms @ [req] \<and> ws_content (rx cts') = answer
     \<and> ws_handleWS scfg lib (Inr \<lparr>rx = newWSStream up e2, tx = ([], None)\<rparr>) True = Some [Hand ts]
     \<and> tx ts = (sms, None)
     \<and> ws_serves srv dial ts (target_of h p) payload)"
proof -
  let ?up = "\<lambda>down e1 host q. if host = (if SNI cfg = [] then Addr cfg else SNI cfg) \<and> q = pth
            then Inr \<lparr>rx = newWSStream down e1, tx = ([] :: bytes list, None :: nat option)\<rparr> else Inl ''bad handshake''"
  obtain cms sms ch where session: "\<forall>up down x y e1 e2. concat up = concat cms @ x \<and> concat down = concat sms @ y \<longrightarrow>
    (\<exists>s1 s2. ws_Dial lib cfg pth tcp_dial tls_dial (?up down e1) = Some (Inr \<lparr>rx = s1, tx = (cms, None), Channel = ch\<rparr>, [])
     \<and> ws_handleWS scfg lib (Inr \<lparr>rx = newWSStream up e2, tx = ([], None)\<rparr>) True
         = Some [Hand \<lparr>rx = s2, tx = (sms, None), Channel = ch\<rparr>]
     \<and> ws_content s1 = y \<and> ws_content s2 = x)"
    using ws_session [where tcp_dial = tcp_dial and tls_dial = tls_dial and path = pth, OF noise client net] by blast
  obtain req where req: "encode (request \<lparr>uuid = u\<rparr> ch atyp addr (word_of_nat p)) = Inr req"
    using request_encodes [OF dest(1)] by blast
  show ?thesis
  proof (rule exI [of _ cms], rule exI [of _ sms], rule exI [of _ req], intro allI impI)
    fix up down payload answer e1 e2
    assume io: "concat up = concat cms @ req @ payload \<and> concat down = concat sms @ answer"
    obtain s1 s2 where s: "ws_Dial lib cfg pth tcp_dial tls_dial (?up down e1) = Some (Inr \<lparr>rx = s1, tx = (cms, None), Channel = ch\<rparr>, [])"
      "ws_handleWS scfg lib (Inr \<lparr>rx = newWSStream up e2, tx = ([], None)\<rparr>) True = Some [Hand \<lparr>rx = s2, tx = (sms, None), Channel = ch\<rparr>]"
      "ws_content s1 = answer" "ws_content s2 = req @ payload"
      using session [rule_format, OF io, of e1 e2] by blast
    let ?cts = "\<lparr>rx = s1, tx = (cms, None), Channel = ch\<rparr> :: (ws_stream, ws_peer) tstream"
    let ?ts = "\<lparr>rx = s2, tx = (sms, None), Channel = ch\<rparr> :: (ws_stream, ws_peer) tstream"
    have dialled: "DialTunnel \<lparr>uuid = u\<rparr> ws_write (Inr ?cts) (join_host_port h (itoa_nat p)) = (Inr (?cts\<lparr>tx := (cms @ [req], None)\<rparr>), False)"
      using DialTunnel_join [OF dest, of "\<lparr>uuid = u\<rparr>" ?cts req ws_write] req by (simp add: ws_write_def)
    have served: "ws_serves srv dial ?ts (target_of h p) payload"
      by (rule ws_handle_request [of "\<lparr>uuid = u\<rparr>" _ atyp addr p req h]) (use req dest uuid s(4) in simp_all)
    show "\<exists>cts cts' ts. ws_Dial lib cfg pth tcp_dial tls_dial (?up down e1) = Some (Inr cts, [])
     \<and> DialTunnel \<lparr>uuid = u\<rparr> ws_write (Inr cts) (join_host_port h (itoa_nat p)) = (Inr cts', False)
     \<and> fst (tx cts') = cms @ [req] \<and> ws_content (rx cts') = answer
     \<and> ws_handleWS scfg lib (Inr \<lparr>rx = newWSStream up e2, tx = ([], None)\<rparr>) True = Some [Hand ts]
     \<and> tx ts = (sms, None)
     \<and> ws_serves srv dial ts (target_of h p) payload"
      by (intro exI [of _ ?cts] exI [of _ "?cts\<lparr>tx := (cms @ [req], None)\<rparr>"] exI [of _ ?ts] conjI s(1,2) dialled served)
        (simp_all add: s(3))
  qed
qed

lemma sample_session:
  "nk_completes plain_lib (sStatic sample_scfg) (sPrologue sample_scfg) cli_hello srv_hello"
  "length (Public (sStatic sample_scfg)) = 32" "ServerStaticPub sample_ccfg = Public (sStatic sample_scfg)"
  "CPrologue sample_ccfg = sPrologue sample_scfg" "''id'' \<in> set (acceptedUUIDs \<lparr>acceptedUUIDs = [''id'']\<rparr>)"
  using sample_completes by (simp_all add: sample_scfg_def sample_ccfg_def sample_key_def)

lemma sample_dests:
  "encodeDest ''a.b'' = Inr (AtypDomain, bytes_of ''a.b'')" "encodeDest ''c.d'' = Inr (AtypDomain, bytes_of ''c.d'')"
  "join_host_port (if CHR '':'' \<in> set ''a.b'' then canon_host ''a.b'' else ''a.b'') (itoa_nat 443) = ''a.b:443''"
  "join_host_port (if CHR '':'' \<in> set ''c.d'' then canon_host ''c.d'' else ''c.d'') (itoa_nat 80) = ''c.d:80''"
  "join_host_port ''a.b'' (itoa_nat 443) = ''a.b:443''" "join_host_port ''c.d'' (itoa_nat 80) = ''c.d:80''"
  by code_simp+

lemma sample_target:
  "target_of ''a.b'' 443 = ''a.b:443''" "target_of ''c.d'' 80 = ''c.d:80''"
  unfolding target_of_def by (rule sample_dests)+

lemma serves_sample:
  "serves srv sample_dial ts target payload \<Longrightarrow>
     \<exists>v w. handle srv seg_read peer_write sample_dial False ts = Some [Dial target, Splice v w, CloseUpstream, CloseStream]
        \<and> fst v = payload \<and> fst w = fst (tx ts) @ [7]"
  by (auto simp: serves_def sample_dial_def IoCopy.delivered_def)

theorem ws_tunnel_end_to_end_witness:
  "\<exists>cms sms req cts cts' ts v w.
     ws_Dial plain_lib sample_ccfg ''/ws'' (\<lambda>_. None) (\<lambda>_. None)
       (\<lambda>host q. if host = ''h:443'' \<and> q = ''/ws'' then Inr \<lparr>rx = newWSStream [concat sms @ [9]] EOF, tx = ([], None)\<rparr> else Inl ''bad handshake'')
       = Some (Inr cts, [])
   \<and> DialTunnel \<lparr>uuid = ''id''\<rparr> ws_write (Inr cts) ''a.b:443'' = (Inr cts', False)
   \<and> ws_handleWS sample_scfg plain_lib (Inr \<lparr>rx = newWSStream (cms @ [req, [42]]) EOF, tx = ([], None)\<rparr>) True = Some [Hand ts]
   \<and> ws_handle \<lparr>acceptedUUIDs = [''id'']\<rparr> sample_dial ts = Some [Dial ''a.b:443'', Splice v w, CloseUpstream, CloseStream]
   \<and> value_written v = [42] \<and> value_written w = concat sms @ [7]"
proof -
  have dest: "CHR ''['' \<notin> set ''a.b''" "CHR '']'' \<notin> set ''a.b''" "(443 :: nat) < 65536"
    by simp_all
  have host: "(if SNI sample_ccfg = [] then Addr sample_ccfg else SNI sample_ccfg) = ''h:443''"
    by (simp add: sample_ccfg_def)
  show ?thesis
    using ws_tunnel_end_to_end [where tcp_dial = "\<lambda>_. None" and tls_dial = "\<lambda>_. None" and pth = "''/ws''" and dial = sample_dial,
        OF sample_session(1-4) refl refl sample_session(5) sample_dests(1) dest]
    unfolding sample_target(1) sample_dests(5) host
  proof (elim exE, goal_cases)
    case (1 cms sms req)
    have io: "concat (cms @ [req, [42]]) = concat cms @ req @ [42] \<and> concat [concat sms @ [9]] = concat sms @ [9]"
      by simp
    from 1 [rule_format, OF io, of EOF EOF] show ?case
      by (fastforce simp: ws_serves_def sample_dial_def)
  qed
qed

subsection \<open>SMUX\<close>

text \<open>The request for a host and port that goes with a channel binding.\<close>

definition request_for :: "string \<Rightarrow> bytes \<Rightarrow> string \<times> nat \<Rightarrow> bytes \<Rightarrow> bool" where
  "request_for u ch r out \<longleftrightarrow> CHR ''['' \<notin> set (fst r) \<and> CHR '']'' \<notin> set (fst r) \<and> snd r < 65536
     \<and> (\<exists>atyp addr. encodeDest (fst r) = Inr (atyp, addr) \<and> encode (request \<lparr>uuid = u\<rparr> ch atyp addr (word_of_nat (snd r))) = Inr out)"

lemma request_for_ex:
  "encodeDest h = Inr a \<Longrightarrow> CHR ''['' \<notin> set h \<Longrightarrow> CHR '']'' \<notin> set h \<Longrightarrow> p < 65536 \<Longrightarrow> \<exists>out. request_for u ch (h, p) out"
  using request_encodes by (cases a) (fastforce simp: request_for_def)

lemma request_for_dialled:
  assumes "request_for u ch r out"
  shows "DialTunnel \<lparr>uuid = u\<rparr> peer_write (Inr (as_tunnel \<lparr>rx = c :: conn, tx = (w, None)\<rparr> ch)) (join_host_port (fst r) (itoa_nat (snd r)))
    = (Inr (as_tunnel \<lparr>rx = c, tx = (w @ out, None)\<rparr> ch), False)"
proof -
  obtain atyp addr where o: "encodeDest (fst r) = Inr (atyp, addr)" "CHR ''['' \<notin> set (fst r)" "CHR '']'' \<notin> set (fst r)" "snd r < 65536"
    "encode (request \<lparr>uuid = u\<rparr> ch atyp addr (word_of_nat (snd r))) = Inr out"
    using assms by (auto simp: request_for_def)
  show ?thesis
    using DialTunnel_join [OF o(1-4), of "\<lparr>uuid = u\<rparr>" "as_tunnel \<lparr>rx = c, tx = (w, None)\<rparr> ch" out peer_write] o(5)
    by (simp add: as_tunnel_def)
qed

lemma request_for_served:
  assumes "request_for u ch r out" "u \<in> set (acceptedUUIDs srv)"
    and "Channel ts = ch" "conn_content (rx ts) = out @ payload" "snd (tx ts) = None"
  shows "serves srv dial ts (target_of (fst r) (snd r)) payload"
  using assms by (auto simp: request_for_def intro!: stream_served [where c = "\<lparr>uuid = u\<rparr>"])

text \<open>C9. End to end over SMUX, many tunnels on one connection: with one Noise handshake on the outer connection, the client is left
  with a session whose streams all carry its transcript hash, and the server hands out every substream with
  the same hash; so for any list of requests, each on a substream of its own and followed by its own payload, in whatever
  segments, \<open>DialTunnel\<close> writes exactly its request, and the server's handler dials exactly its host
  and port, passes on its payload and returns the answer.\<close>

theorem smux_tunnels_end_to_end:
  assumes noise: "nk_completes lib (sStatic scfg) (sPrologue scfg) cli_hello srv_hello" "length (Public (sStatic scfg)) = 32"
    and client: "ServerStaticPub cfg = Public (sStatic scfg)" "CPrologue cfg = sPrologue scfg"
    and uuid: "u \<in> set (acceptedUUIDs srv)"
    and dests: "\<forall>(h, p) \<in> set reqs. (\<exists>a. encodeDest h = Inr a) \<and> CHR ''['' \<notin> set h \<and> CHR '']'' \<notin> set h \<and> p < 65536"
  shows "\<exists>m1 m2 ch bs. \<forall>up down x y e1 e2 subs payloads.
    concat up = frame m1 @ x \<and> concat down = frame m2 @ y \<and> length subs = length reqs
      \<and> (\<forall>i < length reqs. conn_content (rx (subs ! i)) = bs ! i @ payloads ! i \<and> tx (subs ! i) = ([], None)) \<longrightarrow>
    (\<exists>c.
       smux_dialOuter lib seg_read peer_write (Inr raw) (\<lambda>_ _. Inr \<lparr>rx = (down, e1), tx = ([], None)\<rparr>) (\<lambda>_. Inr ss) cfg c0
         = Some ((None, c), [])
     \<and> (\<forall>(st :: 'st) o1 o2. smux_Dial (\<lambda>_. False) (\<lambda>s. if s = ss then Inr st else Inl ''closed'') o1 o2 c = Some (Inr (st, Some raw, ch), c))
     \<and> smux_handleOuter scfg lib seg_read peer_write (Inr \<lparr>rx = (up, e2), tx = ([], None)\<rparr>) None (map (\<lambda>d. (Inr d, True)) subs)
         = Some (Deadline (Some 15) # Deadline None # map (\<lambda>d. Hand (as_tunnel d ch)) subs)
     \<and> (\<forall>i < length reqs.
          (\<forall>r w. DialTunnel \<lparr>uuid = u\<rparr> peer_write (Inr (as_tunnel \<lparr>rx = r, tx = (w, None)\<rparr> ch)) (join_host_port (fst (reqs ! i)) (itoa_nat (snd (reqs ! i))))
             = (Inr (as_tunnel \<lparr>rx = r :: conn, tx = (w @ bs ! i, None)\<rparr> ch), False))
        \<and> serves srv dial (as_tunnel (subs ! i) ch) (target_of (fst (reqs ! i)) (snd (reqs ! i))) (payloads ! i)))"
proof -
  obtain m1 m2 c1 c2 ch where run: "nk_run lib (sStatic scfg) (sPrologue scfg) cli_hello srv_hello m1 m2 c1 c2 ch"
    using nk_run_ex [OF noise(1)] by blast
  have "\<exists>out. request_for u ch r out" if "r \<in> set reqs" for r
    using request_for_ex dests that by (cases r) fastforce
  then obtain out where out: "\<And>r. r \<in> set reqs \<Longrightarrow> request_for u ch r (out r)"
    by metis
  show ?thesis
  proof (rule exI [of _ m1], rule exI [of _ m2], rule exI [of _ ch], rule exI [of _ "map out reqs"], intro allI impI, elim conjE)
    fix up down :: "bytes list" and x y e1 e2 and subs :: "(conn, peer) duplex list" and payloads
    assume io: "concat up = frame m1 @ x" "concat down = frame m2 @ y" "length subs = length reqs"
      and each: "\<forall>i < length reqs. conn_content (rx (subs ! i)) = map out reqs ! i @ payloads ! i \<and> tx (subs ! i) = ([], None)"
    let ?cd = "\<lparr>rx = (down, e1), tx = ([], None)\<rparr> :: (conn, peer) duplex"
    let ?sd = "\<lparr>rx = (up, e2), tx = ([], None)\<rparr> :: (conn, peer) duplex"
    obtain s1 s2 where s: "ClientHandshake lib seg_read peer_write (Public (sStatic scfg)) (sPrologue scfg) cli_hello ?cd
        = Some (Inr \<lparr>Send = c1, Recv = c2, Hash = ch, Payload = srv_hello\<rparr>, \<lparr>rx = s1, tx = (frame m1, None)\<rparr>)"
      "ServerHandshake lib seg_read peer_write (sStatic scfg) (sPrologue scfg) srv_hello ?sd
        = Some (Inr \<lparr>Send = c2, Recv = c1, Hash = ch, Payload = cli_hello\<rparr>, \<lparr>rx = s2, tx = (frame m2, None)\<rparr>)"
      by (rule conn_session [OF run noise(2) io(1,2)])
    have dialled: "DialTunnel \<lparr>uuid = u\<rparr> peer_write (Inr (as_tunnel \<lparr>rx = r, tx = (w, None)\<rparr> ch)) (join_host_port (fst (reqs ! i)) (itoa_nat (snd (reqs ! i))))
        = (Inr (as_tunnel \<lparr>rx = r :: conn, tx = (w @ map out reqs ! i, None)\<rparr> ch), False)" if "i < length reqs" for i r w
      using request_for_dialled [OF out [OF nth_mem [OF that]]] that by simp
    have served: "serves srv dial (as_tunnel (subs ! i) ch) (target_of (fst (reqs ! i)) (snd (reqs ! i))) (payloads ! i)" if "i < length reqs" for i
      using request_for_served [OF out [OF nth_mem [OF that]] uuid, of "as_tunnel (subs ! i) ch"] each that by simp
    show "\<exists>c. smux_dialOuter lib seg_read peer_write (Inr raw) (\<lambda>_ _. Inr ?cd) (\<lambda>_. Inr ss) cfg c0 = Some ((None, c), [])
     \<and> (\<forall>(st :: 'st) o1 o2. smux_Dial (\<lambda>_. False) (\<lambda>s. if s = ss then Inr st else Inl ''closed'') o1 o2 c = Some (Inr (st, Some raw, ch), c))
     \<and> smux_handleOuter scfg lib seg_read peer_write (Inr ?sd) None (map (\<lambda>d. (Inr d, True)) subs)
         = Some (Deadline (Some 15) # Deadline None # map (\<lambda>d. Hand (as_tunnel d ch)) subs)
     \<and> (\<forall>i < length reqs.
          (\<forall>r w. DialTunnel \<lparr>uuid = u\<rparr> peer_write (Inr (as_tunnel \<lparr>rx = r, tx = (w, None)\<rparr> ch)) (join_host_port (fst (reqs ! i)) (itoa_nat (snd (reqs ! i))))
             = (Inr (as_tunnel \<lparr>rx = r :: conn, tx = (w @ map out reqs ! i, None)\<rparr> ch), False))
        \<and> serves srv dial (as_tunnel (subs ! i) ch) (target_of (fst (reqs ! i)) (snd (reqs ! i))) (payloads ! i))"
      using dialled served s
      by (intro exI [of _ "c0\<lparr>session := Some ss, raw_conn := Some raw, hash := ch\<rparr>"])
        (simp add: smux_dialOuter_def smux_Dial_def smux_handleOuter_def acceptStreams_all client cli_hello_def)
  qed
qed

theorem smux_tunnels_end_to_end_witness:
  "\<exists>ch b1 b2 v1 w1 v2 w2.
     smux_handleOuter sample_scfg plain_lib seg_read peer_write (Inl ''eof'') None [] = Some [Deadline (Some 15), Shut TheRaw]
   \<and> handle \<lparr>acceptedUUIDs = [''id'']\<rparr> seg_read peer_write sample_dial False
       (as_tunnel \<lparr>rx = ([b1 @ [1]], EOF), tx = ([], None)\<rparr> ch) = Some [Dial ''a.b:443'', Splice v1 w1, CloseUpstream, CloseStream]
   \<and> handle \<lparr>acceptedUUIDs = [''id'']\<rparr> seg_read peer_write sample_dial False
       (as_tunnel \<lparr>rx = ([b2, [2]], EOF), tx = ([], None)\<rparr> ch) = Some [Dial ''c.d:80'', Splice v2 w2, CloseUpstream, CloseStream]
   \<and> fst v1 = [1] \<and> fst v2 = [2]"
proof -
  let ?reqs = "[(''a.b'', 443 :: nat), (''c.d'', 80)]"
  let ?srv = "\<lparr>acceptedUUIDs = [''id'']\<rparr>"
  have dests: "\<forall>(h, p) \<in> set ?reqs. (\<exists>a. encodeDest h = Inr a) \<and> CHR ''['' \<notin> set h \<and> CHR '']'' \<notin> set h \<and> p < 65536"
    using sample_dests(1,2) by simp
  show ?thesis
    using smux_tunnels_end_to_end [where 'st = nat and raw = "0 :: nat" and ss = "0 :: nat" and dial = sample_dial
        and ?c0.0 = "\<lparr>session = None, raw_conn = None, hash = []\<rparr>", OF sample_session dests]
  proof (elim exE, goal_cases)
    case (1 m1 m2 ch bs)
    let ?subs = "[\<lparr>rx = ([bs ! 0 @ [1]], EOF), tx = ([], None)\<rparr>, \<lparr>rx = ([bs ! 1, [2]], EOF), tx = ([], None)\<rparr>] :: (conn, peer) duplex list"
    have io: "concat [frame m1] = frame m1 @ [] \<and> concat [frame m2] = frame m2 @ [] \<and> length ?subs = length ?reqs
      \<and> (\<forall>i < length ?reqs. conn_content (rx (?subs ! i)) = bs ! i @ [[1], [2]] ! i \<and> tx (?subs ! i) = ([], None))"
      by (auto simp: less_Suc_eq)
    have each: "serves ?srv sample_dial (as_tunnel (?subs ! i) ch) (target_of (fst (?reqs ! i)) (snd (?reqs ! i))) ([[1], [2]] ! i)"
      if "i < length ?reqs" for i
      using 1 [rule_format, OF io, of EOF EOF] that by blast
    obtain v1 w1 where one: "handle ?srv seg_read peer_write sample_dial False (as_tunnel (?subs ! 0) ch)
        = Some [Dial ''a.b:443'', Splice v1 w1, CloseUpstream, CloseStream]" "fst v1 = [1]"
      using each [of 0] by (auto simp: sample_target dest: serves_sample)
    obtain v2 w2 where two: "handle ?srv seg_read peer_write sample_dial False (as_tunnel (?subs ! 1) ch)
        = Some [Dial ''c.d:80'', Splice v2 w2, CloseUpstream, CloseStream]" "fst v2 = [2]"
      using each [of 1] by (auto simp: sample_target dest: serves_sample)
    show ?case
      by (rule exI [of _ ch], rule exI [of _ "bs ! 0"], rule exI [of _ "bs ! 1"], rule exI [of _ v1], rule exI [of _ w1],
          rule exI [of _ v2], rule exI [of _ w2]) (use one two in \<open>simp add: smux_handleOuter_def\<close>)
  qed
qed

subsection \<open>TLS over TCP, behind the decoy\<close>

text \<open>C7. End to end over TCP: a client connects with a ClientHello that names one of the server's configured names; let TLS, given
  the bytes that the client sent, carry the plaintext of both sides. Then \<open>Dial\<close> succeeds, the server's handler recognises the name
  in whatever segments the hello comes, replays it to TLS, completes the Noise handshake with the same channel
  binding and hands out the stream that the handshake left, without having touched the decoy; \<open>DialTunnel\<close> writes exactly one request; and the tunnel
  handler dials exactly the requested host and port, passes on the payload and returns the answer.\<close>

theorem tcp_tunnel_end_to_end:
  assumes noise: "nk_completes lib (NoiseStatic tcfg) (NoisePrologue tcfg) cli_hello srv_hello" "length (Public (NoiseStatic tcfg)) = 32"
    and client: "ServerStaticPub cfg = Public (NoiseStatic tcfg)" "CPrologue cfg = NoisePrologue tcfg"
    and uuid: "u \<in> set (acceptedUUIDs srv)"
    and dest: "encodeDest h = Inr a" "CHR ''['' \<notin> set h" "CHR '']'' \<notin> set h" "p < 65536"
    and hello: "hello_ok hello" "ch_name hello \<in> set (magicSNIs tcfg)" "conn_content (rx c) = hello_record hello @ rest"
  shows "\<exists>m1 m2 ch req. \<forall>up down payload answer e1 e2 tls.
    concat up = frame m1 @ req @ payload \<and> concat down = frame m2 @ answer
      \<and> (\<forall>pre. fst (rx pre) @ conn_content (snd (rx pre)) = hello_record hello @ rest \<and> tx pre = tx c \<longrightarrow>
           tls pre = Inr \<lparr>rx = (up, e2), tx = ([], None)\<rparr>) \<longrightarrow>
    (\<exists>d d' t.
       tcp_Dial lib seg_read peer_write (Inr raw) (\<lambda>_ _. Inr \<lparr>rx = (down, e1), tx = ([], None)\<rparr>) cfg = Some (Inr (d, ch), [])
     \<and> DialTunnel \<lparr>uuid = u\<rparr> peer_write (Inr (as_tunnel d ch)) (join_host_port h (itoa_nat p)) = (Inr (as_tunnel d' ch), False)
     \<and> fst (tx d') = frame m1 @ req \<and> conn_content (rx d') = answer
     \<and> handleConn tcfg lib seg_read peer_write tls seg_read peer_write decoy race True c
         = Some [SetDeadline (Some 10), SetDeadline (Some 15), SetDeadline None, Deliver (as_tunnel t ch)]
     \<and> tx t = (frame m2, None)
     \<and> serves srv dial (as_tunnel t ch) (target_of h p) payload)"
proof -
  obtain m1 m2 c1 c2 ch where run: "nk_run lib (NoiseStatic tcfg) (NoisePrologue tcfg) cli_hello srv_hello m1 m2 c1 c2 ch"
    using nk_run_ex [OF noise(1)] by blast
  obtain req where req: "request_for u ch (h, p) req"
    using request_for_ex [OF dest] by blast
  show ?thesis
  proof (rule exI [of _ m1], rule exI [of _ m2], rule exI [of _ ch], rule exI [of _ req], intro allI impI, elim conjE)
    fix up down :: "bytes list" and payload answer e1 e2 and tls :: "(bytes \<times> conn, peer) duplex \<Rightarrow> io_err + (conn, peer) duplex"
    assume io: "concat up = frame m1 @ req @ payload" "concat down = frame m2 @ answer"
      and tls: "\<forall>pre. fst (rx pre) @ conn_content (snd (rx pre)) = hello_record hello @ rest \<and> tx pre = tx c \<longrightarrow>
           tls pre = Inr \<lparr>rx = (up, e2), tx = ([], None)\<rparr>"
    let ?cd = "\<lparr>rx = (down, e1), tx = ([], None)\<rparr> :: (conn, peer) duplex"
    let ?sd = "\<lparr>rx = (up, e2), tx = ([], None)\<rparr> :: (conn, peer) duplex"
    obtain s1 s2 where s: "ClientHandshake lib seg_read peer_write (Public (NoiseStatic tcfg)) (NoisePrologue tcfg) cli_hello ?cd
        = Some (Inr \<lparr>Send = c1, Recv = c2, Hash = ch, Payload = srv_hello\<rparr>, \<lparr>rx = s1, tx = (frame m1, None)\<rparr>)"
      "ServerHandshake lib seg_read peer_write (NoiseStatic tcfg) (NoisePrologue tcfg) srv_hello ?sd
        = Some (Inr \<lparr>Send = c2, Recv = c1, Hash = ch, Payload = cli_hello\<rparr>, \<lparr>rx = s2, tx = (frame m2, None)\<rparr>)"
      "conn_content s1 = answer" "conn_content s2 = req @ payload"
      by (rule conn_session [OF run noise(2) io])
    let ?d = "\<lparr>rx = s1, tx = (frame m1, None)\<rparr> :: (conn, peer) duplex"
    let ?t = "\<lparr>rx = s2, tx = (frame m2, None)\<rparr> :: (conn, peer) duplex"
    have dialled: "tcp_Dial lib seg_read peer_write (Inr raw) (\<lambda>_ _. Inr ?cd) cfg = Some (Inr (?d, ch), [])"
      using s(1) by (simp add: tcp_Dial_def client cli_hello_def)
    obtain pre where pre: "fst (rx pre) @ conn_content (snd (rx pre)) = hello_record hello @ rest" "tx pre = tx c"
      "handleConn tcfg lib seg_read peer_write tls seg_read peer_write decoy race True c
         = map_option (\<lambda>acts. SetDeadline (Some 10) # SetDeadline (Some 15) # acts) (terminate_tls tcfg lib seg_read peer_write (tls pre) True)"
      using magic_hello_tls [OF hello] by blast
    then have "tls pre = Inr ?sd"
      using tls by blast
    then have accepted: "handleConn tcfg lib seg_read peer_write tls seg_read peer_write decoy race True c
         = Some [SetDeadline (Some 10), SetDeadline (Some 15), SetDeadline None, Deliver (as_tunnel ?t ch)]"
      using s(2) pre(3) by (simp add: terminate_tls_def srv_hello_def)
    have served: "serves srv dial (as_tunnel ?t ch) (target_of h p) payload"
      using request_for_served [OF req uuid, of "as_tunnel ?t ch"] s(4) by simp
    show "\<exists>d d' t.
       tcp_Dial lib seg_read peer_write (Inr raw) (\<lambda>_ _. Inr ?cd) cfg = Some (Inr (d, ch), [])
     \<and> DialTunnel \<lparr>uuid = u\<rparr> peer_write (Inr (as_tunnel d ch)) (join_host_port h (itoa_nat p)) = (Inr (as_tunnel d' ch), False)
     \<and> fst (tx d') = frame m1 @ req \<and> conn_content (rx d') = answer
     \<and> handleConn tcfg lib seg_read peer_write tls seg_read peer_write decoy race True c
         = Some [SetDeadline (Some 10), SetDeadline (Some 15), SetDeadline None, Deliver (as_tunnel t ch)]
     \<and> tx t = (frame m2, None) \<and> serves srv dial (as_tunnel t ch) (target_of h p) payload"
      using request_for_dialled [OF req, of s1 "frame m1"] s(2,3)
      by (intro exI [of _ ?d] exI [of _ "\<lparr>rx = s1, tx = (frame m1 @ req, None)\<rparr>"] exI [of _ ?t]
          conjI dialled accepted served) simp_all
  qed
qed

theorem tcp_tunnel_end_to_end_witness:
  "\<exists>m1 m2 ch req t v w.
     handleConn \<lparr>NoiseStatic = sample_key, NoisePrologue = DefaultPrologue, DecoyAddr = ''d:443'', magicSNIs = [''ya.ru'']\<rparr>
       plain_lib seg_read peer_write (\<lambda>pre. Inr \<lparr>rx = ([frame m1 @ req, [42]], EOF), tx = ([], None)\<rparr>)
       seg_read peer_write sample_decoy (UpFirst 0) True sample_probe
       = Some [SetDeadline (Some 10), SetDeadline (Some 15), SetDeadline None, Deliver (as_tunnel t ch)]
   \<and> handle \<lparr>acceptedUUIDs = [''id'']\<rparr> seg_read peer_write sample_dial False (as_tunnel t ch)
       = Some [Dial ''a.b:443'', Splice v w, CloseUpstream, CloseStream]
   \<and> fst v = [42] \<and> fst w = frame m2 @ [7]"
proof -
  let ?tcfg = "\<lparr>NoiseStatic = sample_key, NoisePrologue = DefaultPrologue, DecoyAddr = ''d:443'', magicSNIs = [''ya.ru'']\<rparr>"
  have dest: "CHR ''['' \<notin> set ''a.b''" "CHR '']'' \<notin> set ''a.b''" "(443 :: nat) < 65536"
    by simp_all
  have key: "nk_completes plain_lib (NoiseStatic ?tcfg) (NoisePrologue ?tcfg) cli_hello srv_hello" "length (Public (NoiseStatic ?tcfg)) = 32"
    "ServerStaticPub sample_ccfg = Public (NoiseStatic ?tcfg)" "CPrologue sample_ccfg = NoisePrologue ?tcfg"
    using sample_session(1-4) by (simp_all add: sample_scfg_def)
  have name: "ch_name sample_hello \<in> set (magicSNIs ?tcfg)"
    by (simp add: sample_hello_def)
  show ?thesis
    using tcp_tunnel_end_to_end [where raw = "0 :: nat" and dial = sample_dial and decoy = sample_decoy and race = "UpFirst 0",
        OF key sample_session(5) sample_dests(1) dest sample_hello_ok name sample_probe_content]
    unfolding sample_target(1)
  proof (elim exE, goal_cases)
    case (1 m1 m2 ch req)
    have io: "concat [frame m1 @ req, [42]] = frame m1 @ req @ [42] \<and> concat [frame m2] = frame m2 @ [] \<and>
      (\<forall>pre :: (bytes \<times> conn, peer) duplex. fst (rx pre) @ conn_content (snd (rx pre)) = hello_record sample_hello @ [23, 3, 3]
          \<and> tx pre = tx sample_probe \<longrightarrow>
         (\<lambda>_. Inr \<lparr>rx = ([frame m1 @ req, [42]], EOF), tx = ([], None)\<rparr> :: io_err + (conn, peer) duplex) pre
           = Inr \<lparr>rx = ([frame m1 @ req, [42]], EOF), tx = ([], None)\<rparr>)"
      by simp
    from 1 [rule_format, OF io] show ?case
      by (fastforce dest: serves_sample)
  qed
qed

end
