(* ===== verification/System.thy ===== *)
theory System
  imports Pipeline EndToEnd
begin

text \<open>
  The running server with its connections: what \<^verbatim>\<open>run\<close> set up (\<open>Commands\<close>), the connection handlers of its
  QUIC and TCP servers (\<open>Carriers\<close>, \<open>TcpServer\<close>), the queues, the composite listener and the accept loop (\<open>Pipeline\<close>), and
  the tunnel handlers that it starts (\<open>Tunnel\<close>). A stream of \<open>Pipeline\<close> is here the number of the stream
  that a connection handler handed out. The Noise library is a parameter; what clients send, TLS, the dials and
  the races of each connection are whatever the step at hand has.
\<close>

primrec capacity_of :: "listener \<Rightarrow> nat" where
  "capacity_of (QuicListener _) = quic_capacity"
| "capacity_of (TcpListener _) = tcp_capacity"

definition caps_of :: "running \<Rightarrow> nat list" where
  "caps_of r = map capacity_of (listeners r)"

type_synonym net_stream = "(conn, peer) tstream"

text \<open>\<open>streams\<close> are the streams handed out so far, \<open>conns\<close> the actions of the TCP connection handlers that have
  returned, \<open>tunnels\<close> those of the tunnel handlers.\<close>

record system =
  pipe :: server_state
  streams :: "nat \<Rightarrow> net_stream option"
  conns :: "(peer, conn, peer) conn_act list list"
  tunnels :: "(nat \<times> peer act list) list"

definition boot :: "running \<Rightarrow> system" where
  "boot r = \<lparr>pipe = start_server (length (listeners r)), streams = (\<lambda>_. None), conns = [], tunnels = []\<rparr>"

definition arrive_at :: "nat \<Rightarrow> nat \<Rightarrow> server_state \<Rightarrow> server_state" where
  "arrive_at i x p = p\<lparr>transports := (transports p)[i := (transports p ! i)\<lparr>arrived := arrived (transports p ! i) @ [x],
     waiting := waiting (transports p ! i) @ [x]\<rparr>]\<rparr>"

text \<open>What the server does by itself: a step of the pipeline, or the return of the handler of a stream that the accept
  loop was given.\<close>

inductive inner_step :: "running \<Rightarrow> system \<Rightarrow> system \<Rightarrow> bool" for r where
  pipeline: "server_step (caps_of r) (pipe s) p \<Longrightarrow> inner_step r s (s\<lparr>pipe := p\<rparr>)"
| tunnel_handler: "x \<in> set (started (pipe s)) \<Longrightarrow> x \<notin> fst ` set (tunnels s) \<Longrightarrow> streams s x = Some ts \<Longrightarrow>
    handle (tunnel r) seg_read peer_write dial timer_first ts = Some acts \<Longrightarrow>
    inner_step r s (s\<lparr>tunnels := tunnels s @ [(x, acts)]\<rparr>)"

text \<open>What comes from outside: a connection with whatever it sends, and the signal. A connection handler whose
  stream waits for the queue is one that the queue takes, or one that closes the stream: \<open>Pipeline\<close> has both.\<close>

inductive outer_step :: "('h, 'c) noise_lib \<Rightarrow> running \<Rightarrow> system \<Rightarrow> system \<Rightarrow> bool" for lib r where
  quic_stream: "i < length (listeners r) \<Longrightarrow> listeners r ! i = QuicListener cfg \<Longrightarrow>
    quic_handleStream cfg lib seg_read peer_write True d = Some [Hand ts] \<Longrightarrow> streams s x = None \<Longrightarrow>
    outer_step lib r s (s\<lparr>pipe := arrive_at i x (pipe s), streams := (streams s)(x \<mapsto> ts)\<rparr>)"
| tcp_stream: "i < length (listeners r) \<Longrightarrow> listeners r ! i = TcpListener cfg \<Longrightarrow>
    handleConn cfg lib seg_read peer_write tls seg_read peer_write dial race True c = Some acts \<Longrightarrow>
    Deliver ts \<in> set acts \<Longrightarrow> streams s x = None \<Longrightarrow>
    outer_step lib r s (s\<lparr>pipe := arrive_at i x (pipe s), streams := (streams s)(x \<mapsto> ts), conns := conns s @ [acts]\<rparr>)"
| tcp_other: "i < length (listeners r) \<Longrightarrow> listeners r ! i = TcpListener cfg \<Longrightarrow>
    handleConn cfg lib seg_read peer_write tls seg_read peer_write dial race True c = Some acts \<Longrightarrow>
    (\<nexists>ts. Deliver ts \<in> set acts) \<Longrightarrow> outer_step lib r s (s\<lparr>conns := conns s @ [acts]\<rparr>)"
| signalled: "outer_step lib r s (s\<lparr>pipe := (pipe s)\<lparr>signalled := True\<rparr>\<rparr>)"

inductive system_run :: "('h, 'c) noise_lib \<Rightarrow> running \<Rightarrow> system \<Rightarrow> bool" for lib r where
  booted: "system_run lib r (boot r)"
| inner: "system_run lib r s \<Longrightarrow> inner_step r s t \<Longrightarrow> system_run lib r t"
| outer: "system_run lib r s \<Longrightarrow> outer_step lib r s t \<Longrightarrow> system_run lib r t"

text \<open>The addresses that the server has dialled: for a prober, the decoy; for a tunnel, its destination.\<close>

definition dialled :: "system \<Rightarrow> string set" where
  "dialled s = {a. \<exists>acts \<in> set (conns s). DialDecoy a \<in> set acts} \<union> {a. \<exists>x acts. (x, acts) \<in> set (tunnels s) \<and> Dial a \<in> set acts}"

subsection \<open>Runs of the pipeline\<close>

lemma length_transports: "Pipeline.server_run caps p \<Longrightarrow> length (transports p) = length caps"
  using refines_parts_run by (auto simp: refines_parts_def)

lemma system_pipeline: "system_run lib r s \<Longrightarrow> Pipeline.server_run (caps_of r) (pipe s)"
proof (induction rule: system_run.induct)
  case booted
  then show ?case
    using server_run.start [of "caps_of r"] by (simp add: boot_def caps_of_def)
next
  case (inner s t)
  then show ?case
    by (auto elim!: inner_step.cases intro: server_run.inside)
next
  case (outer s t)
  have arrives: "Pipeline.server_run (caps_of r) (arrive_at i x (pipe s))" if "i < length (listeners r)" for i x
    using server_run.outside [OF outer.IH stream_arrives] that length_transports [OF outer.IH] by (simp add: arrive_at_def caps_of_def)
  show ?case
    using outer.hyps(2)
  proof (cases rule: outer_step.cases)
    case signalled
    then show ?thesis
      using server_run.outside [OF outer.IH signal] by simp
  qed (use arrives outer.IH in simp_all)
qed

subsection \<open>Every stream is in the pipeline once\<close>

definition arrivals :: "server_state \<Rightarrow> nat multiset" where
  "arrivals p = (\<Sum>i < length (transports p). mset (arrived (transports p ! i)))"

lemma server_step_arrived: "server_step caps p q \<Longrightarrow> map arrived (transports q) = map arrived (transports p)"
  by (induction rule: server_step.induct) (simp_all add: map_update list_update_same_conv)

lemma arrivals_map: "arrivals p = (\<Sum>i < length (map arrived (transports p)). mset (map arrived (transports p) ! i))"
  by (simp add: arrivals_def)

lemma arrivals_step: "server_step caps p q \<Longrightarrow> arrivals q = arrivals p"
  using server_step_arrived by (simp add: arrivals_map)

lemma arrivals_arrive: "i < length (transports p) \<Longrightarrow> arrivals (arrive_at i x p) = add_mset x (arrivals p)"
proof -
  assume i: "i < length (transports p)"
  have "mset (arrived (transports (arrive_at i x p) ! j)) = mset (arrived (transports p ! j)) + (if j = i then {#x#} else {#})"
    if "j < length (transports p)" for j
    using that by (simp add: arrive_at_def)
  moreover have "length (transports (arrive_at i x p)) = length (transports p)"
    by (simp add: arrive_at_def)
  ultimately show ?thesis
    using i by (simp add: arrivals_def sum.distrib sum.delta)
qed

lemma mset_streams_split:
  "\<forall>x \<in> set xs. fst x < n \<Longrightarrow> mset (streams_of (map snd xs)) = (\<Sum>i < n. mset (streams_of (from_ln i xs)))"
proof (induction xs)
  case (Cons x xs)
  obtain j it where x: "x = (j, it)"
    by (cases x)
  show ?case
  proof (cases it)
    case (Stream k)
    have "mset (streams_of (from_ln i (x # xs))) = mset (streams_of (from_ln i xs)) + (if i = j then {#k#} else {#})" for i
      using x Stream by simp
    then show ?thesis
      using Cons x Stream by (simp add: sum.distrib sum.delta)
  next
    case (Failed e)
    have "streams_of (from_ln i (x # xs)) = streams_of (from_ln i xs)" for i
      using x Failed by simp
    then show ?thesis
      using Cons x Failed by simp
  qed
qed simp

lemma started_split:
  assumes "Pipeline.server_run caps p"
  shows "mset (started p) = (\<Sum>i < length caps. mset (streams_of (from_ln i (comp_state.delivered (fan p)))))"
proof -
  have "started p = streams_of (map snd (comp_state.delivered (fan p)))" "comp_reachable (length caps) (fan p)"
    using refines_parts_run [OF assms] by (simp_all add: refines_parts_def)
  then show ?thesis
    using comp_tags mset_streams_split by simp
qed

lemma count_started:
  assumes "Pipeline.server_run caps p"
  shows "count (mset (started p)) x \<le> count (arrivals p) x"
proof -
  have "count (mset (streams_of (from_ln i (comp_state.delivered (fan p))))) x \<le> count (mset (arrived (transports p ! i))) x"
    if "i < length caps" for i
    using streams_conserved [OF assms that] by simp
  then show ?thesis
    unfolding started_split [OF assms] arrivals_def server_lengths(2) [OF assms] count_sum
    by (intro sum_mono) simp
qed

definition live :: "system \<Rightarrow> bool" where
  "live s \<longleftrightarrow> (\<forall>x. count (arrivals (pipe s)) x = (if streams s x = None then 0 else 1))
     \<and> distinct (map fst (tunnels s)) \<and> fst ` set (tunnels s) \<subseteq> set (started (pipe s))"

lemma server_step_started: "server_step caps p q \<Longrightarrow> set (started p) \<subseteq> set (started q)"
  by (induction rule: server_step.induct) auto

lemma arrive_at_started [simp]: "started (arrive_at i x p) = started p"
  by (simp add: arrive_at_def)

lemma live_run: "system_run lib r s \<Longrightarrow> live s"
proof (induction rule: system_run.induct)
  case booted
  then show ?case
    by (simp add: live_def boot_def start_server_def arrivals_def new_queue_def)
next
  case (inner s t)
  from inner.hyps(2) show ?case
  proof (cases rule: inner_step.cases)
    case (pipeline p)
    then show ?thesis
      using inner.IH server_step_started [OF pipeline(2)] arrivals_step [OF pipeline(2)] by (auto simp: live_def dest!: subsetD)
  next
    case (tunnel_handler x ts dial timer_first acts)
    then show ?thesis
      using inner.IH by (auto simp: live_def)
  qed
next
  case (outer s t)
  have arrive: "arrivals (arrive_at i x (pipe s)) = add_mset x (arrivals (pipe s))" if "i < length (listeners r)" for i x
    using arrivals_arrive that server_lengths(2) [OF system_pipeline [OF outer.hyps(1)]] by (simp add: caps_of_def)
  have signal: "arrivals ((pipe s)\<lparr>signalled := True\<rparr>) = arrivals (pipe s)"
    by (simp add: arrivals_def)
  from outer.hyps(2) show ?case
    by (cases rule: outer_step.cases) (use outer.IH arrive signal in \<open>auto simp: live_def\<close>)
qed

lemma live_started:
  assumes "system_run lib r s"
  shows "distinct (started (pipe s))" "set (started (pipe s)) \<subseteq> dom (streams s)"
proof -
  have le: "count (mset (started (pipe s))) x \<le> (if streams s x = None then 0 else 1)" for x
    using count_started [OF system_pipeline [OF assms], of x] live_run [OF assms] by (simp add: live_def)
  have "count (mset (started (pipe s))) x = (if x \<in> set (started (pipe s)) then 1 else 0)" for x
  proof (cases "x \<in> set (started (pipe s))")
    case True
    then have "0 < count (mset (started (pipe s))) x"
      by (simp only: count_greater_zero_iff set_mset_mset)
    moreover have "count (mset (started (pipe s))) x \<le> 1"
      using le [of x] by (rule order_trans) simp
    ultimately have "count (mset (started (pipe s))) x = 1"
      by linarith
    then show ?thesis
      using True by (simp del: count_mset)
  next
    case False
    then show ?thesis
      by (simp add: count_eq_zero_iff del: count_mset)
  qed
  then show "distinct (started (pipe s))"
    by (simp add: distinct_count_atmost_1 del: count_mset)
  show "set (started (pipe s)) \<subseteq> dom (streams s)"
  proof
    fix x
    assume "x \<in> set (started (pipe s))"
    then have "0 < count (mset (started (pipe s))) x"
      by (simp only: count_greater_zero_iff set_mset_mset)
    then have "0 < (if streams s x = None then 0 else 1 :: nat)"
      using le [of x] by (rule less_le_trans)
    then show "x \<in> dom (streams s)"
      by (auto split: if_splits)
  qed
qed

subsection \<open>What the configuration says\<close>

definition magic_of :: "server_yaml \<Rightarrow> string list" where
  "magic_of cfg = (if yDecoyDomain cfg \<noteq> [] then [yDecoyDomain cfg] else [])"

primrec runs_with :: "server_yaml \<Rightarrow> dh_key \<Rightarrow> listener \<Rightarrow> bool" where
  "runs_with cfg static (QuicListener q) \<longleftrightarrow> yQUIC cfg \<noteq> [] \<and> sStatic q = static \<and> sPrologue q = DefaultPrologue"
| "runs_with cfg static (TcpListener t) \<longleftrightarrow> yTCP cfg \<noteq> [] \<and> NoiseStatic t = static \<and> NoisePrologue t = DefaultPrologue
     \<and> DecoyAddr t = yDecoyAddr cfg \<and> magicSNIs t = magic_of cfg"

definition configured :: "server_yaml \<Rightarrow> dh_key \<Rightarrow> running \<Rightarrow> bool" where
  "configured cfg static r \<longleftrightarrow> tunnel r = \<lparr>acceptedUUIDs = yUUIDs cfg\<rparr> \<and> (\<forall>l \<in> set (listeners r). runs_with cfg static l)"

lemma run_quic_runs_with:
  "run_quic listen cfg \<lparr>sAddr = a, sUUIDs = u, sStatic = static, sCert = c, sDecoyAddr = d, sPrologue = []\<rparr> = Inr qls \<Longrightarrow>
     l \<in> set qls \<Longrightarrow> runs_with cfg static l"
  by (auto simp: run_quic_def quic_Listen_def with_prologue_def split: if_splits sum.splits option.splits)

lemma run_tcp_runs_with:
  "run_tcp listen cfg \<lparr>sAddr = a, sUUIDs = u, sStatic = static, sCert = c, sDecoyAddr = yDecoyAddr cfg, sPrologue = []\<rparr> = Inr tls \<Longrightarrow>
     l \<in> set tls \<Longrightarrow> runs_with cfg static l"
  by (auto simp: run_tcp_def tcp_Listen_def with_prologue_def magic_of_def Let_def split: if_splits sum.splits option.splits)

lemma server_run_configured:
  assumes "LoadServer yaml file = Inr cfg" "Commands.server_run yaml file load_cert base_mult listen_udp listen_tcp = Inr r"
  obtains static where "raw_std_decode (yStaticPriv cfg) = Some (Private static)" "base_mult (Private static) = Inr (Public static)"
    "configured cfg static r"
proof -
  obtain cert priv static where s: "raw_std_decode (yStaticPriv cfg) = Some priv" "StaticFromPriv base_mult priv = Inr static"
    and rest: "(case run_quic listen_udp cfg \<lparr>sAddr = [], sUUIDs = yUUIDs cfg, sStatic = static, sCert = Some cert,
          sDecoyAddr = yDecoyAddr cfg, sPrologue = []\<rparr> of
        Inl e \<Rightarrow> Inl e
      | Inr qls \<Rightarrow>
     (case run_tcp listen_tcp cfg \<lparr>sAddr = [], sUUIDs = yUUIDs cfg, sStatic = static, sCert = Some cert,
          sDecoyAddr = yDecoyAddr cfg, sPrologue = []\<rparr> of
        Inl e \<Rightarrow> Inl e
      | Inr tls \<Rightarrow>
        if qls @ tls = [] then Inl NoListeners
        else Inr \<lparr>listeners = qls @ tls, composite = NewComposite (length (qls @ tls)), tunnel = NewServer (yUUIDs cfg)\<rparr>)) = Inr r"
    using assms by (auto simp: server_run_def Let_def split: sum.splits option.splits)
  then have "configured cfg static r"
    using run_quic_runs_with run_tcp_runs_with
    by (fastforce simp: configured_def NewServer_def split: sum.splits if_splits)
  moreover have "Private static = priv" "base_mult priv = Inr (Public static)"
    using s(2) by (auto simp: StaticFromPriv_def split: if_splits sum.splits)
  ultimately show thesis
    using that s(1) by blast
qed

subsection \<open>Where streams come from\<close>

text \<open>A stream that a completed Noise handshake with the server's key left behind, bound to the handshake's hash.\<close>

definition authenticated :: "('h, 'c) noise_lib \<Rightarrow> dh_key \<Rightarrow> net_stream \<Rightarrow> bool" where
  "authenticated lib static ts \<longleftrightarrow> (\<exists>d hr d'. ServerHandshake lib seg_read peer_write static DefaultPrologue srv_hello d = Some (Inr hr, d')
     \<and> ts = as_tunnel d' (Hash hr))"

lemma quic_authenticated:
  assumes "quic_handleStream q lib seg_read peer_write True d = Some [Hand ts]" "runs_with cfg static (QuicListener q)"
  shows "authenticated lib static ts"
  using assms unfolding quic_handleStream_def authenticated_def by (fastforce split: option.splits sum.splits)

lemma tcp_authenticated:
  assumes "handleConn t lib seg_read peer_write tls seg_read peer_write dial race queued c = Some acts" "Deliver ts \<in> set acts"
    and "runs_with cfg static (TcpListener t)"
  shows "authenticated lib static ts"
  by (rule handleConn_traces [of c t lib tls dial race queued])
    (use assms in \<open>auto simp: authenticated_def srv_hello_def split: if_splits\<close>)

lemma tcp_dials_decoy:
  assumes "handleConn t lib seg_read peer_write tls seg_read peer_write dial race queued c = Some acts" "DialDecoy a \<in> set acts"
    and "runs_with cfg static (TcpListener t)"
  shows "a = yDecoyAddr cfg \<and> a \<noteq> [] \<and> yDecoyDomain cfg \<noteq> [] \<and> peeked_name (rx c) \<noteq> yDecoyDomain cfg"
  by (rule handleConn_traces [of c t lib tls dial race queued])
    (use assms in \<open>auto simp: isMagicSNI_def magic_of_def split: if_splits\<close>)

definition tunnel_of :: "server_yaml \<Rightarrow> (nat \<Rightarrow> net_stream option) \<Rightarrow> nat \<times> peer act list \<Rightarrow> bool" where
  "tunnel_of cfg str e \<longleftrightarrow> (\<exists>ts dial timer_first. str (fst e) = Some ts
     \<and> handle \<lparr>acceptedUUIDs = yUUIDs cfg\<rparr> seg_read peer_write dial timer_first ts = Some (snd e))"

lemma tunnel_of_fresh: "str x = None \<Longrightarrow> tunnel_of cfg str e \<Longrightarrow> tunnel_of cfg (str(x \<mapsto> ts)) e"
  by (auto simp: tunnel_of_def)

definition accounted :: "('h, 'c) noise_lib \<Rightarrow> server_yaml \<Rightarrow> dh_key \<Rightarrow> system \<Rightarrow> bool" where
  "accounted lib cfg static s \<longleftrightarrow> (\<forall>x ts. streams s x = Some ts \<longrightarrow> authenticated lib static ts)
     \<and> (\<forall>acts \<in> set (conns s). \<forall>a. DialDecoy a \<in> set acts \<longrightarrow> a = yDecoyAddr cfg \<and> a \<noteq> [] \<and> yDecoyDomain cfg \<noteq> [])
     \<and> (\<forall>e \<in> set (tunnels s). tunnel_of cfg (streams s) e)"

lemma accounted_run:
  assumes "system_run lib r s" "configured cfg static r"
  shows "accounted lib cfg static s"
  using assms(1)
proof (induction rule: system_run.induct)
  case booted
  then show ?case
    by (simp add: accounted_def boot_def)
next
  case (inner s t)
  from inner.hyps(2) show ?case
  proof (cases rule: inner_step.cases)
    case (tunnel_handler x ts dial timer_first acts)
    then show ?thesis
      using inner.IH assms(2) by (auto simp: accounted_def configured_def tunnel_of_def)
  qed (use inner.IH in \<open>simp add: accounted_def\<close>)
next
  case (outer s t)
  have conf: "runs_with cfg static (listeners r ! i)" if "i < length (listeners r)" for i
    using assms(2) that by (simp add: configured_def)
  from outer.hyps(2) show ?case
  proof (cases rule: outer_step.cases)
    case (quic_stream i q d ts x)
    then show ?thesis
      using outer.IH quic_authenticated [of q lib d ts cfg static] conf [of i] by (auto simp: accounted_def tunnel_of_fresh)
  next
    case (tcp_stream i c tls dial race conn acts ts x)
    then show ?thesis
      using outer.IH tcp_authenticated [OF tcp_stream(4,5), of cfg static] tcp_dials_decoy [OF tcp_stream(4), of _ cfg static] conf [of i]
      by (auto simp: accounted_def tunnel_of_fresh)
  next
    case (tcp_other i c tls dial race conn acts)
    then show ?thesis
      using outer.IH tcp_dials_decoy [OF tcp_other(4), of _ cfg static] conf [of i] by (auto simp: accounted_def)
  qed (use outer.IH in \<open>simp add: accounted_def\<close>)
qed

lemma dialled_accounted:
  assumes "accounted lib cfg static s" "a \<in> dialled s"
  shows "(a = yDecoyAddr cfg \<and> a \<noteq> [] \<and> yDecoyDomain cfg \<noteq> [])
    \<or> (\<exists>x ts h st u. streams s x = Some ts \<and> authenticated lib static ts \<and> parse_header (conn_content (rx ts), snd (rx ts)) = (Inr h, st)
         \<and> Cmd h = CmdConnect \<and> u \<in> set (yUUIDs cfg) \<and> TokenHMAC h = DeriveToken u (Channel ts) \<and> a = Destination h)"
proof (cases "\<exists>acts \<in> set (conns s). DialDecoy a \<in> set acts")
  case True
  then show ?thesis
    using assms(1) by (auto simp: accounted_def)
next
  case False
  then obtain x acts where t: "(x, acts) \<in> set (tunnels s)" "Dial a \<in> set acts"
    using assms(2) by (auto simp: dialled_def)
  then obtain ts dial timer_first where ts: "streams s x = Some ts" "authenticated lib static ts"
    "handle \<lparr>acceptedUUIDs = yUUIDs cfg\<rparr> seg_read peer_write dial timer_first ts = Some acts"
    using assms(1) unfolding accounted_def tunnel_of_def by fastforce
  show ?thesis
    using handle_authorised [OF ts(3) t(2)] ts(1,2) by fastforce
qed

lemma tunnels_end:
  assumes "system_run lib r s" "(x, acts) \<in> set (tunnels s)"
  shows "\<exists>before. acts = before @ [CloseStream] \<and> CloseStream \<notin> set before"
  using assms
proof (induction rule: system_run.induct)
  case booted
  then show ?case
    by (simp add: boot_def)
next
  case (inner s t)
  from inner.hyps(2) show ?case
  proof (cases rule: inner_step.cases)
    case (tunnel_handler y ts dial timer_first more)
    then show ?thesis
      using inner handle_ends [of "tunnel r" dial timer_first ts] by auto
  qed (use inner in simp)
next
  case (outer s t)
  from outer.hyps(2) show ?case
    by (cases rule: outer_step.cases) (use outer in simp_all)
qed

subsection \<open>At rest\<close>

lemma rest_all_started:
  assumes "system_run lib r s" "\<not> signalled (pipe s)" "\<nexists>t. inner_step r s t"
  shows "set (started (pipe s)) = dom (streams s)" "fst ` set (tunnels s) = dom (streams s)"
proof -
  note run = system_pipeline [OF assms(1)]
  have still: "\<nexists>p. server_step (caps_of r) (pipe s) p"
    using assms(3) pipeline by blast
  have room: "\<forall>c \<in> set (caps_of r). 0 < c"
  proof
    fix c
    assume "c \<in> set (caps_of r)"
    then obtain l where "c = capacity_of l"
      by (auto simp: caps_of_def)
    then show "0 < c"
      by (cases l) (simp_all add: quic_capacity_def tcp_capacity_def)
  qed
  have "mset (started (pipe s)) = arrivals (pipe s)"
    using rest_delivered [OF run assms(2) still room] by (simp add: started_split [OF run] arrivals_def server_lengths(2) [OF run])
  then have "count (mset (started (pipe s))) x = (if streams s x = None then 0 else 1)" for x
    using live_run [OF assms(1)] by (simp add: live_def)
  then have "x \<in> set (started (pipe s)) \<longleftrightarrow> streams s x \<noteq> None" for x
    by (metis count_greater_zero_iff less_numeral_extra(1,3) set_mset_mset)
  then show all: "set (started (pipe s)) = dom (streams s)"
    by auto
  have "x \<in> fst ` set (tunnels s)" if "streams s x = Some ts" for x ts
  proof (rule ccontr)
    assume new: "x \<notin> fst ` set (tunnels s)"
    obtain acts where "handle (tunnel r) seg_read peer_write (\<lambda>_. Inl EOF) False ts = Some acts"
      using handle_ends by blast
    then show False
      using tunnel_handler [OF _ new that] all that assms(3) by blast
  qed
  then show "fst ` set (tunnels s) = dom (streams s)"
    using live_run [OF assms(1)] all by (auto simp: live_def)
qed

subsection \<open>The work left\<close>

text \<open>A stream has at most four steps of the pipeline before it (its transport's handler queues it, the pump takes it, the
  pump sends it, the accept loop starts its handler) and one of its handler. Every step of the server's own takes one of them
  away, so without a signal there are only as many as the streams that were authenticated allow.\<close>

definition pump_work :: "pump \<Rightarrow> nat" where
  "pump_work p = (case p of Sending _ \<Rightarrow> 3 | _ \<Rightarrow> 0)"

definition queue_work :: "nat queue_state \<Rightarrow> nat" where
  "queue_work q = 5 * length (waiting q) + 4 * length (out q)"

definition pipe_work :: "server_state \<Rightarrow> nat" where
  "pipe_work p = sum_list (map queue_work (transports p)) + sum_list (map pump_work (pumps (fan p))) + 2 * length (queue (fan p)) + length (started p)"

lemma sum_list_map_update:
  "i < length xs \<Longrightarrow> sum_list (map f (xs[i := x])) + f (xs ! i) = sum_list (map f xs) + (f x :: nat)"
proof (induction xs arbitrary: i)
  case (Cons y ys)
  then show ?case
    by (cases i) auto
qed simp

lemma length_remove_at: "i < length xs \<Longrightarrow> Suc (length (remove_at i xs)) = length xs"
  by (simp add: remove_at_def)

lemma pipe_work_step:
  assumes "server_step caps p q" "\<not> signalled p" "quiet p" "length (pumps (fan p)) = length (transports p)"
  shows "pipe_work q < pipe_work p"
  using assms
proof (induction rule: server_step.induct)
  case (handler i p q)
  then have "transports p ! i \<in> set (transports p)"
    by simp
  then have op: "\<not> is_closed (transports p ! i)"
    using handler.prems(1,2) by (auto simp: quiet_def)
  have "queue_work q < queue_work (transports p ! i)"
    using handler(2)
  proof (cases rule: queue_step.cases)
    case (enqueue j)
    then show ?thesis
      using length_remove_at [of j "waiting (transports p ! i)"] by (simp add: queue_work_def)
  qed (use handler(3-5) op in simp_all)
  then show ?case
    using sum_list_map_update [OF handler(1), of queue_work q] by (simp add: pipe_work_def)
next
  case (pump_take i p x q)
  have "queue_work ((transports p ! i)\<lparr>out := q, handed := handed (transports p ! i) @ [x]\<rparr>) + 4 = queue_work (transports p ! i)"
    using pump_take(3) by (simp add: queue_work_def)
  then show ?case
    using sum_list_map_update [OF pump_take(1), of queue_work "(transports p ! i)\<lparr>out := q, handed := handed (transports p ! i) @ [x]\<rparr>"]
      sum_list_map_update [of i "pumps (fan p)" pump_work "Sending (Stream x)"] pump_take(1,2) pump_take.prems(3)
    by (simp add: pipe_work_def pump_work_def)
next
  case (pump_closed i p)
  then show ?case
    using nth_mem [OF pump_closed(1)] by (auto simp: quiet_def)
next
  case (pump_send i p x)
  have "pump_work (after_send x) = 0"
    by (simp add: pump_work_def after_send_def split: item.split)
  then show ?case
    using sum_list_map_update [OF pump_send(1), of pump_work "after_send x"] pump_send(2) by (simp add: pipe_work_def pump_work_def)
next
  case (serve_stream p i x q)
  then show ?case
    by (simp add: pipe_work_def)
qed (auto simp: quiet_def)

lemma length_streams: "\<forall>x \<in> set xs. \<exists>k. snd x = Stream k \<Longrightarrow> length (streams_of (map snd xs)) = length xs"
  by (induction xs) auto

lemma pipe_work_bound:
  assumes run: "Pipeline.server_run caps p" and "\<not> signalled p"
  shows "pipe_work p \<le> 5 * size (arrivals p)"
proof -
  have q: "quiet p" and r: "comp_reachable (length caps) (fan p)"
    using server_run_quiet [OF run] refines_parts_run [OF run] by (simp_all add: refines_parts_def)
  note len = server_lengths [OF run]
  have "mset (streams_of (map snd (queue (fan p)))) = (\<Sum>i < length caps. mset (streams_of (from_ln i (queue (fan p)))))"
    using mset_streams_split comp_tags [OF r] by blast
  then have "length (streams_of (map snd (queue (fan p)))) = (\<Sum>i < length caps. length (streams_of (from_ln i (queue (fan p)))))"
    by (metis (no_types, lifting) size_mset size_multiset_sum sum.cong)
  then have queue: "length (queue (fan p)) = (\<Sum>i < length caps. length (streams_of (from_ln i (queue (fan p)))))"
    using length_streams [of "queue (fan p)"] q assms(2) by (simp add: quiet_def)
  have started: "length (started p) = (\<Sum>i < length caps. length (streams_of (from_ln i (comp_state.delivered (fan p)))))"
    using started_split [OF run] by (metis (no_types, lifting) size_mset size_multiset_sum sum.cong)
  have held: "pump_work (pumps (fan p) ! i) = 3 * length (streams_of (held (pumps (fan p) ! i)))" if "i < length caps" for i
  proof -
    have "pumps (fan p) ! i \<in> set (pumps (fan p))"
      using that len by simp
    then consider "pumps (fan p) ! i = Accepting" | x where "pumps (fan p) ! i = Sending (Stream x)"
      using q assms(2) unfolding quiet_def by blast
    then show ?thesis
      by cases (simp_all add: pump_work_def)
  qed
  have one: "queue_work (transports p ! i) + pump_work (pumps (fan p) ! i) + 2 * length (streams_of (from_ln i (queue (fan p))))
      + length (streams_of (from_ln i (comp_state.delivered (fan p)))) \<le> 5 * size (mset (arrived (transports p ! i)))" if "i < length caps" for i
    using streams_conserved [OF run that] held [OF that] by (simp add: queue_work_def)
  have "pipe_work p = (\<Sum>i < length caps. queue_work (transports p ! i) + pump_work (pumps (fan p) ! i)
      + 2 * length (streams_of (from_ln i (queue (fan p)))) + length (streams_of (from_ln i (comp_state.delivered (fan p)))))"
    by (simp add: pipe_work_def queue started sum_list_sum_nth atLeast0LessThan len sum.distrib sum_distrib_left)
  also have "\<dots> \<le> (\<Sum>i < length caps. 5 * size (mset (arrived (transports p ! i))))"
    using one by (intro sum_mono) simp
  also have "\<dots> = 5 * size (arrivals p)"
    by (simp add: arrivals_def len sum_distrib_left size_multiset_sum)
  finally show ?thesis .
qed

lemma arrivals_card:
  assumes "system_run lib r s"
  shows "size (arrivals (pipe s)) = card (dom (streams s))"
proof -
  have count: "count (arrivals (pipe s)) x = (if streams s x = None then 0 else 1)" for x
    using live_run [OF assms] by (simp add: live_def)
  then have set: "set_mset (arrivals (pipe s)) = dom (streams s)"
    by (auto simp: set_mset_def split: if_splits)
  then have "arrivals (pipe s) = mset_set (dom (streams s))"
    using count finite_set_mset [of "arrivals (pipe s)"] by (intro multiset_eqI) (auto simp: count_mset_set' domIff)
  then show ?thesis
    by simp
qed

definition system_work :: "system \<Rightarrow> nat" where
  "system_work s = pipe_work (pipe s) - length (tunnels s)"

lemma inner_step_work:
  assumes "system_run lib r s" "\<not> signalled (pipe s)" "inner_step r s t"
  shows "system_work t < system_work s" "\<not> signalled (pipe t)" "streams t = streams s"
proof -
  note run = system_pipeline [OF assms(1)]
  have tunnels: "length (tunnels u) \<le> length (started (pipe u))" if "system_run lib r u" for u
  proof -
    have "length (tunnels u) = card (fst ` set (tunnels u))"
      using live_run [OF that] distinct_card [of "map fst (tunnels u)"] by (simp add: live_def)
    also have "\<dots> \<le> card (set (started (pipe u)))"
      using live_run [OF that] by (intro card_mono) (simp_all add: live_def)
    finally show ?thesis
      using card_length [of "started (pipe u)"] by simp
  qed
  have t: "system_run lib r t"
    using assms(1,3) system_run.inner by blast
  have le: "length (started p) \<le> pipe_work p" for p
    by (simp add: pipe_work_def)
  have "system_work t < system_work s \<and> \<not> signalled (pipe t) \<and> streams t = streams s"
    using assms(3)
  proof (cases rule: inner_step.cases)
    case (pipeline p)
    have "pipe_work p < pipe_work (pipe s)"
      using pipe_work_step [OF pipeline(2) assms(2)] server_run_quiet [OF run] server_lengths [OF run] by simp
    moreover have "\<not> signalled p"
      using pipeline(2) assms(2) by (cases rule: server_step.cases) auto
    ultimately show ?thesis
      using pipeline(1) tunnels [OF t] le [of p] by (simp add: system_work_def)
  next
    case (tunnel_handler x ts dial timer_first acts)
    then show ?thesis
      using tunnels [OF t] le [of "pipe s"] assms(2) by (simp add: system_work_def)
  qed
  then show "system_work t < system_work s" "\<not> signalled (pipe t)" "streams t = streams s"
    by simp_all
qed

lemma inner_steps_work:
  assumes "system_run lib r s" "\<not> signalled (pipe s)" "(inner_step r ^^ n) s t"
  shows "n + system_work t \<le> system_work s \<and> system_run lib r t \<and> \<not> signalled (pipe t) \<and> streams t = streams s"
  using assms(3)
proof (induction n arbitrary: t)
  case 0
  then show ?case
    using assms by simp
next
  case (Suc n)
  then obtain u where u: "(inner_step r ^^ n) s u" "inner_step r u t"
    by auto
  then have "n + system_work u \<le> system_work s" "system_run lib r u" "\<not> signalled (pipe u)" "streams u = streams s"
    using Suc.IH by simp_all
  then show ?case
    using inner_step_work [OF _ _ u(2)] system_run.inner [OF _ u(2)] by fastforce
qed

text \<open>Without a signal the server comes to rest by itself, whatever is scheduled.\<close>

lemma inner_steps_bounded:
  assumes "system_run lib r s" "\<not> signalled (pipe s)" "(inner_step r ^^ n) s t"
  shows "n \<le> 5 * card (dom (streams s))"
proof -
  have "n \<le> system_work s"
    using inner_steps_work [OF assms] by simp
  also have "\<dots> \<le> pipe_work (pipe s)"
    by (simp add: system_work_def)
  finally show ?thesis
    using pipe_work_bound [OF system_pipeline [OF assms(1)] assms(2)] arrivals_card [OF assms(1)] by simp
qed

subsection \<open>Properties\<close>

text \<open>C5. The running server as a whole dials only on authority. Let \<^verbatim>\<open>run\<close> have started from a configuration; then in every
  interleaving of connections, whatever their clients send, of queues, accept loop, tunnels and shutdown, every
  address that the server ever dials is the configured decoy, or the destination of a connect header that starts the bytes of a
  stream which a completed Noise handshake with the configured key has left behind, and whose token is the HMAC of
  a configured UUID over that handshake's hash.\<close>

theorem server_dials_authorised:
  assumes "LoadServer yaml file = Inr cfg" "Commands.server_run yaml file load_cert base_mult listen_udp listen_tcp = Inr r"
    and "system_run lib r s" "a \<in> dialled s"
  shows "(a = yDecoyAddr cfg \<and> a \<noteq> [] \<and> yDecoyDomain cfg \<noteq> [])
    \<or> (\<exists>static x ts h st u. raw_std_decode (yStaticPriv cfg) = Some (Private static) \<and> base_mult (Private static) = Inr (Public static)
         \<and> streams s x = Some ts \<and> authenticated lib static ts \<and> parse_header (conn_content (rx ts), snd (rx ts)) = (Inr h, st)
         \<and> Cmd h = CmdConnect \<and> u \<in> set (yUUIDs cfg) \<and> TokenHMAC h = DeriveToken u (Channel ts) \<and> a = Destination h)"
proof (rule server_run_configured [OF assms(1,2)])
  fix static
  assume key: "raw_std_decode (yStaticPriv cfg) = Some (Private static)" "base_mult (Private static) = Inr (Public static)"
    and "configured cfg static r"
  then have "accounted lib cfg static s"
    using accounted_run [OF assms(3)] by blast
  from dialled_accounted [OF this assms(4)] key show ?thesis
    by blast
qed


text \<open>A server with a QUIC listener, a client that asks for \<^verbatim>\<open>a.b:443\<close>, and its stream's way to the handler.\<close>

definition sample_file :: server_yaml where
  "sample_file = \<lparr>yQUIC = '':443'', yTCP = [], yDecoyDomain = [], yDecoyAddr = [], yCertFile = ''c'', yKeyFile = ''k'',
     yStaticPriv = raw_std_encode (Private sample_key), yUUIDs = [''id''], yLevel = ''info''\<rparr>"

definition one_quic :: running where
  "one_quic = \<lparr>listeners = [QuicListener sample_scfg], composite = NewComposite 1, tunnel = \<lparr>acceptedUUIDs = [''id'']\<rparr>\<rparr>"

lemma sample_file_runs:
  "LoadServer (\<lambda>_. Inr sample_file) (Inr []) = Inr sample_file"
  "Commands.server_run (\<lambda>_. Inr sample_file) (Inr []) (\<lambda>_ _. Inr [[1]]) (\<lambda>_. Inr (Public sample_key)) (\<lambda>_. None) (\<lambda>_. None) = Inr one_quic"
proof -
  show load: "LoadServer (\<lambda>_. Inr sample_file) (Inr []) = Inr sample_file"
    using raw_std_nonempty [of "Private sample_key"] by (simp add: LoadServer_ok server_Validate_ok sample_file_def sample_key_def)
  have "raw_std_decode (yStaticPriv sample_file) = Some (Private sample_key)"
    by (simp add: sample_file_def b64_round_trip)
  moreover have "StaticFromPriv (\<lambda>_. Inr (Public sample_key)) (Private sample_key) = Inr sample_key"
    by (simp add: StaticFromPriv_def sample_key_def)
  ultimately show "Commands.server_run (\<lambda>_. Inr sample_file) (Inr []) (\<lambda>_ _. Inr [[1]]) (\<lambda>_. Inr (Public sample_key)) (\<lambda>_. None) (\<lambda>_. None) = Inr one_quic"
    by (simp add: server_run_def load one_quic_def sample_scfg_def)
      (simp add: sample_file_def run_quic_def run_tcp_def quic_Listen_def with_prologue_def NewServer_def)
qed

lemma system_pipeline_steps:
  assumes "(server_step (caps_of r))\<^sup>*\<^sup>* (pipe s) p" "system_run lib r s"
  shows "system_run lib r (s\<lparr>pipe := p\<rparr>)"
  using assms
proof (induction rule: rtranclp_induct)
  case (step p q)
  then show ?case
    using system_run.inner [OF _ pipeline [of r "s\<lparr>pipe := p\<rparr>" q]] by simp
qed simp

lemma first_stream_started:
  assumes "0 < c"
  shows "\<exists>p. (server_step [c])\<^sup>*\<^sup>* (arrive_at 0 x (start_server 1)) p \<and> started p = [x]"
proof -
  let ?p0 = "arrive_at 0 x (start_server 1)"
  let ?p1 = "?p0\<lparr>transports := [new_queue\<lparr>arrived := [x], out := [x]\<rparr>]\<rparr>"
  let ?p2 = "?p0\<lparr>transports := [new_queue\<lparr>arrived := [x], handed := [x]\<rparr>],
    fan := (fan ?p0)\<lparr>pumps := [Sending (Stream x)], produced := [(0, Stream x)]\<rparr>\<rparr>"
  let ?p3 = "?p2\<lparr>fan := (fan ?p2)\<lparr>pumps := [Accepting], queue := [(0, Stream x)]\<rparr>\<rparr>"
  let ?p4 = "?p3\<lparr>fan := (fan ?p3)\<lparr>queue := [], delivered := [(0, Stream x)]\<rparr>, started := [x]\<rparr>"
  have "queue_step c (new_queue\<lparr>arrived := [x], waiting := [x]\<rparr>) (new_queue\<lparr>arrived := [x], out := [x]\<rparr>)"
    using enqueue [of 0 "new_queue\<lparr>arrived := [x], waiting := [x]\<rparr>" c] assms by (simp add: new_queue_def remove_at_def)
  then have "server_step [c] ?p0 ?p1"
    using handler [of 0 ?p0 "[c]" "new_queue\<lparr>arrived := [x], out := [x]\<rparr>"] by (simp add: arrive_at_def start_server_def new_queue_def)
  moreover have "server_step [c] ?p1 ?p2"
    using pump_take [of 0 ?p1 x "[]"] by (simp add: arrive_at_def start_server_def new_queue_def NewComposite_def)
  moreover have "server_step [c] ?p2 ?p3"
    using pump_send [of 0 ?p2 "Stream x"] by (simp add: arrive_at_def start_server_def NewComposite_def after_send_def)
  moreover have "server_step [c] ?p3 ?p4"
    using serve_stream [of ?p3 0 x "[]"] by (simp add: arrive_at_def start_server_def NewComposite_def)
  ultimately have "(server_step [c])\<^sup>*\<^sup>* ?p0 ?p4"
    by (meson converse_rtranclp_into_rtranclp rtranclp.rtrancl_refl)
  then show ?thesis
    by (intro exI [of _ ?p4]) simp
qed

lemma sample_system:
  obtains s ts before where "system_run plain_lib one_quic s" "streams s = [0 \<mapsto> ts]" "tunnels s = [(0, before @ [CloseStream])]"
    "Dial ''a.b:443'' \<in> set before" "\<not> signalled (pipe s)" "started (pipe s) = [0]"
proof -
  obtain m1 m2 c1 c2 ch where run: "nk_run plain_lib (sStatic sample_scfg) (sPrologue sample_scfg) cli_hello srv_hello m1 m2 c1 c2 ch"
    using nk_run_ex [OF sample_session(1)] by blast
  obtain req where req: "request_for ''id'' ch (''a.b'', 443) req"
    using request_for_ex [OF sample_dests(1), of 443 "''id''" ch] by auto
  have io: "concat [frame m1 @ req, [42]] = frame m1 @ req @ [42]" "concat [frame m2] = frame m2 @ []"
    by simp_all
  let ?d = "\<lparr>rx = ([frame m1 @ req, [42]], EOF), tx = ([], None)\<rparr> :: (conn, peer) duplex"
  obtain s1 s2 where h: "ServerHandshake plain_lib seg_read peer_write (sStatic sample_scfg) (sPrologue sample_scfg) srv_hello ?d
      = Some (Inr \<lparr>Send = c2, Recv = c1, Hash = ch, Payload = cli_hello\<rparr>, \<lparr>rx = s2, tx = (frame m2, None)\<rparr>)" "conn_content s2 = req @ [42]"
    by (rule conn_session [OF run sample_session(2) io])
  define ts :: net_stream where "ts = as_tunnel \<lparr>rx = s2, tx = (frame m2, None)\<rparr> ch"
  have handed: "quic_handleStream sample_scfg plain_lib seg_read peer_write True ?d = Some [Hand ts]"
    using h(1) by (simp add: quic_handleStream_def ts_def)
  have "serves (tunnel one_quic) sample_dial ts (target_of ''a.b'' 443) [42]"
    using request_for_served [OF req, of "tunnel one_quic" ts] h(2) by (simp add: one_quic_def ts_def)
  then obtain v w where acts: "handle (tunnel one_quic) seg_read peer_write sample_dial False ts
      = Some ([Dial ''a.b:443'', Splice v w, CloseUpstream] @ [CloseStream])"
    unfolding sample_target(1) by (auto dest: serves_sample)
  let ?s1 = "(boot one_quic)\<lparr>pipe := arrive_at 0 0 (start_server 1), streams := [0 \<mapsto> ts]\<rparr>"
  have "system_run plain_lib one_quic ?s1"
    using system_run.outer [OF booted quic_stream [of 0 one_quic sample_scfg plain_lib ?d ts "boot one_quic" 0]] handed
    by (simp add: boot_def one_quic_def)
  moreover obtain p where p: "(server_step [quic_capacity])\<^sup>*\<^sup>* (arrive_at 0 0 (start_server 1)) p" "started p = [0]"
    using first_stream_started [of quic_capacity 0] by (auto simp: quic_capacity_def)
  ultimately have run2: "system_run plain_lib one_quic (?s1\<lparr>pipe := p\<rparr>)"
    using system_pipeline_steps [of one_quic ?s1 p] by (simp add: caps_of_def one_quic_def)
  have "\<not> signalled p"
    using p(1) by (induction rule: rtranclp_induct) (auto simp: arrive_at_def start_server_def elim!: server_step.cases)
  moreover have "system_run plain_lib one_quic (?s1\<lparr>pipe := p, tunnels := [(0, [Dial ''a.b:443'', Splice v w, CloseUpstream] @ [CloseStream])]\<rparr>)"
    using system_run.inner [OF run2 tunnel_handler [OF _ _ _ acts, of 0]] p(2) by (simp add: boot_def)
  ultimately show thesis
    using that p(2) by fastforce
qed

theorem server_dials_authorised_witness:
  "\<exists>s static x ts h st. system_run plain_lib one_quic s \<and> ''a.b:443'' \<in> dialled s
     \<and> streams s x = Some ts \<and> authenticated plain_lib static ts \<and> parse_header (conn_content (rx ts), snd (rx ts)) = (Inr h, st)
     \<and> TokenHMAC h = DeriveToken ''id'' (Channel ts) \<and> Destination h = ''a.b:443''"
proof (rule sample_system)
  fix s ts before
  assume s: "system_run plain_lib one_quic s" "tunnels s = [(0, before @ [CloseStream])]" "Dial ''a.b:443'' \<in> set before"
  then have "''a.b:443'' \<in> dialled s"
    by (auto simp: dialled_def)
  from server_dials_authorised [OF sample_file_runs s(1) this] s(1) this show ?thesis
    by (fastforce simp: sample_file_def)
qed


end
