(* ===== verification/SmuxConc.thy ===== *)
theory SmuxConc
  imports Clients
begin

text \<open>
  The SMUX client used by many goroutines at once (\<^verbatim>\<open>pkg/transport/smuxtcp/smuxtcp.go\<close>): \<^verbatim>\<open>Dial\<close> and \<^verbatim>\<open>Close\<close> hold the mutex
  from their first to their last statement. Here every access to the client's fields and every call into the network is a
  step of its own, and any number of calls run in any interleaving.
\<close>

subsection \<open>Calls and their parts\<close>

text \<open>What the libraries answer is part of the call: whether a session has been closed by then, which streams it opens, and
  the two connection attempts.\<close>

datatype ('ss, 'st, 'r) smux_call = DialCall "'ss \<Rightarrow> bool" "'ss \<Rightarrow> string + 'st" "('ss, 'r) outer" "('ss, 'r) outer" | CloseCall

datatype ('ss, 'st, 'r) smux_ret = Dialled "dial_err + 'st \<times> 'r option \<times> bytes" | Closed "'ss option" "'r option"

text \<open>Where a goroutine is in its call.\<close>

datatype ('ss, 'st, 'r) smux_pc =
    Blocked "('ss, 'st, 'r) smux_call"
  | Checking "'ss \<Rightarrow> bool" "'ss \<Rightarrow> string + 'st" "('ss, 'r) outer" "('ss, 'r) outer"
  | Dialling "'ss \<Rightarrow> string + 'st" "('ss, 'r) outer" "('ss, 'r) outer"
  | Opening "'ss \<Rightarrow> string + 'st" "('ss, 'r) outer"
  | Redialling "'ss \<Rightarrow> string + 'st" "('ss, 'r) outer"
  | Reopening "'ss \<Rightarrow> string + 'st"
  | ClosingSession
  | ClosingRaw "'ss option"
  | Unlocking "('ss, 'st, 'r) smux_ret"
  | Returned "('ss, 'st, 'r) smux_ret"
  | NilSession

fun enter :: "('ss, 'st, 'r) smux_call \<Rightarrow> ('ss, 'st, 'r) smux_pc" where
  "enter (DialCall closed open_stream o1 o2) = Checking closed open_stream o1 o2"
| "enter CloseCall = ClosingSession"

text \<open>One step of the goroutine that holds the mutex, on the client's fields; \<open>None\<close> when it has none left.\<close>

fun locked_step :: "('ss, 'st, 'r) smux_pc \<Rightarrow> ('ss, 'r) smux_client \<Rightarrow> (('ss, 'st, 'r) smux_pc \<times> ('ss, 'r) smux_client) option" where
  "locked_step (Checking closed open_stream o1 o2) c =
     Some (if (case session c of None \<Rightarrow> True | Some ss \<Rightarrow> closed ss) then Dialling open_stream o1 o2 else Opening open_stream o2, c)"
| "locked_step (Dialling open_stream o1 o2) c =
     (case dialOuter o1 c of (Some e, c') \<Rightarrow> Some (Unlocking (Dialled (Inl e)), c') | (None, c') \<Rightarrow> Some (Opening open_stream o2, c'))"
| "locked_step (Opening open_stream o2) c =
     (case session c of
        None \<Rightarrow> Some (NilSession, c)
      | Some ss \<Rightarrow>
          (case open_stream ss of
             Inr st \<Rightarrow> Some (Unlocking (Dialled (Inr (st, raw_conn c, hash c))), c)
           | Inl _ \<Rightarrow> Some (Redialling open_stream o2, c\<lparr>session := None\<rparr>)))"
| "locked_step (Redialling open_stream o2) c =
     (case dialOuter o2 c of
        (Some e, c') \<Rightarrow> Some (Unlocking (Dialled (Inl (Reconnect e))), c') | (None, c') \<Rightarrow> Some (Reopening open_stream, c'))"
| "locked_step (Reopening open_stream) c =
     (case session c of
        None \<Rightarrow> Some (NilSession, c)
      | Some ss \<Rightarrow>
          (case open_stream ss of
             Inl e \<Rightarrow> Some (Unlocking (Dialled (Inl (OpenFailed e))), c)
           | Inr st \<Rightarrow> Some (Unlocking (Dialled (Inr (st, raw_conn c, hash c))), c)))"
| "locked_step ClosingSession c = Some (ClosingRaw (session c), c)"
| "locked_step (ClosingRaw ss) c = Some (Unlocking (Closed ss (raw_conn c)), c)"
| "locked_step _ c = None"

record ('ss, 'st, 'r) smux_conc =
  smux :: "('ss, 'r) smux_client"
  holder :: "nat option"
  pcs :: "('ss, 'st, 'r) smux_pc list"
  order :: "nat list"

inductive smux_step :: "('ss, 'st, 'r) smux_conc \<Rightarrow> ('ss, 'st, 'r) smux_conc \<Rightarrow> bool" where
  lock: "i < length (pcs s) \<Longrightarrow> pcs s ! i = Blocked call \<Longrightarrow> holder s = None \<Longrightarrow>
    smux_step s (s\<lparr>holder := Some i, pcs := (pcs s)[i := enter call], order := order s @ [i]\<rparr>)"
| locked: "i < length (pcs s) \<Longrightarrow> locked_step (pcs s ! i) (smux s) = Some (p, c) \<Longrightarrow>
    smux_step s (s\<lparr>smux := c, pcs := (pcs s)[i := p]\<rparr>)"
| unlock: "i < length (pcs s) \<Longrightarrow> pcs s ! i = Unlocking r \<Longrightarrow>
    smux_step s (s\<lparr>holder := None, pcs := (pcs s)[i := Returned r]\<rparr>)"

definition smux_start :: "('ss, 'st, 'r) smux_call list \<Rightarrow> ('ss, 'r) smux_client \<Rightarrow> ('ss, 'st, 'r) smux_conc" where
  "smux_start calls c0 = \<lparr>smux = c0, holder = None, pcs = map Blocked calls, order = []\<rparr>"

inductive smux_steps :: "('ss, 'st, 'r) smux_call list \<Rightarrow> ('ss, 'r) smux_client \<Rightarrow> nat \<Rightarrow> ('ss, 'st, 'r) smux_conc \<Rightarrow> bool" for calls c0 where
  none: "smux_steps calls c0 0 (smux_start calls c0)"
| more: "smux_steps calls c0 n s \<Longrightarrow> smux_step s t \<Longrightarrow> smux_steps calls c0 (Suc n) t"

subsection \<open>One call after the other\<close>

fun do_call :: "('ss, 'st, 'r) smux_call \<Rightarrow> ('ss, 'r) smux_client \<Rightarrow> (('ss, 'st, 'r) smux_ret \<times> ('ss, 'r) smux_client) option" where
  "do_call (DialCall closed open_stream o1 o2) c = map_option (\<lambda>(r, c'). (Dialled r, c')) (smux_Dial closed open_stream o1 o2 c)"
| "do_call CloseCall c = Some (Closed (fst (smux_Close c)) (snd (smux_Close c)), c)"

text \<open>The calls in a given order, each as a whole.\<close>

fun in_turn :: "('ss, 'st, 'r) smux_call list \<Rightarrow> nat list \<Rightarrow> ('ss, 'r) smux_client
     \<Rightarrow> (('ss, 'st, 'r) smux_ret list \<times> ('ss, 'r) smux_client) option" where
  "in_turn calls [] c = Some ([], c)"
| "in_turn calls (i # is) c =
     (case do_call (calls ! i) c of
        None \<Rightarrow> None
      | Some (r, c') \<Rightarrow> map_option (\<lambda>(rs, c''). (r # rs, c'')) (in_turn calls is c'))"

subsection \<open>What is left of a call\<close>

primrec rank :: "('ss, 'st, 'r) smux_pc \<Rightarrow> nat" where
  "rank (Blocked call) = 7"
| "rank (Checking closed open_stream o1 o2) = 6"
| "rank (Dialling open_stream o1 o2) = 5"
| "rank (Opening open_stream o2) = 4"
| "rank (Redialling open_stream o2) = 3"
| "rank (Reopening open_stream) = 2"
| "rank ClosingSession = 3"
| "rank (ClosingRaw ss) = 2"
| "rank (Unlocking r) = 1"
| "rank (Returned r) = 0"
| "rank NilSession = 0"

lemma locked_step_rank: "locked_step p c = Some (q, c') \<Longrightarrow> rank q < rank p \<and> 1 < rank p"
  by (induction p c rule: locked_step.induct) (auto split: option.splits sum.splits prod.splits if_splits)

function rest_of :: "('ss, 'st, 'r) smux_pc \<Rightarrow> ('ss, 'r) smux_client \<Rightarrow> (('ss, 'st, 'r) smux_ret \<times> ('ss, 'r) smux_client) option" where
  "rest_of p c =
     (case locked_step p c of
        Some (q, c') \<Rightarrow> rest_of q c'
      | None \<Rightarrow> (case p of Unlocking r \<Rightarrow> Some (r, c) | _ \<Rightarrow> None))"
  by pat_completeness auto
termination
  by (relation "measure (\<lambda>(p, c). rank p)") (auto dest: locked_step_rank)

declare rest_of.simps [simp del]

lemma rest_of_step: "locked_step p c = Some (q, c') \<Longrightarrow> rest_of p c = rest_of q c'"
  by (simp add: rest_of.simps [of p])

lemma rest_of_ends [simp]: "rest_of (Unlocking r) c = Some (r, c)" "rest_of NilSession c = None"
  by (simp_all add: rest_of.simps)

lemma rest_of_enter: "rest_of (enter call) c = do_call call c"
proof (cases call)
  case (DialCall closed open_stream o1 o2)
  have reopen: "rest_of (Reopening open_stream) c2 =
      (case session c2 of None \<Rightarrow> None
       | Some ss2 \<Rightarrow> (case open_stream ss2 of Inl e \<Rightarrow> Some (Dialled (Inl (OpenFailed e)), c2)
                        | Inr st \<Rightarrow> Some (Dialled (Inr (st, raw_conn c2, hash c2)), c2)))" for c2 :: "('a, 'c) smux_client"
    by (subst rest_of.simps) (simp split: option.splits sum.splits)
  have redial: "rest_of (Redialling open_stream o2) c2 =
      (case dialOuter o2 c2 of (Some e, c3) \<Rightarrow> Some (Dialled (Inl (Reconnect e)), c3) | (None, c3) \<Rightarrow> rest_of (Reopening open_stream) c3)"
    for c2 :: "('a, 'c) smux_client"
    by (subst rest_of.simps) (simp split: option.splits prod.splits)
  have opens: "rest_of (Opening open_stream o2) c1 =
      (case session c1 of None \<Rightarrow> None
       | Some ss \<Rightarrow> (case open_stream ss of Inr st \<Rightarrow> Some (Dialled (Inr (st, raw_conn c1, hash c1)), c1)
                       | Inl _ \<Rightarrow> rest_of (Redialling open_stream o2) (c1\<lparr>session := None\<rparr>)))" for c1 :: "('a, 'c) smux_client"
    by (subst rest_of.simps) (simp split: option.splits sum.splits)
  have dial: "rest_of (Dialling open_stream o1 o2) c =
      (case dialOuter o1 c of (Some e, c1) \<Rightarrow> Some (Dialled (Inl e), c1) | (None, c1) \<Rightarrow> rest_of (Opening open_stream o2) c1)"
    by (subst rest_of.simps) (simp split: option.splits prod.splits)
  have "rest_of (enter call) c = rest_of (if (case session c of None \<Rightarrow> True | Some ss \<Rightarrow> closed ss) then Dialling open_stream o1 o2 else Opening open_stream o2) c"
    by (simp add: DialCall rest_of_step [of "Checking closed open_stream o1 o2"])
  then show ?thesis
    unfolding DialCall do_call.simps smux_Dial_def
    by (auto simp: dial opens redial reopen split: option.splits sum.splits prod.splits if_splits)
next
  case CloseCall
  then show ?thesis
    by (simp add: smux_Close_def rest_of_step [of ClosingSession] rest_of_step [of "ClosingRaw _"])
qed

subsection \<open>Calls in turn\<close>

lemma in_turn_append:
  "in_turn calls (is @ [i]) c =
     (case in_turn calls is c of
        None \<Rightarrow> None
      | Some (rs, c') \<Rightarrow> map_option (\<lambda>(r, c''). (rs @ [r], c'')) (do_call (calls ! i) c'))"
  by (induction "is" arbitrary: c) (auto simp: option.map_comp comp_def case_prod_unfold split: option.splits)

lemma in_turn_length: "in_turn calls is c = Some (rs, c') \<Longrightarrow> length rs = length is"
  by (induction "is" arbitrary: c rs) (auto split: option.splits)

primrec attempts_of :: "('ss, 'st, 'r) smux_call \<Rightarrow> ('ss, 'r) outer set" where
  "attempts_of (DialCall closed open_stream o1 o2) = {o1, o2}"
| "attempts_of CloseCall = {}"

definition attempts :: "('ss, 'st, 'r) smux_call list \<Rightarrow> ('ss, 'r) outer set" where
  "attempts calls = (\<Union>call \<in> set calls. attempts_of call)"

text \<open>A stream that a call returned was opened on a session that one of the attempts established.\<close>

definition bound_to :: "('ss, 'r) outer set \<Rightarrow> ('ss, 'st, 'r) smux_call \<Rightarrow> ('ss, 'st, 'r) smux_ret \<Rightarrow> bool" where
  "bound_to past call r \<longleftrightarrow> (\<forall>st raw h. r = Dialled (Inr (st, raw, h)) \<longrightarrow>
     (\<exists>closed open_stream o1 o2 ss. call = DialCall closed open_stream o1 o2 \<and> open_stream ss = Inr st \<and> established past ss raw h))"

lemma do_call_ok:
  assumes "smux_ok past c" "attempts_of call \<subseteq> past"
  shows "\<exists>r c'. do_call call c = Some (r, c') \<and> smux_ok past c' \<and> bound_to past call r"
proof (cases call)
  case (DialCall closed open_stream o1 o2)
  then have "past \<union> {o1, o2} = past"
    using assms(2) by auto
  obtain r c' where "smux_Dial closed open_stream o1 o2 c = Some (r, c')" "smux_ok past c'"
    "case r of Inl _ \<Rightarrow> True | Inr (st, raw, h) \<Rightarrow> \<exists>ss. session c' = Some ss \<and> open_stream ss = Inr st \<and> established past ss raw h"
    using smux_Dial_binding [OF assms(1), of closed open_stream o1 o2] unfolding \<open>past \<union> {o1, o2} = past\<close> by blast
  then show ?thesis
    using DialCall by (fastforce simp: bound_to_def)
qed (use assms in \<open>simp add: bound_to_def\<close>)

lemma in_turn_ok:
  assumes "smux_ok past c" "attempts calls \<subseteq> past" "set is \<subseteq> {..<length calls}"
  shows "\<exists>rs c'. in_turn calls is c = Some (rs, c') \<and> smux_ok past c' \<and> (\<forall>k < length is. bound_to past (calls ! (is ! k)) (rs ! k))"
  using assms
proof (induction "is" arbitrary: c)
  case (Cons i "is")
  then have "calls ! i \<in> set calls"
    by simp
  then have "attempts_of (calls ! i) \<subseteq> past"
    using Cons.prems(2) unfolding attempts_def by blast
  then obtain r c1 where one: "do_call (calls ! i) c = Some (r, c1)" "smux_ok past c1" "bound_to past (calls ! i) r"
    using do_call_ok Cons.prems(1) by blast
  obtain rs c' where "in_turn calls is c1 = Some (rs, c')" "smux_ok past c'" "\<forall>k < length is. bound_to past (calls ! (is ! k)) (rs ! k)"
    using Cons.IH [OF one(2)] Cons.prems by auto
  then show ?case
    using one by (auto simp: less_Suc_eq_0_disj)
qed simp

subsection \<open>The invariant\<close>

definition returned_all :: "('ss, 'st, 'r) smux_conc \<Rightarrow> nat list \<Rightarrow> ('ss, 'st, 'r) smux_ret list \<Rightarrow> bool" where
  "returned_all s is rs \<longleftrightarrow> length rs = length is \<and> (\<forall>k < length is. pcs s ! (is ! k) = Returned (rs ! k))"

definition serial :: "('ss, 'st, 'r) smux_call list \<Rightarrow> ('ss, 'r) smux_client \<Rightarrow> ('ss, 'st, 'r) smux_conc \<Rightarrow> bool" where
  "serial calls c0 s \<longleftrightarrow> length (pcs s) = length calls \<and> distinct (order s) \<and> set (order s) \<subseteq> {..<length calls}
     \<and> (\<forall>i < length calls. i \<notin> set (order s) \<longrightarrow> pcs s ! i = Blocked (calls ! i))
     \<and> (case holder s of
          None \<Rightarrow> \<exists>rs. in_turn calls (order s) c0 = Some (rs, smux s) \<and> returned_all s (order s) rs
        | Some i \<Rightarrow> \<exists>before rs c. order s = before @ [i] \<and> in_turn calls before c0 = Some (rs, c) \<and> returned_all s before rs
            \<and> 0 < rank (pcs s ! i) \<and> (\<forall>call. pcs s ! i \<noteq> Blocked call) \<and> rest_of (pcs s ! i) (smux s) = do_call (calls ! i) c)"

lemma serial_start: "serial calls c0 (smux_start calls c0)"
  by (simp add: serial_def smux_start_def returned_all_def)

lemma locked_step_not_blocked: "locked_step p c = Some (q, c') \<Longrightarrow> q \<noteq> Blocked call"
  by (induction p c rule: locked_step.induct) (auto split: option.splits sum.splits prod.splits if_splits)

lemma locked_step_some: "1 < rank p \<Longrightarrow> (\<forall>call. p \<noteq> Blocked call) \<Longrightarrow> \<exists>q. locked_step p c = Some q"
  by (cases p) (auto split: option.splits sum.splits prod.splits)

lemma returned_all_update: "returned_all s is rs \<Longrightarrow> i \<notin> set is \<Longrightarrow> pcs t = (pcs s)[i := p] \<Longrightarrow> returned_all t is rs"
  unfolding returned_all_def by (metis nth_list_update_neq nth_mem)

lemma active_is_holder:
  assumes "serial calls c0 s" "i < length (pcs s)" "\<forall>call. pcs s ! i \<noteq> Blocked call" "\<forall>r. pcs s ! i \<noteq> Returned r"
  shows "holder s = Some i"
proof -
  have i: "i \<in> set (order s)"
    using assms(1-3) by (fastforce simp: serial_def)
  have gone: "i \<notin> set is" if "returned_all s is rs" for "is" rs
    using that assms(4) by (auto simp: returned_all_def in_set_conv_nth)
  show ?thesis
    using assms(1) i gone by (cases "holder s") (auto simp: serial_def)
qed

lemma serial_step:
  assumes "smux_step s t" "serial calls c0 s" "smux_ok past c0" "attempts calls \<subseteq> past"
  shows "serial calls c0 t"
  using assms(1)
proof (cases rule: smux_step.cases)
  case (lock i call)
  have len: "length (pcs s) = length calls" and new: "\<And>j. j < length calls \<Longrightarrow> j \<notin> set (order s) \<Longrightarrow> pcs s ! j = Blocked (calls ! j)"
    using assms(2) by (simp_all add: serial_def)
  obtain rs where rs: "in_turn calls (order s) c0 = Some (rs, smux s)" "returned_all s (order s) rs"
    using assms(2) lock(4) by (auto simp: serial_def)
  then have i: "i \<notin> set (order s)"
    using lock(3) by (auto simp: returned_all_def in_set_conv_nth)
  then have call: "call = calls ! i"
    using new [of i] lock(2,3) len by simp
  have enter: "0 < rank (enter call)" "\<forall>call'. enter call \<noteq> Blocked call'"
    by (cases call; simp)+
  have "returned_all t (order s) rs"
    using returned_all_update [OF rs(2) i] lock(1) by simp
  then show ?thesis
    using assms(2) lock(1,2) rs(1) i enter len rest_of_enter [of call "smux s"] by (auto simp: serial_def call)
next
  case (locked i p c)
  have "\<forall>call. pcs s ! i \<noteq> Blocked call" "\<forall>r. pcs s ! i \<noteq> Returned r"
    using locked(3) by auto
  then have holder: "holder s = Some i"
    using active_is_holder assms(2) locked(2) by blast
  then obtain before rs c1 where b: "order s = before @ [i]" "in_turn calls before c0 = Some (rs, c1)" "returned_all s before rs"
    "rest_of (pcs s ! i) (smux s) = do_call (calls ! i) c1"
    using assms(2) by (auto simp: serial_def)
  have order: "distinct (order s)" "set (order s) \<subseteq> {..<length calls}"
    using assms(2) by (simp_all add: serial_def)
  have "smux_ok past c1"
    using in_turn_ok [OF assms(3,4), of before] b(1,2) order(2) by auto
  moreover have "attempts_of (calls ! i) \<subseteq> past"
    using b(1) order(2) nth_mem [of i calls] assms(4) unfolding attempts_def by fastforce
  ultimately have some: "do_call (calls ! i) c1 \<noteq> None"
    using do_call_ok by blast
  have rest: "rest_of p c = do_call (calls ! i) c1"
    using b(4) rest_of_step [OF locked(3)] by simp
  then have "0 < rank p"
    using some by (cases p) (auto simp: rest_of.simps)
  moreover have "returned_all t before rs"
    using returned_all_update [OF b(3), of i t p] b(1) order(1) locked(1) by simp
  ultimately show ?thesis
    using assms(2) locked(1,2) b(1,2) holder rest locked_step_not_blocked [OF locked(3)] by (auto simp: serial_def)
next
  case (unlock i r)
  then have holder: "holder s = Some i"
    using active_is_holder [OF assms(2) unlock(2)] by simp
  then obtain before rs c1 where b: "order s = before @ [i]" "in_turn calls before c0 = Some (rs, c1)" "returned_all s before rs"
    "Some (r, smux s) = do_call (calls ! i) c1"
    using assms(2) unlock(3) by (auto simp: serial_def)
  have "in_turn calls (order s) c0 = Some (rs @ [r], smux s)"
    using b(2) by (simp add: b(1) in_turn_append flip: b(4))
  moreover have "returned_all t before rs" "pcs t ! i = Returned r"
    using returned_all_update [OF b(3), of i t "Returned r"] b(1) unlock(1,2) assms(2) by (simp_all add: serial_def)
  then have "returned_all t (order s) (rs @ [r])"
    by (auto simp: b(1) returned_all_def nth_append less_Suc_eq)
  ultimately show ?thesis
    using assms(2) unlock(1) b(1) by (auto simp: serial_def)
qed

lemma serial_steps:
  assumes "smux_ok past c0" "attempts calls \<subseteq> past"
  shows "smux_steps calls c0 n s \<Longrightarrow> serial calls c0 s"
  by (induction rule: smux_steps.induct) (use serial_start serial_step assms in blast)+

lemma serial_returned:
  assumes "serial calls c0 s" "in_turn calls (order s) c0 = Some (rs, c)" "k < length (order s)" "pcs s ! (order s ! k) = Returned r"
  shows "r = rs ! k"
proof (cases "holder s")
  case None
  then show ?thesis
    using assms by (auto simp: serial_def returned_all_def)
next
  case (Some i)
  then obtain before rs' c1 where b: "order s = before @ [i]" "in_turn calls before c0 = Some (rs', c1)" "returned_all s before rs'" "0 < rank (pcs s ! i)"
    using assms(1) by (auto simp: serial_def)
  have "k < length before"
    using assms(3,4) b(1,4) by (cases "k = length before") (auto simp: nth_append)
  moreover obtain r' where "rs = rs' @ [r']"
    using assms(2) b(2) by (auto simp: b(1) in_turn_append split: option.splits)
  ultimately show ?thesis
    using assms(4) b(1,3) by (auto simp: returned_all_def nth_append)
qed

lemma serial_not_nil:
  assumes "serial calls c0 s" "i < length calls"
  shows "pcs s ! i \<noteq> NilSession"
proof
  assume nil: "pcs s ! i = NilSession"
  then have "holder s = Some i"
    using active_is_holder [OF assms(1)] assms by (simp add: serial_def)
  then show False
    using assms(1) nil by (auto simp: serial_def)
qed

subsection \<open>Progress\<close>

definition work :: "('ss, 'st, 'r) smux_conc \<Rightarrow> nat" where
  "work s = sum_list (map rank (pcs s))"

lemma work_update:
  assumes "i < length (pcs s)" "rank p < rank (pcs s ! i)" "pcs t = (pcs s)[i := p]"
  shows "work t < work s"
proof -
  have "work t = work s + rank p - rank (pcs s ! i)"
    using assms(1,3) by (simp add: work_def map_update sum_list_update)
  moreover have "rank (pcs s ! i) \<le> work s"
    using elem_le_sum_list [of i "map rank (pcs s)"] assms(1) by (simp add: work_def)
  ultimately show ?thesis
    using assms(2) by simp
qed

lemma work_step: "smux_step s t \<Longrightarrow> work t < work s"
proof (induction rule: smux_step.induct)
  case (lock i s call)
  then show ?case
    by (intro work_update [of i s "enter call"]) (cases call; simp)+
next
  case (locked i s p c)
  then show ?case
    using locked_step_rank by (intro work_update [of i s p]) auto
next
  case (unlock i s r)
  then show ?case
    by (intro work_update [of i s "Returned r"]) auto
qed

lemma work_steps: "smux_steps calls c0 n s \<Longrightarrow> n + work s \<le> 7 * length calls"
proof (induction rule: smux_steps.induct)
  case none
  have "sum_list (map rank (map Blocked calls)) = 7 * length calls"
    by (induction calls) simp_all
  then show ?case
    by (simp add: work_def smux_start_def)
next
  case (more n s t)
  then show ?case
    using work_step [of s t] by simp
qed

lemma serial_progress:
  assumes "serial calls c0 s" "i < length calls" "\<forall>r. pcs s ! i \<noteq> Returned r"
  shows "\<exists>t. smux_step s t"
proof (cases "holder s")
  case None
  have len: "i < length (pcs s)"
    using assms(1,2) by (simp add: serial_def)
  show ?thesis
  proof (cases "\<exists>call. pcs s ! i = Blocked call")
    case True
    then show ?thesis
      using lock [OF len _ None] by blast
  next
    case False
    then show ?thesis
      using active_is_holder [OF assms(1) len] assms(3) None by simp
  qed
next
  case (Some j)
  then have j: "j < length (pcs s)" "0 < rank (pcs s ! j)" "\<forall>call. pcs s ! j \<noteq> Blocked call"
    using assms(1) by (auto simp: serial_def)
  show ?thesis
  proof (cases "1 < rank (pcs s ! j)")
    case True
    then obtain q where "locked_step (pcs s ! j) (smux s) = Some q"
      using locked_step_some j(3) by blast
    then show ?thesis
      using locked [OF j(1)] by (cases q) blast
  next
    case False
    then obtain r where "pcs s ! j = Unlocking r"
      using j(2) by (cases "pcs s ! j") simp_all
    then show ?thesis
      using unlock [OF j(1)] by blast
  qed
qed

subsection \<open>Properties\<close>

text \<open>C32. Many goroutines at once: let any number of calls of \<^verbatim>\<open>Dial\<close> and \<^verbatim>\<open>Close\<close> run on one client, in any
  interleaving of their accesses to its fields and of their network operations. Then the calls take effect one after
  the other, in the order in which they got the mutex: whenever it is free the client is what these calls make of
  it in turn, and each call that has returned has the result it has there. No call dereferences a nil session;
  a stream that \<^verbatim>\<open>Dial\<close> returns was opened on a session that one of the attempts established and carries that attempt's
  raw connection and Noise hash, whatever the others do; a call that has not returned can always be brought forward; and
  after seven steps for each call all have returned.\<close>

theorem smux_calls_serialise:
  assumes "smux_ok past c0" and "smux_steps calls c0 n s"
  shows "\<exists>rs c. in_turn calls (order s) c0 = Some (rs, c) \<and> distinct (order s)
    \<and> (holder s = None \<longrightarrow> smux s = c)
    \<and> (\<forall>i < length calls. \<forall>r. pcs s ! i = Returned r \<longrightarrow> (\<exists>k < length (order s). order s ! k = i \<and> r = rs ! k
          \<and> bound_to (past \<union> attempts calls) (calls ! i) r))
    \<and> (\<forall>i < length calls. pcs s ! i \<noteq> NilSession)
    \<and> n \<le> 7 * length calls \<and> (n = 7 * length calls \<longrightarrow> (\<forall>i < length calls. \<exists>r. pcs s ! i = Returned r))
    \<and> ((\<exists>i < length calls. \<forall>r. pcs s ! i \<noteq> Returned r) \<longrightarrow> (\<exists>t. smux_step s t))"
proof -
  let ?past = "past \<union> attempts calls"
  have past: "smux_ok ?past c0" "attempts calls \<subseteq> ?past"
    using smux_ok_mono [OF assms(1)] by auto
  have inv: "serial calls c0 s"
    using serial_steps [OF past assms(2)] .
  have order: "set (order s) \<subseteq> {..<length calls}" "distinct (order s)" "length (pcs s) = length calls"
    using inv by (simp_all add: serial_def)
  obtain rs c where rs: "in_turn calls (order s) c0 = Some (rs, c)" "\<forall>k < length (order s). bound_to ?past (calls ! (order s ! k)) (rs ! k)"
    using in_turn_ok [OF past order(1)] by blast
  have "\<exists>k < length (order s). order s ! k = i \<and> r = rs ! k \<and> bound_to ?past (calls ! i) r"
    if i: "i < length calls" "pcs s ! i = Returned r" for i r
  proof -
    have "i \<in> set (order s)"
      using inv i by (fastforce simp: serial_def)
    then obtain k where k: "k < length (order s)" "order s ! k = i"
      by (auto simp: in_set_conv_nth)
    then have "r = rs ! k"
      using serial_returned [OF inv rs(1), of k r] i(2) by simp
    then show ?thesis
      using k rs(2) by auto
  qed
  moreover have "holder s = None \<Longrightarrow> smux s = c"
    using inv rs(1) by (auto simp: serial_def)
  moreover have "pcs s ! i \<noteq> NilSession" if "i < length calls" for i
    using serial_not_nil [OF inv that] .
  moreover have "\<exists>r. pcs s ! i = Returned r" if "n = 7 * length calls" "i < length calls" for i
    using work_steps [OF assms(2)] serial_progress [OF inv that(2)] work_step that(1) by fastforce
  ultimately show ?thesis
    using rs order(2) work_steps [OF assms(2)] serial_progress [OF inv] by auto
qed

text \<open>A first \<^verbatim>\<open>Dial\<close> has returned its stream while a \<^verbatim>\<open>Close\<close> still waits.\<close>

definition sample_opens :: "nat \<Rightarrow> string + nat" where
  "sample_opens ss = Inr (ss + 5)"

definition sample_calls :: "(nat, nat, nat) smux_call list" where
  "sample_calls = [DialCall (\<lambda>_. False) sample_opens (sample_outer 1 [1]) (sample_outer 2 [2]), CloseCall]"

definition no_session :: "(nat, nat) smux_client" where
  "no_session = \<lparr>session = None, raw_conn = None, hash = []\<rparr>"

definition dialled_once :: "(nat, nat, nat) smux_conc" where
  "dialled_once = \<lparr>smux = \<lparr>session = Some 11, raw_conn = Some 1, hash = [1]\<rparr>, holder = None,
     pcs = [Returned (Dialled (Inr (16, Some 1, [1]))), Blocked CloseCall], order = [0]\<rparr>"

lemma dialled_once_steps: "smux_steps sample_calls no_session 5 dialled_once"
proof -
  let ?o1 = "sample_outer 1 [1]" and ?o2 = "sample_outer 2 [2]"
  let ?s1 = "\<lparr>smux = no_session, holder = Some 0, pcs = [Checking (\<lambda>_. False) sample_opens ?o1 ?o2, Blocked CloseCall], order = [0]\<rparr>"
  let ?s2 = "?s1\<lparr>pcs := [Dialling sample_opens ?o1 ?o2, Blocked CloseCall]\<rparr>"
  let ?s3 = "?s2\<lparr>smux := smux dialled_once, pcs := [Opening sample_opens ?o2, Blocked CloseCall]\<rparr>"
  let ?s4 = "?s3\<lparr>pcs := [Unlocking (Dialled (Inr (16, Some 1, [1]))), Blocked CloseCall]\<rparr>"
  have "smux_step (smux_start sample_calls no_session) ?s1"
    using lock [of 0 "smux_start sample_calls no_session"] by (simp add: smux_start_def sample_calls_def)
  moreover have "smux_step ?s1 ?s2"
    using locked [of 0 ?s1] by (simp add: no_session_def)
  moreover have "smux_step ?s2 ?s3"
    using locked [of 0 ?s2] by (simp add: no_session_def dialOuter_def sample_outer_def dialled_once_def)
  moreover have "smux_step ?s3 ?s4"
    using locked [of 0 ?s3] by (simp add: dialled_once_def sample_opens_def)
  moreover have "smux_step ?s4 dialled_once"
    using unlock [of 0 ?s4] by (simp add: dialled_once_def)
  ultimately show ?thesis
    by (simp add: eval_nat_numeral) (meson smux_steps.intros)
qed

theorem smux_calls_serialise_witness:
  "in_turn sample_calls [0] no_session = Some ([Dialled (Inr (16, Some 1, [1]))], smux dialled_once)
     \<and> bound_to (attempts sample_calls) (sample_calls ! 0) (Dialled (Inr (16, Some 1, [1]))) \<and> (\<exists>t. smux_step dialled_once t)"
proof -
  have "smux_ok {} no_session"
    by (simp add: smux_ok_def no_session_def)
  note all = smux_calls_serialise [OF this dialled_once_steps]
  have at: "order dialled_once = [0]" "holder dialled_once = None" "0 < length sample_calls" "1 < length sample_calls"
    "pcs dialled_once ! 0 = Returned (Dialled (Inr (16, Some 1, [1])))" "\<forall>r. pcs dialled_once ! 1 \<noteq> Returned r"
    by (simp_all add: dialled_once_def sample_calls_def)
  obtain rs c where r: "in_turn sample_calls [0] no_session = Some (rs, c)" "smux dialled_once = c"
    "rs ! 0 = Dialled (Inr (16, Some 1, [1]))" "bound_to (attempts sample_calls) (sample_calls ! 0) (Dialled (Inr (16, Some 1, [1])))"
    using all at by fastforce
  have "\<exists>t. smux_step dialled_once t"
    using all at(4,6) by blast
  moreover have "rs = [Dialled (Inr (16, Some 1, [1]))]"
    using in_turn_length [OF r(1)] r(3) by (cases rs) auto
  ultimately show ?thesis
    using r(1,2,4) by simp
qed

end
