(* ===== verification/Endpoints.thy ===== *)
theory Endpoints
  imports Carriers Queue
begin

text \<open>
  The rest of the transports: what they configure TLS and SMUX with, how a fingerprint makes the TLS client
  (\<^verbatim>\<open>utlsx.New\<close> and the three copies of \<^verbatim>\<open>dialTLS\<close>), the \<^verbatim>\<open>Accept\<close> methods, the accept loops of the QUIC and SMUX
  servers, the \<^verbatim>\<open>Close\<close> methods as one caller sees them, and the request routing of the WebSocket server. A TLS
  configuration is a record with Go's zero values for what the code does not set.
\<close>

subsection \<open>TLS configurations\<close>

record 'pool tls_conf =
  tServerName :: string
  tNextProtos :: "string list"
  tInsecureSkipVerify :: bool
  tMinVersion :: u16
  tMaxVersion :: u16
  tRootCAs :: "'pool option"
  tCertificates :: "bytes list list"

definition zero_tls :: "'pool tls_conf" where
  "zero_tls = \<lparr>tServerName = [], tNextProtos = [], tInsecureSkipVerify = False, tMinVersion = 0, tMaxVersion = 0,
     tRootCAs = None, tCertificates = []\<rparr>"

definition VersionTLS13 :: u16 where "VersionTLS13 = 0x0304"

definition quic_ALPN :: string where "quic_ALPN = ''avangard/1''"
definition tcp_ALPN :: string where "tcp_ALPN = ''avangard/1''"
definition smux_ALPN :: string where "smux_ALPN = ''avangard/1''"

definition quic_server_tls :: "bytes list \<Rightarrow> 'pool tls_conf" where
  "quic_server_tls cert = zero_tls\<lparr>tCertificates := [cert], tNextProtos := [quic_ALPN], tMinVersion := VersionTLS13\<rparr>"

definition tcp_server_tls :: "bytes list \<Rightarrow> 'pool tls_conf" where
  "tcp_server_tls cert = zero_tls\<lparr>tCertificates := [cert], tNextProtos := [tcp_ALPN], tMinVersion := VersionTLS13\<rparr>"

definition smux_server_tls :: "bytes list \<Rightarrow> 'pool tls_conf" where
  "smux_server_tls cert = zero_tls\<lparr>tCertificates := [cert], tNextProtos := [smux_ALPN], tMinVersion := VersionTLS13\<rparr>"

definition ws_server_tls :: "bytes list \<Rightarrow> 'pool tls_conf" where
  "ws_server_tls cert = zero_tls\<lparr>tCertificates := [cert], tMinVersion := VersionTLS13, tNextProtos := [''http/1.1'']\<rparr>"

definition quic_client_tls :: "client_config \<Rightarrow> 'pool tls_conf" where
  "quic_client_tls cfg = zero_tls\<lparr>tServerName := SNI cfg, tNextProtos := [quic_ALPN],
     tInsecureSkipVerify := InsecureSkipVerify cfg, tMinVersion := VersionTLS13\<rparr>"

definition tcp_client_tls :: "client_config \<Rightarrow> 'pool tls_conf" where
  "tcp_client_tls cfg = zero_tls\<lparr>tServerName := SNI cfg, tNextProtos := [tcp_ALPN],
     tInsecureSkipVerify := InsecureSkipVerify cfg, tMinVersion := VersionTLS13\<rparr>"

definition smux_client_tls :: "client_config \<Rightarrow> 'pool tls_conf" where
  "smux_client_tls cfg = zero_tls\<lparr>tServerName := SNI cfg, tNextProtos := [smux_ALPN],
     tInsecureSkipVerify := InsecureSkipVerify cfg, tMinVersion := VersionTLS13\<rparr>"

definition ws_client_tls :: "client_config \<Rightarrow> 'pool tls_conf" where
  "ws_client_tls cfg = zero_tls\<lparr>tServerName := SNI cfg, tInsecureSkipVerify := InsecureSkipVerify cfg,
     tMinVersion := VersionTLS13, tNextProtos := [''http/1.1'']\<rparr>"

subsection \<open>Making the TLS client\<close>

datatype utls_err = ConfigRequired | ErrUnknownFingerprint

text \<open>\<^verbatim>\<open>utlsx.New\<close>: the connection, the configuration and the hello that the uTLS client is made from. Six fields
  are copied.\<close>

definition utls_New :: "'r \<Rightarrow> 'pool tls_conf option \<Rightarrow> string \<Rightarrow> utls_err + 'r \<times> 'pool tls_conf \<times> client_hello_id" where
  "utls_New raw conf fp =
     (case conf of
        None \<Rightarrow> Inl ConfigRequired
      | Some cfg \<Rightarrow>
     (case resolve fp of
        None \<Rightarrow> Inl ErrUnknownFingerprint
      | Some hello \<Rightarrow> Inr (raw, zero_tls\<lparr>tServerName := tServerName cfg, tNextProtos := tNextProtos cfg,
          tInsecureSkipVerify := tInsecureSkipVerify cfg, tMinVersion := tMinVersion cfg, tMaxVersion := tMaxVersion cfg,
          tRootCAs := tRootCAs cfg\<rparr>, hello)))"

text \<open>A TLS client before its handshake: Go's or uTLS's.\<close>

datatype ('r, 'pool) tls_client = StdClient 'r "'pool tls_conf" | UClient 'r "'pool tls_conf" client_hello_id

datatype tls_dial_err = NewFailed utls_err | HandshakeFailed string

text \<open>\<open>handshake\<close> is the library's result for a client. The function is copied in three packages.\<close>

definition tcp_dialTLS ::
  "(('r, 'pool) tls_client \<Rightarrow> string option) \<Rightarrow> 'r \<Rightarrow> 'pool tls_conf \<Rightarrow> string \<Rightarrow> tls_dial_err + ('r, 'pool) tls_client" where
  "tcp_dialTLS handshake raw cfg fp =
     (if fp = '''' then
        (let c = StdClient raw cfg in case handshake c of Some e \<Rightarrow> Inl (HandshakeFailed e) | None \<Rightarrow> Inr c)
      else (case utls_New raw (Some cfg) (FingerprintFromString fp) of
              Inl e \<Rightarrow> Inl (NewFailed e)
            | Inr (r, conf, hello) \<Rightarrow>
                (let c = UClient r conf hello in case handshake c of Some e \<Rightarrow> Inl (HandshakeFailed e) | None \<Rightarrow> Inr c)))"

definition smux_dialTLS ::
  "(('r, 'pool) tls_client \<Rightarrow> string option) \<Rightarrow> 'r \<Rightarrow> 'pool tls_conf \<Rightarrow> string \<Rightarrow> tls_dial_err + ('r, 'pool) tls_client" where
  "smux_dialTLS handshake raw cfg fp =
     (if fp = '''' then
        (let c = StdClient raw cfg in case handshake c of Some e \<Rightarrow> Inl (HandshakeFailed e) | None \<Rightarrow> Inr c)
      else (case utls_New raw (Some cfg) (FingerprintFromString fp) of
              Inl e \<Rightarrow> Inl (NewFailed e)
            | Inr (r, conf, hello) \<Rightarrow>
                (let c = UClient r conf hello in case handshake c of Some e \<Rightarrow> Inl (HandshakeFailed e) | None \<Rightarrow> Inr c)))"

definition ws_dialTLS ::
  "(('r, 'pool) tls_client \<Rightarrow> string option) \<Rightarrow> 'r \<Rightarrow> 'pool tls_conf \<Rightarrow> string \<Rightarrow> tls_dial_err + ('r, 'pool) tls_client" where
  "ws_dialTLS handshake raw cfg fp =
     (if fp = '''' then
        (let c = StdClient raw cfg in case handshake c of Some e \<Rightarrow> Inl (HandshakeFailed e) | None \<Rightarrow> Inr c)
      else (case utls_New raw (Some cfg) (FingerprintFromString fp) of
              Inl e \<Rightarrow> Inl (NewFailed e)
            | Inr (r, conf, hello) \<Rightarrow>
                (let c = UClient r conf hello in case handshake c of Some e \<Rightarrow> Inl (HandshakeFailed e) | None \<Rightarrow> Inr c)))"

fun conf_of :: "('r, 'pool) tls_client \<Rightarrow> 'pool tls_conf" where
  "conf_of (StdClient r c) = c"
| "conf_of (UClient r c hello) = c"

fun hello_of :: "('r, 'pool) tls_client \<Rightarrow> tls_choice" where
  "hello_of (StdClient r c) = GoTLS"
| "hello_of (UClient r c hello) = UTLS hello"

lemma dialTLS_copies: "smux_dialTLS = tcp_dialTLS" "ws_dialTLS = tcp_dialTLS"
  by (intro ext; simp only: smux_dialTLS_def ws_dialTLS_def tcp_dialTLS_def)+

lemma resolve_FingerprintFromString: "\<exists>hello. resolve (FingerprintFromString fp) = Some hello"
  by (simp add: resolve_def FingerprintFromString_def)

lemma tcp_dialTLS_cases:
  obtains (failed) e c where "tcp_dialTLS handshake raw cfg fp = Inl (HandshakeFailed e)" "handshake c = Some e"
  | (ok) c where "tcp_dialTLS handshake raw cfg fp = Inr c" "handshake c = None" "hello_of c = dialTLS fp"
      "tServerName (conf_of c) = tServerName cfg" "tNextProtos (conf_of c) = tNextProtos cfg"
      "tInsecureSkipVerify (conf_of c) = tInsecureSkipVerify cfg" "tMinVersion (conf_of c) = tMinVersion cfg"
      "tMaxVersion (conf_of c) = tMaxVersion cfg" "tRootCAs (conf_of c) = tRootCAs cfg"
proof (cases "fp = ''''")
  case True
  then show ?thesis
    using that by (cases "handshake (StdClient raw cfg)") (auto simp: tcp_dialTLS_def dialTLS_def)
next
  case False
  obtain hello where hello: "resolve (FingerprintFromString fp) = Some hello"
    using resolve_FingerprintFromString by blast
  let ?c = "UClient raw (zero_tls\<lparr>tServerName := tServerName cfg, tNextProtos := tNextProtos cfg,
          tInsecureSkipVerify := tInsecureSkipVerify cfg, tMinVersion := tMinVersion cfg, tMaxVersion := tMaxVersion cfg,
          tRootCAs := tRootCAs cfg\<rparr>) hello"
  show ?thesis
  proof (cases "handshake ?c")
    case None
    then show ?thesis
      using ok [of ?c] False hello by (simp add: tcp_dialTLS_def utls_New_def dialTLS_def)
  next
    case (Some e)
    then show ?thesis
      using failed [of e ?c] False hello by (simp add: tcp_dialTLS_def utls_New_def)
  qed
qed

subsection \<open>SMUX settings\<close>

text \<open>Durations in nanoseconds; \<open>default\<close> is the library's \<^verbatim>\<open>DefaultConfig\<close>.\<close>

record smux_settings =
  sxVersion :: int
  sxKeepAliveInterval :: int
  sxKeepAliveTimeout :: int
  sxMaxFrameSize :: int
  sxMaxReceiveBuffer :: int
  sxMaxStreamBuffer :: int

definition smuxConfig :: "smux_settings \<Rightarrow> smux_settings" where
  "smuxConfig c = c\<lparr>sxVersion := 2, sxKeepAliveInterval := 30 * 10^9, sxKeepAliveTimeout := 60 * 10^9,
     sxMaxFrameSize := 32 * 1024, sxMaxReceiveBuffer := 4 * 1024 * 1024, sxMaxStreamBuffer := 256 * 1024\<rparr>"

subsection \<open>Accept loops and \<^verbatim>\<open>Accept\<close>\<close>

text \<open>The accept loops of the QUIC and SMUX servers; \<open>acceptLoop\<close> is the one of the TCP server.\<close>

fun quic_acceptLoop :: "((string \<times> bool) + 'c) list \<Rightarrow> 'c list \<times> loop_end" where
  "quic_acceptLoop [] = ([], Waiting)"
| "quic_acceptLoop (Inr conn # rs) = (case quic_acceptLoop rs of (cs, e) \<Rightarrow> (conn # cs, e))"
| "quic_acceptLoop (Inl (err, done) # rs) = (if done then ([], Quiet) else ([], Logged err))"

fun smux_acceptLoop :: "((string \<times> bool) + 'c) list \<Rightarrow> 'c list \<times> loop_end" where
  "smux_acceptLoop [] = ([], Waiting)"
| "smux_acceptLoop (Inr raw # rs) = (case smux_acceptLoop rs of (cs, e) \<Rightarrow> (raw # cs, e))"
| "smux_acceptLoop (Inl (err, done) # rs) = (if done then ([], Quiet) else ([], Logged err))"

lemma acceptLoop_copies: "quic_acceptLoop rs = acceptLoop rs" "smux_acceptLoop rs = acceptLoop rs"
  by (induction rs rule: acceptLoop.induct) simp_all

text \<open>Every connection before the first error gets a handler, none after it, and the loop is over.\<close>

lemma acceptLoop_prefix:
  "acceptLoop (map Inr cs @ Inl (err, closed) # rest) = (cs, if closed then Quiet else Logged err)"
  by (induction cs) simp_all

text \<open>The case of the \<^verbatim>\<open>select\<close> that was taken. What comes out of the channel is a pointer, \<open>None\<close> when it is nil; the
  result of a received pair is its error if there is one, as every caller looks at the error first.\<close>

datatype 'r accept_case = FromOut 'r | FromCtx accept_err | FromDone

definition quic_Accept :: "(accept_err + 'st) option accept_case \<Rightarrow> accept_err + 'st" where
  "quic_Accept c =
     (case c of
        FromOut r \<Rightarrow> (case r of None \<Rightarrow> Inl ErrClosed | Some result \<Rightarrow> result)
      | FromCtx e \<Rightarrow> Inl e
      | FromDone \<Rightarrow> Inl ErrClosed)"

definition tcp_Accept :: "(accept_err + 'st) accept_case \<Rightarrow> accept_err + 'st" where
  "tcp_Accept c = (case c of FromOut r \<Rightarrow> r | FromCtx e \<Rightarrow> Inl e | FromDone \<Rightarrow> Inl ErrClosed)"

definition smux_Accept :: "(accept_err + 'st) accept_case \<Rightarrow> accept_err + 'st" where
  "smux_Accept c = (case c of FromOut r \<Rightarrow> r | FromCtx e \<Rightarrow> Inl e | FromDone \<Rightarrow> Inl ErrClosed)"

definition ws_Accept :: "(accept_err + 'st) accept_case \<Rightarrow> accept_err + 'st" where
  "ws_Accept c = (case c of FromOut r \<Rightarrow> r | FromCtx e \<Rightarrow> Inl e | FromDone \<Rightarrow> Inl ErrClosed)"

text \<open>The cases that can be taken in a state of the queue; only streams are ever sent.\<close>

definition enabled :: "'st queue_state \<Rightarrow> accept_err option \<Rightarrow> (accept_err + 'st) accept_case \<Rightarrow> bool" where
  "enabled s ctx c \<longleftrightarrow>
     (case c of
        FromOut r \<Rightarrow> (\<exists>x q. out s = x # q \<and> r = Inr x)
      | FromCtx e \<Rightarrow> ctx = Some e
      | FromDone \<Rightarrow> is_closed s)"

lemma Accept_copies: "smux_Accept = tcp_Accept" "ws_Accept = tcp_Accept" "quic_Accept (map_accept_case Some c) = tcp_Accept c"
  by (auto simp: fun_eq_iff smux_Accept_def ws_Accept_def tcp_Accept_def quic_Accept_def split: accept_case.split)

lemma Accept_enabled: "Accept_returns s ctx r \<longleftrightarrow> (\<exists>c. enabled s ctx c \<and> r = tcp_Accept c)"
proof
  assume "Accept_returns s ctx r"
  then consider x q where "out s = x # q" "r = Inr x" | e where "ctx = Some e" "r = Inl e" | "is_closed s" "r = Inl ErrClosed"
    by (auto simp: Accept_returns_def)
  then show "\<exists>c. enabled s ctx c \<and> r = tcp_Accept c"
  proof cases
    case (1 x q)
    then show ?thesis
      by (intro exI [of _ "FromOut (Inr x)"]) (simp add: enabled_def tcp_Accept_def)
  next
    case (2 e)
    then show ?thesis
      by (intro exI [of _ "FromCtx e"]) (simp add: enabled_def tcp_Accept_def)
  next
    case 3
    then show ?thesis
      by (intro exI [of _ FromDone]) (simp add: enabled_def tcp_Accept_def)
  qed
next
  assume "\<exists>c. enabled s ctx c \<and> r = tcp_Accept c"
  then obtain c where "enabled s ctx c" "r = tcp_Accept c"
    by blast
  then show "Accept_returns s ctx r"
    by (cases c) (auto simp: enabled_def tcp_Accept_def Accept_returns_def)
qed

subsection \<open>Closing and addresses\<close>

text \<open>One call of \<^verbatim>\<open>Close\<close>: whether \<^verbatim>\<open>done\<close> is closed afterwards, and the error. \<open>shutdown\<close> is what the library
  gives for a time limit in seconds.\<close>

definition quic_server_Close :: "bool \<Rightarrow> string option \<Rightarrow> bool \<times> string option" where
  "quic_server_Close done ln_close = (if done then done else True, ln_close)"

definition smux_server_Close :: "bool \<Rightarrow> string option \<Rightarrow> bool \<times> string option" where
  "smux_server_Close done ln_close = (True, ln_close)"

definition ws_server_Close :: "bool \<Rightarrow> (nat \<Rightarrow> string option) \<Rightarrow> bool \<times> string option" where
  "ws_server_Close done shutdown = (True, shutdown 2)"

text \<open>The QUIC client tells its connection this code and reason.\<close>

definition quic_client_Close :: "nat \<times> string" where
  "quic_client_Close = (0, ''client close'')"

text \<open>The WebSocket server does not know its address; the composite listener gives its first listener's.\<close>

definition ws_Addr :: "'http option \<Rightarrow> (string \<times> nat) option" where
  "ws_Addr httpSrv = (case httpSrv of None \<Rightarrow> None | Some _ \<Rightarrow> Some (''0.0.0.0'', 0))"

definition composite_Addr :: "'a list \<Rightarrow> 'a option" where
  "composite_Addr addrs = (if length addrs = 0 then None else Some (addrs ! 0))"

subsection \<open>Request routing of the WebSocket server\<close>

text \<open>
  \<^verbatim>\<open>http.ServeMux\<close> with the two patterns that \<^verbatim>\<open>ListenTLS\<close> registers, on a request path in normal form: a pattern
  that ends in a slash stands for everything below it, the longest one wins; registering a pattern twice panics, which is
  \<open>None\<close>.
\<close>

datatype ws_route = ToWebSocket | ToNotFound

definition ws_mux :: "string \<Rightarrow> (string \<Rightarrow> ws_route) option" where
  "ws_mux pth =
     (if pth = ''/'' then None
      else Some (\<lambda>req. if req = pth \<or> (pth \<noteq> [] \<and> last pth = CHR ''/'' \<and> take (length pth) req = pth) then ToWebSocket
                       else ToNotFound))"

text \<open>Whatever path is configured, a client that uses the same one is upgraded, and with the default path nothing else is.\<close>

lemma ws_mux_default: "ws_mux ''/ws'' = Some (\<lambda>req. if req = ''/ws'' then ToWebSocket else ToNotFound)"
  by (auto simp: ws_mux_def)

subsection \<open>Properties\<close>



end
