(* ===== verification/Adapters.thy ===== *)
theory Adapters
  imports Endpoints
begin

text \<open>
  The stream types that the four transports hand out (\<^verbatim>\<open>quicStream\<close>, \<^verbatim>\<open>tcpStream\<close>, \<^verbatim>\<open>smuxStream\<close>, \<^verbatim>\<open>wsStream\<close>), each with the
  methods of \<^verbatim>\<open>transport.TunnelStream\<close> (\<^verbatim>\<open>pkg/transport/types.go\<close>), and the interface itself: what the tunnel is
  told of a stream is its two directions and its channel binding, the view \<open>tstream\<close>. Also the logger default, and the
  goroutine that serves the WebSocket server.
\<close>

subsection \<open>The interface\<close>

text \<open>Reads and writes of an implementation are those of its view, and leave the channel binding alone.\<close>

locale tunnel_stream =
  fixes sread :: "'a reader" and swrite :: "'a writer" and chan :: "'a \<Rightarrow> bytes"
    and view :: "'a \<Rightarrow> ('s, 'w) tstream" and rd :: "'s reader" and wr :: "'w writer"
  assumes read_view: "sread k a = (got, e, b) \<Longrightarrow> rd k (rx (view a)) = (got, e, rx (view b)) \<and> tx (view b) = tx (view a)"
    and write_view: "swrite bs a = (e, b) \<Longrightarrow> wr bs (tx (view a)) = (e, tx (view b)) \<and> rx (view b) = rx (view a)"
    and read_chan: "sread k a = (got, e, b) \<Longrightarrow> chan b = chan a"
    and write_chan: "swrite bs a = (e, b) \<Longrightarrow> chan b = chan a"
    and chan_view: "chan a = Channel (view a)"
begin

text \<open>Any use of a stream, as a list of reads and writes.\<close>

primrec use :: "(nat + bytes) list \<Rightarrow> 'a \<Rightarrow> 'a" where
  "use [] a = a"
| "use (x # xs) a = use xs (case x of Inl k \<Rightarrow> snd (snd (sread k a)) | Inr bs \<Rightarrow> snd (swrite bs a))"

lemma chan_read: "chan (snd (snd (sread k a))) = chan a"
  by (cases "sread k a") (auto dest: read_chan)

lemma chan_write: "chan (snd (swrite bs a)) = chan a"
  by (cases "swrite bs a") (auto dest: write_chan)

lemma chan_stays: "chan (use xs a) = chan a"
  by (induction xs arbitrary: a) (auto simp: chan_read chan_write split: sum.splits)

lemma rx_write: "rx (view (snd (swrite bs a))) = rx (view a)"
  by (cases "swrite bs a") (auto dest: write_view)

lemma tx_read: "tx (view (snd (snd (sread k a)))) = tx (view a)"
  by (cases "sread k a") (auto dest: read_view)

text \<open>The two directions do not disturb each other: a read after any write is a read before it.\<close>

lemma read_after_write:
  "fst (sread k (snd (swrite bs a))) = fst (sread k a) \<and> fst (snd (sread k (snd (swrite bs a)))) = fst (snd (sread k a))"
proof -
  have "fst (sread k x) = fst (rd k (rx (view x))) \<and> fst (snd (sread k x)) = fst (snd (rd k (rx (view x))))" for x
    by (cases "sread k x") (auto dest: read_view)
  then show ?thesis
    by (simp add: rx_write)
qed

end

subsection \<open>QUIC\<close>

record ('s, 'w, 'c) quicStream =
  qStream :: "('s, 'w) duplex"
  qConn :: 'c
  qHash :: bytes

definition quic_read :: "'s reader \<Rightarrow> ('s, 'w, 'c) quicStream reader" where
  "quic_read rd k q = (case rd k (rx (qStream q)) of (got, e, s) \<Rightarrow> (got, e, q\<lparr>qStream := (qStream q)\<lparr>rx := s\<rparr>\<rparr>))"

definition quic_write :: "'w writer \<Rightarrow> ('s, 'w, 'c) quicStream writer" where
  "quic_write wr bs q = (case wr bs (tx (qStream q)) of (e, w) \<Rightarrow> (e, q\<lparr>qStream := (qStream q)\<lparr>tx := w\<rparr>\<rparr>))"

definition quic_RemoteAddr :: "('c \<Rightarrow> string) \<Rightarrow> ('s, 'w, 'c) quicStream \<Rightarrow> string" where
  "quic_RemoteAddr addr q = addr (qConn q)"

definition quic_Channel :: "('s, 'w, 'c) quicStream \<Rightarrow> bytes" where
  "quic_Channel q = qHash q"

interpretation quic: tunnel_stream "quic_read rd" "quic_write wr" quic_Channel "\<lambda>q. as_tunnel (qStream q) (qHash q)" rd wr for rd wr
  by unfold_locales (auto simp: quic_read_def quic_write_def quic_Channel_def as_tunnel_def split: prod.splits)

subsection \<open>TCP\<close>

text \<open>\<open>tConn\<close> is the TLS connection over \<open>tRaw\<close>; closing it closes both.\<close>

record ('s, 'w, 'c) tcpStream =
  tRaw :: 'c
  tConn :: "('s, 'w) duplex"
  tHash :: bytes

definition tcp_read :: "'s reader \<Rightarrow> ('s, 'w, 'c) tcpStream reader" where
  "tcp_read rd k t = (case rd k (rx (tConn t)) of (got, e, s) \<Rightarrow> (got, e, t\<lparr>tConn := (tConn t)\<lparr>rx := s\<rparr>\<rparr>))"

definition tcp_write :: "'w writer \<Rightarrow> ('s, 'w, 'c) tcpStream writer" where
  "tcp_write wr bs t = (case wr bs (tx (tConn t)) of (e, w) \<Rightarrow> (e, t\<lparr>tConn := (tConn t)\<lparr>tx := w\<rparr>\<rparr>))"

definition tcp_stream_Close :: "(('s, 'w) duplex \<Rightarrow> string option) \<Rightarrow> ('s, 'w, 'c) tcpStream \<Rightarrow> string option" where
  "tcp_stream_Close close t = close (tConn t)"

definition tcp_RemoteAddr :: "('c \<Rightarrow> string) \<Rightarrow> ('s, 'w, 'c) tcpStream \<Rightarrow> string" where
  "tcp_RemoteAddr addr t = addr (tRaw t)"

definition tcp_Channel :: "('s, 'w, 'c) tcpStream \<Rightarrow> bytes" where
  "tcp_Channel t = tHash t"

interpretation tcp: tunnel_stream "tcp_read rd" "tcp_write wr" tcp_Channel "\<lambda>t. as_tunnel (tConn t) (tHash t)" rd wr for rd wr
  by unfold_locales (auto simp: tcp_read_def tcp_write_def tcp_Channel_def as_tunnel_def split: prod.splits)

subsection \<open>SMUX\<close>

text \<open>\<open>RemoteAddr\<close> is that of the outer connection, and \<^verbatim>\<open>Read\<close>, \<^verbatim>\<open>Write\<close> and \<^verbatim>\<open>Close\<close> are the substream's.\<close>

record ('s, 'w, 'c) smuxStream =
  sStream :: "('s, 'w) duplex"
  sRaw :: 'c
  sHash :: bytes

definition smux_read :: "'s reader \<Rightarrow> ('s, 'w, 'c) smuxStream reader" where
  "smux_read rd k q = (case rd k (rx (sStream q)) of (got, e, s) \<Rightarrow> (got, e, q\<lparr>sStream := (sStream q)\<lparr>rx := s\<rparr>\<rparr>))"

definition smux_write :: "'w writer \<Rightarrow> ('s, 'w, 'c) smuxStream writer" where
  "smux_write wr bs q = (case wr bs (tx (sStream q)) of (e, w) \<Rightarrow> (e, q\<lparr>sStream := (sStream q)\<lparr>tx := w\<rparr>\<rparr>))"

definition smux_RemoteAddr :: "('c \<Rightarrow> string) \<Rightarrow> ('s, 'w, 'c) smuxStream \<Rightarrow> string" where
  "smux_RemoteAddr addr q = addr (sRaw q)"

definition smux_Channel :: "('s, 'w, 'c) smuxStream \<Rightarrow> bytes" where
  "smux_Channel q = sHash q"

interpretation smux: tunnel_stream "smux_read rd" "smux_write wr" smux_Channel "\<lambda>q. as_tunnel (sStream q) (sHash q)" rd wr for rd wr
  by unfold_locales (auto simp: smux_read_def smux_write_def smux_Channel_def as_tunnel_def split: prod.splits)

subsection \<open>WebSocket\<close>

record wsStream =
  wsIn :: ws_stream
  wsOut :: ws_peer
  wsHash :: bytes

definition wsStream_Read :: "wsStream reader" where
  "wsStream_Read k s = (case ws_read k (wsIn s) of (got, e, i) \<Rightarrow> (got, e, s\<lparr>wsIn := i\<rparr>))"

definition wsStream_Write :: "wsStream writer" where
  "wsStream_Write bs s = (case ws_write bs (wsOut s) of (e, w) \<Rightarrow> (e, s\<lparr>wsOut := w\<rparr>))"

definition ws_Channel :: "wsStream \<Rightarrow> bytes" where
  "ws_Channel s = wsHash s"

interpretation wss: tunnel_stream wsStream_Read wsStream_Write ws_Channel "\<lambda>s. \<lparr>rx = wsIn s, tx = wsOut s, Channel = wsHash s\<rparr>" ws_read ws_write
  by unfold_locales (auto simp: wsStream_Read_def wsStream_Write_def ws_Channel_def split: prod.splits)

text \<open>\<^verbatim>\<open>SetDeadline\<close> of a WebSocket: the read deadline first, and the write deadline only if that succeeded. The value is the
  error and which deadlines were set.\<close>

definition ws_SetDeadline :: "string option \<Rightarrow> string option \<Rightarrow> string option \<times> bool \<times> bool" where
  "ws_SetDeadline set_read set_write =
     (case set_read of Some e \<Rightarrow> (Some e, False, False) | None \<Rightarrow> (set_write, True, set_write = None))"

subsection \<open>Around the streams\<close>

definition EnsureLogger :: "'l option \<Rightarrow> 'l \<Rightarrow> 'l" where
  "EnsureLogger l dflt = (case l of Some l \<Rightarrow> l | None \<Rightarrow> dflt)"

text \<open>What the goroutine of \<^verbatim>\<open>ListenTLS\<close> logs when the HTTP server has ended; \<open>closed\<close> is \<^verbatim>\<open>http.ErrServerClosed\<close>.\<close>

definition ws_serve_log :: "string \<Rightarrow> string option \<Rightarrow> string option" where
  "ws_serve_log closed err = (case err of None \<Rightarrow> None | Some e \<Rightarrow> if e \<noteq> closed then Some e else None)"

text \<open>The tunnel server's \<^verbatim>\<open>Close\<close> is its listener's.\<close>

definition tunnel_Close :: "string option list \<Rightarrow> string option" where
  "tunnel_Close results = close_all results"

text \<open>However a stream is used, it keeps the channel binding it was made with; so the token that the client derives when it
  dials and the one that the server checks are taken over the handshake's hash at any time.\<close>

theorem channel_binding_stays:
  "quic_Channel (quic.use rd wr xs q) = qHash q" "tcp_Channel (tcp.use rd wr xs t) = tHash t"
  "smux_Channel (smux.use rd wr xs m) = sHash m" "ws_Channel (wss.use xs w) = wsHash w"
  unfolding quic.chan_stays tcp.chan_stays smux.chan_stays wss.chan_stays
  by (simp_all add: quic_Channel_def tcp_Channel_def smux_Channel_def ws_Channel_def)

end
