(* ===== verification/Install.thy ===== *)
theory Install
  imports Commands
begin

text \<open>
  Setting up a server on a machine: \<^verbatim>\<open>keygen --out\<close> and \<^verbatim>\<open>selfcert\<close> write files that \<^verbatim>\<open>run\<close> reads
  (\<^verbatim>\<open>cmd/avangard-server/main.go\<close>). The file system is a map from cleaned paths to files; key generation and X.509 are
  the libraries' answers.
\<close>

subsection \<open>Paths\<close>

text \<open>\<^verbatim>\<open>filepath.Clean\<close> and \<^verbatim>\<open>filepath.Join\<close> on Unix. The elements kept so far are in reverse.\<close>

definition clean_elem :: "bool \<Rightarrow> string list \<Rightarrow> string \<Rightarrow> string list" where
  "clean_elem rooted out e =
     (if e = [] \<or> e = ''.'' then out
      else if e = ''..'' then
        (case out of
           [] \<Rightarrow> if rooted then [] else [e]
         | x # xs \<Rightarrow> if x = ''..'' then e # out else xs)
      else e # out)"

definition path_elems :: "string \<Rightarrow> string list" where
  "path_elems p = rev (foldl (clean_elem (p \<noteq> [] \<and> hd p = CHR ''/'')) [] (split_on (CHR ''/'') p))"

definition path_clean :: "string \<Rightarrow> string" where
  "path_clean p =
     (let s = join_with ''/'' (path_elems p)
      in if p \<noteq> [] \<and> hd p = CHR ''/'' then ''/'' @ s else if s = [] then ''.'' else s)"

definition filepath_join :: "string list \<Rightarrow> string" where
  "filepath_join es =
     (case dropWhile (\<lambda>e. e = []) es of [] \<Rightarrow> [] | ne \<Rightarrow> path_clean (join_with ''/'' ne))"

text \<open>A stack of elements of a cleaned path: \<^verbatim>\<open>..\<close> only at the front, and not in a rooted path.\<close>

definition plain_elem :: "string \<Rightarrow> bool" where
  "plain_elem e \<longleftrightarrow> e \<noteq> [] \<and> e \<noteq> ''.'' \<and> CHR ''/'' \<notin> set e"

fun stack_ok :: "bool \<Rightarrow> string list \<Rightarrow> bool" where
  "stack_ok r [] \<longleftrightarrow> True"
| "stack_ok r (x # xs) \<longleftrightarrow> plain_elem x \<and> stack_ok r xs \<and> (x = ''..'' \<longrightarrow> \<not> r \<and> (xs = [] \<or> hd xs = ''..''))"

lemma clean_elem_ok: "stack_ok r out \<Longrightarrow> CHR ''/'' \<notin> set e \<Longrightarrow> stack_ok r (clean_elem r out e)"
  by (cases out) (auto simp: clean_elem_def plain_elem_def)

lemma clean_elems_ok: "\<forall>e \<in> set es. CHR ''/'' \<notin> set e \<Longrightarrow> stack_ok r out \<Longrightarrow> stack_ok r (foldl (clean_elem r) out es)"
  by (induction es arbitrary: out) (simp_all add: clean_elem_ok)

lemma clean_stack: "stack_ok r xs \<Longrightarrow> foldl (clean_elem r) [] (rev xs) = xs"
proof (induction xs)
  case (Cons x xs)
  then show ?case
    by (cases xs) (auto simp: clean_elem_def plain_elem_def)
qed simp

lemma split_on_no_sep: "e \<in> set (split_on d s) \<Longrightarrow> d \<notin> set e"
  by (induction s arbitrary: e) (auto split: if_splits list.splits)

lemma stack_ok_elems: "stack_ok r xs \<Longrightarrow> x \<in> set xs \<Longrightarrow> plain_elem x"
  by (induction xs) auto

lemma path_elems_ok: "stack_ok (p \<noteq> [] \<and> hd p = CHR ''/'') (rev (path_elems p))"
  unfolding path_elems_def rev_rev_ident by (rule clean_elems_ok) (auto dest: split_on_no_sep)

lemma join_plain:
  assumes "xs \<noteq> []" "\<And>x. x \<in> set xs \<Longrightarrow> plain_elem x"
  shows "join_with ''/'' xs \<noteq> []" "hd (join_with ''/'' xs) \<noteq> CHR ''/''"
proof -
  obtain x ys where xs: "xs = x # ys"
    using assms(1) by (cases xs) auto
  have "x \<noteq> []" "CHR ''/'' \<notin> set x"
    using assms(2) [of x] by (simp_all add: xs plain_elem_def)
  then show "join_with ''/'' xs \<noteq> []" "hd (join_with ''/'' xs) \<noteq> CHR ''/''"
    using hd_in_set [of x] by (cases ys; auto simp: xs)+
qed

lemma split_on_snoc: "d \<notin> set n \<Longrightarrow> split_on d (s @ d # n) = split_on d s @ [n]"
proof (induction s)
  case (Cons c s)
  then show ?case
    by (cases "split_on d s") auto
qed (simp add: split_on_plain)

lemma path_clean_idem [simp]: "path_clean (path_clean p) = path_clean p"
proof -
  let ?r = "p \<noteq> [] \<and> hd p = CHR ''/''"
  let ?xs = "path_elems p"
  have plain: "plain_elem x" if "x \<in> set ?xs" for x
    using stack_ok_elems [OF path_elems_ok [of p]] that by simp
  have again: "rev (foldl (clean_elem ?r) [] ?xs) = ?xs"
    using clean_stack [OF path_elems_ok [of p]] by simp
  show ?thesis
  proof (cases "?xs = []")
    case True
    then show ?thesis
      by (simp add: path_clean_def [of p]) (simp add: path_clean_def path_elems_def clean_elem_def)
  next
    case False
    then have split: "split_on (CHR ''/'') (join_with ''/'' ?xs) = ?xs"
      using plain by (intro split_join_with) (auto simp: plain_elem_def)
    note joined = join_plain [OF False plain]
    show ?thesis
    proof (cases ?r)
      case True
      then show ?thesis
        using split again joined(1) by (simp add: path_clean_def path_elems_def [of "CHR ''/'' # _"] clean_elem_def [of True "[]" "[]"])
    next
      case r: False
      then have "path_clean p = join_with ''/'' ?xs"
        using joined(1) by (auto simp: path_clean_def)
      moreover have "path_elems (join_with ''/'' ?xs) = ?xs"
        using split again joined(2) r unfolding path_elems_def [of "join_with ''/'' ?xs"] by simp
      ultimately show ?thesis
        using joined by (simp add: path_clean_def [of "join_with ''/'' ?xs"])
    qed
  qed
qed

text \<open>Different names in one directory are different paths.\<close>

lemma last_elem:
  assumes "plain_elem n" "n \<noteq> ''..''"
  shows "takeWhile (\<lambda>c. c \<noteq> CHR ''/'') (rev (path_clean (dir @ ''/'' @ n))) = rev n"
proof -
  let ?p = "dir @ ''/'' @ n"
  have "\<exists>xs. path_elems ?p = xs @ [n]"
    using assms by (auto simp: path_elems_def split_on_snoc plain_elem_def clean_elem_def)
  then obtain xs where xs: "path_elems ?p = xs @ [n]"
    by blast
  then have "\<exists>s. rev (path_clean ?p) = rev n @ s \<and> (s = [] \<or> hd s = CHR ''/'')"
    using assms(1) join_with_snoc [of xs "''/''" n] by (cases "xs = []") (auto simp: path_clean_def plain_elem_def Let_def)
  then obtain s where s: "rev (path_clean ?p) = rev n @ s" "s = [] \<or> hd s = CHR ''/''"
    by blast
  have "takeWhile (\<lambda>c. c \<noteq> CHR ''/'') (rev n @ s) = rev n @ takeWhile (\<lambda>c. c \<noteq> CHR ''/'') s"
    using assms(1) by (intro takeWhile_append2) (auto simp: plain_elem_def)
  then show ?thesis
    using s by (cases s) auto
qed

lemma names_apart:
  assumes "plain_elem m" "m \<noteq> ''..''" "plain_elem n" "n \<noteq> ''..''" "m \<noteq> n"
  shows "path_clean (dir @ ''/'' @ m) \<noteq> path_clean (dir @ ''/'' @ n)"
  using last_elem [OF assms(1,2), of dir] last_elem [OF assms(3,4), of dir] assms(5) by auto

lemma filepath_join_two: "dir \<noteq> [] \<Longrightarrow> filepath_join [dir, n] = path_clean (dir @ ''/'' @ n)"
  by (simp add: filepath_join_def)

subsection \<open>Files\<close>

record stored =
  content :: bytes
  mode :: nat

record disk =
  files :: "string \<Rightarrow> stored option"
  dirs :: "string \<Rightarrow> nat option"

text \<open>The permissions \<^verbatim>\<open>0o700\<close> and \<^verbatim>\<open>0o600\<close>.\<close>

definition owner_rwx :: nat where "owner_rwx = 7 * 64"
definition owner_rw :: nat where "owner_rw = 6 * 64"

text \<open>\<^verbatim>\<open>os.MkdirAll\<close> makes a directory and its missing parents. A path names what its cleaned form names (no symbolic links).
  Directories that a failing call has made before it failed are not kept.\<close>

definition ancestor :: "string \<Rightarrow> string \<Rightarrow> bool" where
  "ancestor q p \<longleftrightarrow> q = p \<or> take (length q + 1) p = q @ ''/'' \<or> (q = ''/'' \<and> p \<noteq> [] \<and> hd p = CHR ''/'')"

definition MkdirAll :: "string \<Rightarrow> nat \<Rightarrow> disk \<Rightarrow> disk" where
  "MkdirAll p perm d =
     d\<lparr>dirs := \<lambda>q. if dirs d q = None \<and> ancestor q (path_clean p) then Some perm else dirs d q\<rparr>"

text \<open>\<^verbatim>\<open>os.WriteFile\<close>: it may fail to open the file, or after having truncated it and written part of the data. A file that
  exists keeps its mode.\<close>

datatype write_answer = Written | NotOpened string | Partly nat string

fun write_error :: "write_answer \<Rightarrow> string option" where
  "write_error Written = None"
| "write_error (NotOpened e) = Some e"
| "write_error (Partly _ e) = Some e"

definition put_file :: "string \<Rightarrow> bytes \<Rightarrow> nat \<Rightarrow> disk \<Rightarrow> disk" where
  "put_file p data perm d =
     d\<lparr>files := (files d)(path_clean p \<mapsto>
       \<lparr>content = data, mode = (case files d (path_clean p) of Some f \<Rightarrow> mode f | None \<Rightarrow> perm)\<rparr>)\<rparr>"

fun WriteFile :: "write_answer \<Rightarrow> string \<Rightarrow> bytes \<Rightarrow> nat \<Rightarrow> disk \<Rightarrow> disk" where
  "WriteFile Written p data perm d = put_file p data perm d"
| "WriteFile (NotOpened _) p data perm d = d"
| "WriteFile (Partly n _) p data perm d = put_file p (take n data) perm d"

definition ReadFile :: "disk \<Rightarrow> string \<Rightarrow> string + bytes" where
  "ReadFile d p = (case files d (path_clean p) of None \<Rightarrow> Inl ''no such file or directory'' | Some f \<Rightarrow> Inr (content f))"

subsection \<open>PEM\<close>

text \<open>\<^verbatim>\<open>pem.EncodeToMemory\<close> of a block without headers: lines of 64 digits.\<close>

fun line_break :: "nat \<Rightarrow> string \<Rightarrow> string" where
  "line_break n [] = []"
| "line_break n (c # cs) = take (Suc n) (c # cs) @ [CHR 0x0A] @ line_break n (drop n cs)"

definition pem_encode :: "string \<Rightarrow> bytes \<Rightarrow> string" where
  "pem_encode label der = ''-----BEGIN '' @ label @ ''-----'' @ [CHR 0x0A]
     @ line_break 63 (b64_encode std_alphabet True der) @ ''-----END '' @ label @ ''-----'' @ [CHR 0x0A]"

subsection \<open>The self-signed certificate\<close>

record template =
  SerialNumber :: int
  CommonName :: string
  NotBefore :: int
  NotAfter :: int
  KeyUsage :: nat
  ExtKeyUsage :: "nat list"
  DNSNames :: "string list"
  IPAddresses :: "bytes option list"

definition Hour :: int where "Hour = 3600 * 10 ^ 9"
definition KeyUsageDigitalSignature :: nat where "KeyUsageDigitalSignature = 1"
definition KeyUsageKeyEncipherment :: nat where "KeyUsageKeyEncipherment = 4"
definition ExtKeyUsageServerAuth :: nat where "ExtKeyUsageServerAuth = 1"

text \<open>Times are nanoseconds of the Unix clock, which is read three times.\<close>

definition selfcert_template :: "string \<Rightarrow> int \<Rightarrow> int \<Rightarrow> int \<Rightarrow> template" where
  "selfcert_template cn now1 now2 now3 =
     \<lparr>SerialNumber = now1, CommonName = cn, NotBefore = now2 - Hour, NotAfter = now3 + 365 * 24 * Hour,
      KeyUsage = KeyUsageDigitalSignature OR KeyUsageKeyEncipherment, ExtKeyUsage = [ExtKeyUsageServerAuth],
      DNSNames = [cn, ''localhost''], IPAddresses = [parse_ip ''127.0.0.1'', parse_ip ''::1'']\<rparr>"

text \<open>\<open>generated\<close> is \<^verbatim>\<open>ecdsa.GenerateKey\<close>, \<open>create\<close> is \<^verbatim>\<open>x509.CreateCertificate\<close> with the template as its own parent,
  \<open>marshal\<close> is \<^verbatim>\<open>x509.MarshalECPrivateKey\<close>. The result is an error or the line printed, and the disk.\<close>

definition selfcert ::
  "string \<Rightarrow> string \<Rightarrow> string + 'k \<Rightarrow> (template \<Rightarrow> 'k \<Rightarrow> string + bytes) \<Rightarrow> ('k \<Rightarrow> bytes) \<Rightarrow> int \<times> int \<times> int
     \<Rightarrow> string option \<Rightarrow> write_answer \<Rightarrow> write_answer \<Rightarrow> disk \<Rightarrow> (string + string) \<times> disk" where
  "selfcert dir cn generated create marshal clock mkdir write_cert write_key d =
     (case generated of
        Inl e \<Rightarrow> (Inl e, d)
      | Inr priv \<Rightarrow>
     (case create (case clock of (t1, t2, t3) \<Rightarrow> selfcert_template cn t1 t2 t3) priv of
        Inl e \<Rightarrow> (Inl e, d)
      | Inr der \<Rightarrow>
     (case mkdir of
        Some e \<Rightarrow> (Inl e, d)
      | None \<Rightarrow>
        let d1 = MkdirAll dir owner_rwx d;
            cb = bytes_of (pem_encode ''CERTIFICATE'' der);
            kb = bytes_of (pem_encode ''EC PRIVATE KEY'' (marshal priv));
            d2 = WriteFile write_cert (filepath_join [dir, ''cert.pem'']) cb owner_rw d1
        in (case write_error write_cert of
              Some e \<Rightarrow> (Inl e, d2)
            | None \<Rightarrow>
              let d3 = WriteFile write_key (filepath_join [dir, ''key.pem'']) kb owner_rw d2
              in (case write_error write_key of
                    Some e \<Rightarrow> (Inl e, d3)
                  | None \<Rightarrow> (Inr (''wrote '' @ dir @ ''/cert.pem and '' @ dir @ ''/key.pem (CN='' @ cn @ '')''), d3))))))"

subsection \<open>The commands on a disk\<close>

text \<open>\<open>keygen\<close> with what it leaves on the disk.\<close>

definition keygen_on_disk ::
  "string \<Rightarrow> int \<Rightarrow> string \<Rightarrow> string \<Rightarrow> string + dh_key \<Rightarrow> string \<Rightarrow> string option \<Rightarrow> write_answer \<Rightarrow> disk
     \<Rightarrow> (string + (string \<times> string \<times> string option)) \<times> disk" where
  "keygen_on_disk pub_host port decoy outDir generated uid mkdir answer d =
     (keygen pub_host port decoy outDir generated uid mkdir (write_error answer),
      case generated of
        Inl _ \<Rightarrow> d
      | Inr static \<Rightarrow>
          if outDir \<noteq> [] \<and> mkdir = None then
            WriteFile answer (filepath_join [outDir, ''server.yaml''])
              (bytes_of (keygen_body port decoy outDir (raw_std_encode (Private static)) uid)) owner_rw (MkdirAll outDir owner_rwx d)
          else d)"

text \<open>\<^verbatim>\<open>tls.LoadX509KeyPair\<close> reads both files; \<open>key_pair\<close> is \<^verbatim>\<open>tls.X509KeyPair\<close>.\<close>

definition load_pair :: "(bytes \<Rightarrow> bytes \<Rightarrow> string + bytes list) \<Rightarrow> disk \<Rightarrow> string \<Rightarrow> string \<Rightarrow> string + bytes list" where
  "load_pair key_pair d cert key =
     (case ReadFile d cert of
        Inl e \<Rightarrow> Inl e
      | Inr cb \<Rightarrow> (case ReadFile d key of Inl e \<Rightarrow> Inl e | Inr kb \<Rightarrow> key_pair cb kb))"

definition run_on_disk ::
  "(string \<Rightarrow> string + server_yaml) \<Rightarrow> (bytes \<Rightarrow> bytes \<Rightarrow> string + bytes list) \<Rightarrow> (bytes \<Rightarrow> string + bytes)
     \<Rightarrow> (string \<Rightarrow> string option) \<Rightarrow> (string \<Rightarrow> string option) \<Rightarrow> string \<Rightarrow> disk \<Rightarrow> run_err + running" where
  "run_on_disk yaml key_pair base_mult listen_udp listen_tcp configPath d =
     server_run yaml (map_sum id string_of (ReadFile d configPath)) (load_pair key_pair d) base_mult listen_udp listen_tcp"

subsection \<open>What the disk holds\<close>

lemma ReadFile_put: "ReadFile (put_file p data perm d) q = (if path_clean q = path_clean p then Inr data else ReadFile d q)"
  by (simp add: ReadFile_def put_file_def)

lemma ReadFile_MkdirAll [simp]: "ReadFile (MkdirAll p perm d) q = ReadFile d q"
  by (simp add: ReadFile_def MkdirAll_def)

lemma files_MkdirAll [simp]: "files (MkdirAll p perm d) = files d"
  by (simp add: MkdirAll_def)

lemma setup_names:
  "plain_elem ''server.yaml''" "plain_elem ''cert.pem''" "plain_elem ''key.pem''"
  by (simp_all add: plain_elem_def)

text \<open>The three files of an installation are different.\<close>

lemma setup_apart:
  "path_clean (dir @ ''/server.yaml'') \<noteq> path_clean (dir @ ''/cert.pem'')"
  "path_clean (dir @ ''/server.yaml'') \<noteq> path_clean (dir @ ''/key.pem'')"
  "path_clean (dir @ ''/cert.pem'') \<noteq> path_clean (dir @ ''/key.pem'')"
  using names_apart [OF setup_names(1) _ setup_names(2), of dir] names_apart [OF setup_names(1) _ setup_names(3), of dir]
    names_apart [OF setup_names(2) _ setup_names(3), of dir] by simp_all

lemma selfcert_ok:
  assumes "selfcert dir cn generated create marshal clock mkdir write_cert write_key d = (Inr line, d')"
  obtains priv der where "generated = Inr priv" "create (case clock of (t1, t2, t3) \<Rightarrow> selfcert_template cn t1 t2 t3) priv = Inr der"
    "mkdir = None" "write_cert = Written" "write_key = Written"
    "d' = put_file (filepath_join [dir, ''key.pem'']) (bytes_of (pem_encode ''EC PRIVATE KEY'' (marshal priv))) owner_rw
      (put_file (filepath_join [dir, ''cert.pem'']) (bytes_of (pem_encode ''CERTIFICATE'' der)) owner_rw (MkdirAll dir owner_rwx d))"
  using assms by (cases write_cert; cases write_key) (auto simp: selfcert_def Let_def split: sum.splits option.splits)

text \<open>An installation with one directory for all files, as the commands do it.\<close>

lemma installed:
  assumes "length (Private static) = 32" "base_mult (Private static) = Inr (Public static)" "length (Public static) = 32"
    and "printable_host pub_host" "0 \<le> port" "port < 2 ^ 63" "outDir \<noteq> []"
    and "keygen_on_disk pub_host port decoy outDir (Inr static) (genUUID random now) None Written d = (Inr (uri, pub_line, written), d1)"
    and "selfcert outDir cn (Inr priv) create marshal (t1, t2, t3) None Written Written d1 = (Inr line, d2)"
    and "yaml (keygen_body port decoy outDir (raw_std_encode (Private static)) (genUUID random now))
      = Inr (keygen_fields port decoy outDir (raw_std_encode (Private static)) (genUUID random now))"
    and "\<forall>t der. create t priv = Inr der \<longrightarrow>
      key_pair (bytes_of (pem_encode ''CERTIFICATE'' der)) (bytes_of (pem_encode ''EC PRIVATE KEY'' (marshal priv))) = Inr [der]"
    and "listen_udp ('':'' @ itoa_int port) = None" "listen_tcp ('':'' @ itoa_int port) = None"
    and "\<And>cfg. quic_dial cfg = None"
  shows "\<exists>der srv q t c. run_on_disk yaml key_pair base_mult listen_udp listen_tcp (filepath_join [outDir, ''server.yaml'']) d2 = Inr srv
    \<and> create (selfcert_template cn t1 t2 t3) priv = Inr der
    \<and> listeners srv = [QuicListener q, TcpListener t] \<and> sCert q = Some [der]
    \<and> client_setup quic_dial uri ''tcp'' insecure = Inr (TcpDialer c, \<lparr>uuid = genUUID random now\<rparr>)
    \<and> client_setup quic_dial uri ''quic'' insecure = Inr (QuicDialer c, \<lparr>uuid = genUUID random now\<rparr>)
    \<and> Addr c = join_host_port pub_host (itoa_int port)
    \<and> ServerStaticPub c = Public (sStatic q) \<and> CPrologue c = sPrologue q
    \<and> ServerStaticPub c = Public (NoiseStatic t) \<and> CPrologue c = NoisePrologue t
    \<and> genUUID random now \<in> set (acceptedUUIDs (tunnel srv)) \<and> isMagicSNI t (SNI c)
    \<and> SNI c = decoy \<and> InsecureSkipVerify c = insecure"
proof -
  let ?uid = "genUUID random now"
  let ?body = "keygen_body port decoy outDir (raw_std_encode (Private static)) ?uid"
  have keygen: "keygen pub_host port decoy outDir (Inr static) ?uid None None = Inr (uri, pub_line, written)"
    and d1: "d1 = put_file (filepath_join [outDir, ''server.yaml'']) (bytes_of ?body) owner_rw (MkdirAll outDir owner_rwx d)"
    using assms(7,8) by (simp_all add: keygen_on_disk_def)
  obtain der where der: "key_pair (bytes_of (pem_encode ''CERTIFICATE'' der)) (bytes_of (pem_encode ''EC PRIVATE KEY'' (marshal priv))) = Inr [der]"
    and d2: "d2 = put_file (filepath_join [outDir, ''key.pem'']) (bytes_of (pem_encode ''EC PRIVATE KEY'' (marshal priv))) owner_rw
      (put_file (filepath_join [outDir, ''cert.pem'']) (bytes_of (pem_encode ''CERTIFICATE'' der)) owner_rw (MkdirAll outDir owner_rwx d1))"
    and made: "create (selfcert_template cn t1 t2 t3) priv = Inr der"
    using assms(9,11) by (elim selfcert_ok) auto
  have config: "map_sum id string_of (ReadFile d2 (filepath_join [outDir, ''server.yaml''])) = Inr ?body"
    using assms(7) setup_apart [of outDir] by (simp add: d1 d2 ReadFile_put filepath_join_two)
  have cert: "load_pair key_pair d2 (outDir @ ''/cert.pem'') (outDir @ ''/key.pem'') = Inr [der]"
    using assms(7) setup_apart [of outDir] der by (simp add: load_pair_def d2 ReadFile_put filepath_join_two)
  note client = client_setup_keygen [OF assms(3-6) genUUID_nonempty keygen assms(14) refl]
  show ?thesis
    unfolding run_on_disk_def config
    using client made server_run_keygen [where load_cert = "load_pair key_pair d2" and base_mult = base_mult and yaml = yaml and static = static
        and uid = ?uid and body = ?body and port = port and decoy = decoy and outDir = outDir and listen_udp = listen_udp and listen_tcp = listen_tcp,
        OF assms(1,2) genUUID_nonempty assms(10) cert assms(12,13)]
    by (simp add: isMagicSNI_def)
qed

lemma installed_modes:
  assumes "keygen_on_disk pub_host port decoy outDir (Inr static) uid None Written d = (r, d1)" "outDir \<noteq> []"
    and "selfcert outDir cn generated create marshal clock mkdir write_cert write_key d1 = (Inr line, d2)"
    and "p \<in> {''/server.yaml'', ''/cert.pem'', ''/key.pem''}" "files d (path_clean (outDir @ p)) = None"
  shows "\<exists>data. files d2 (path_clean (outDir @ p)) = Some \<lparr>content = data, mode = owner_rw\<rparr>"
proof (rule selfcert_ok [OF assms(3)])
  fix priv der
  assume d2: "d2 = put_file (filepath_join [outDir, ''key.pem'']) (bytes_of (pem_encode ''EC PRIVATE KEY'' (marshal priv))) owner_rw
      (put_file (filepath_join [outDir, ''cert.pem'']) (bytes_of (pem_encode ''CERTIFICATE'' der)) owner_rw (MkdirAll outDir owner_rwx d1))"
  have d1: "files d1 = (files (put_file (filepath_join [outDir, ''server.yaml'']) body owner_rw d))"
    if "body = bytes_of (keygen_body port decoy outDir (raw_std_encode (Private static)) uid)" for body
    using assms(1,2) that by (auto simp: keygen_on_disk_def put_file_def)
  show ?thesis
    using assms(4,5) setup_apart [of outDir] setup_apart [of outDir, symmetric]
    by (elim insertE emptyE) (simp_all add: d2 put_file_def d1 [OF refl] filepath_join_two [OF assms(2)])
qed

subsection \<open>Properties\<close>

text \<open>C36. How \<open>selfcert\<close> ends, for every answer of the libraries and the disk: no file other than \<^verbatim>\<open>cert.pem\<close> and
  \<^verbatim>\<open>key.pem\<close> of the directory changes; on success the two hold the certificate and the key it was made for; on an
  error of a library or of the directory nothing has changed; when the certificate cannot be written the old key stays;
  and when the key cannot be written the new certificate is already in place, so that a pair that served before no
  longer matches.\<close>

theorem selfcert_outcome:
  assumes "selfcert dir cn generated create marshal (t1, t2, t3) mkdir write_cert write_key d = (r, d')" "dir \<noteq> []"
  shows "(\<forall>p. path_clean p \<noteq> path_clean (dir @ ''/cert.pem'') \<and> path_clean p \<noteq> path_clean (dir @ ''/key.pem'') \<longrightarrow> ReadFile d' p = ReadFile d p)
    \<and> (case generated of Inl e \<Rightarrow> r = Inl e \<and> files d' = files d
     | Inr priv \<Rightarrow>
    (case create (selfcert_template cn t1 t2 t3) priv of Inl e \<Rightarrow> r = Inl e \<and> files d' = files d
     | Inr der \<Rightarrow>
    (case mkdir of Some e \<Rightarrow> r = Inl e \<and> files d' = files d
     | None \<Rightarrow>
    (case write_error write_cert of
       Some e \<Rightarrow> r = Inl e \<and> ReadFile d' (dir @ ''/key.pem'') = ReadFile d (dir @ ''/key.pem'')
     | None \<Rightarrow> ReadFile d' (dir @ ''/cert.pem'') = Inr (bytes_of (pem_encode ''CERTIFICATE'' der))
         \<and> (case write_error write_key of
              Some e \<Rightarrow> r = Inl e \<and> (\<forall>msg. write_key = NotOpened msg \<longrightarrow> ReadFile d' (dir @ ''/key.pem'') = ReadFile d (dir @ ''/key.pem''))
            | None \<Rightarrow> (\<exists>line. r = Inr line)
                \<and> ReadFile d' (dir @ ''/key.pem'') = Inr (bytes_of (pem_encode ''EC PRIVATE KEY'' (marshal priv))))))))"
  using assms setup_apart [of dir]
  by (cases write_cert; cases write_key;
      auto simp: selfcert_def Let_def ReadFile_put filepath_join_two split: sum.splits option.splits)+

text \<open>A renewal that cannot write the key over an old one.\<close>

definition sample_old :: disk where
  "sample_old = \<lparr>files = [''/etc/a/key.pem'' \<mapsto> \<lparr>content = [7], mode = owner_rw\<rparr>], dirs = [''/etc/a'' \<mapsto> owner_rwx]\<rparr>"

theorem selfcert_outcome_witness:
  "\<exists>d'. selfcert ''/etc/a'' ''h'' (Inr ()) (\<lambda>_ _. Inr [1, 2]) (\<lambda>_. [3]) (0, 0, 0) None Written (NotOpened ''denied'') sample_old = (Inl ''denied'', d')
    \<and> ReadFile d' ''/etc/a/cert.pem'' = Inr (bytes_of (pem_encode ''CERTIFICATE'' [1, 2]))
    \<and> ReadFile d' ''/etc/a/key.pem'' = Inr [7]"
proof -
  obtain r d' where s: "selfcert ''/etc/a'' ''h'' (Inr ()) (\<lambda>_ _. Inr [1, 2]) (\<lambda>_. [3]) (0, 0, 0) None Written (NotOpened ''denied'') sample_old = (r, d')"
    by fastforce
  have "path_clean ''/etc/a/key.pem'' = ''/etc/a/key.pem''"
    by code_simp
  then have old: "ReadFile sample_old ''/etc/a/key.pem'' = Inr [7]"
    by (simp add: ReadFile_def sample_old_def)
  show ?thesis
    using selfcert_outcome [OF s] s old by simp
qed

end
