(* ===== verification/Socks.thy ===== *)
theory Socks
  imports Tunnel
begin

text \<open>
  The local SOCKS5 server of the client command, \<^verbatim>\<open>handleSOCKS\<close> in
  \<^verbatim>\<open>cmd/avangard-client/main.go\<close>: greeting, CONNECT request, a tunnel for the destination, and the
  splice of the two. \<open>None\<close> is a handler that never returns; the result is how it ended and the
  state of the local client's receiving side. Both connections are closed by \<^verbatim>\<open>defer\<close> at the end.
\<close>

datatype 'w socks_end =
    Dropped
  | CmdRefused
  | DialRefused string tunnel_err
  | Tunnelled string 'w

datatype socks_err = SocksRead io_err | SocksVersion | SocksCmd | SocksAtyp

definition socks_ok :: bytes where "socks_ok = [5, 0, 0, 1, 0, 0, 0, 0, 0, 0]"
definition socks_bad_cmd :: bytes where "socks_bad_cmd = [5, 7, 0, 1, 0, 0, 0, 0, 0, 0]"
definition socks_dial_failed :: bytes where "socks_dial_failed = [5, 5, 0, 1, 0, 0, 0, 0, 0, 0]"

definition read_greeting :: "'s reader \<Rightarrow> ('s, socks_err, unit) io" where
  "read_greeting rd =
     io_bind (read_n rd SocksRead 2) (\<lambda>b.
       if b ! 0 \<noteq> 5 then io_throw SocksVersion
       else io_bind (read_n rd SocksRead (unat (b ! 1))) (\<lambda>_. io_ret ()))"

text \<open>The destination of a CONNECT request; its version byte and reserved byte are not looked at.\<close>

definition read_host :: "'s reader \<Rightarrow> byte \<Rightarrow> ('s, socks_err, string) io" where
  "read_host rd atyp =
     (if atyp = 1 then io_bind (read_n rd SocksRead 4) (\<lambda>a. io_ret (ip_string a))
      else if atyp = 3 then
        io_bind (read_n rd SocksRead 1) (\<lambda>l.
          io_bind (read_n rd SocksRead (unat (l ! 0))) (\<lambda>h. io_ret (string_of h)))
      else if atyp = 4 then io_bind (read_n rd SocksRead 16) (\<lambda>a. io_ret (ip_string a))
      else io_throw SocksAtyp)"

definition read_request :: "'s reader \<Rightarrow> ('s, socks_err, string) io" where
  "read_request rd =
     io_bind (read_n rd SocksRead 4) (\<lambda>b.
       if b ! 1 \<noteq> 1 then io_throw SocksCmd
       else io_bind (read_host rd (b ! 3)) (\<lambda>host.
              io_bind (read_n rd SocksRead 2) (\<lambda>p.
                io_ret (join_host_port host (itoa_nat (unat (uint16 p)))))))"

definition handleSOCKS ::
  "tunnel_client \<Rightarrow> 's reader \<Rightarrow> 'w writer \<Rightarrow> io_err + ('s, 'w) tstream \<Rightarrow> ('s, 'w) duplex
     \<Rightarrow> ('w socks_end \<times> 'w) option" where
  "handleSOCKS tc rd wr dialer c =
     (case read_greeting rd (rx c) of
        None \<Rightarrow> None
      | Some (Inl _, _) \<Rightarrow> Some (Dropped, tx c)
      | Some (Inr _, s1) \<Rightarrow>
     (case wr [5, 0] (tx c) of
        (Some _, w1) \<Rightarrow> Some (Dropped, w1)
      | (None, w1) \<Rightarrow>
     (case read_request rd s1 of
        None \<Rightarrow> None
      | Some (Inl SocksCmd, _) \<Rightarrow> Some (CmdRefused, snd (wr socks_bad_cmd w1))
      | Some (Inl _, _) \<Rightarrow> Some (Dropped, w1)
      | Some (Inr dest, s2) \<Rightarrow>
     (case fst (DialTunnel tc wr dialer dest) of
        Inl e \<Rightarrow> Some (DialRefused dest e, snd (wr socks_dial_failed w1))
      | Inr upstream \<Rightarrow>
          Option.bind (io_copy rd wr s2 (tx upstream)) (\<lambda>(_, _, up).
            map_option (\<lambda>(_, _, down). (Tunnelled dest up, down))
              (io_copy rd wr (rx upstream) (snd (wr socks_ok w1))))))))"

subsection \<open>The dialogue on byte streams\<close>

definition parse_greeting :: "(socks_err, unit) parser" where
  "parse_greeting =
     st_bind (stream_n SocksRead 2) (\<lambda>b.
       if b ! 0 \<noteq> 5 then st_throw SocksVersion
       else st_bind (stream_n SocksRead (unat (b ! 1))) (\<lambda>_. st_ret ()))"

definition parse_host :: "byte \<Rightarrow> (socks_err, string) parser" where
  "parse_host atyp =
     (if atyp = 1 then st_bind (stream_n SocksRead 4) (\<lambda>a. st_ret (ip_string a))
      else if atyp = 3 then
        st_bind (stream_n SocksRead 1) (\<lambda>l.
          st_bind (stream_n SocksRead (unat (l ! 0))) (\<lambda>h. st_ret (string_of h)))
      else if atyp = 4 then st_bind (stream_n SocksRead 16) (\<lambda>a. st_ret (ip_string a))
      else st_throw SocksAtyp)"

definition parse_request :: "(socks_err, string) parser" where
  "parse_request =
     st_bind (stream_n SocksRead 4) (\<lambda>b.
       if b ! 1 \<noteq> 1 then st_throw SocksCmd
       else st_bind (parse_host (b ! 3)) (\<lambda>host.
              st_bind (stream_n SocksRead 2) (\<lambda>p.
                st_ret (join_host_port host (itoa_nat (unat (uint16 p)))))))"

context byte_source
begin

lemma greeting_refines: "refines (read_greeting rd) parse_greeting"
  unfolding read_greeting_def parse_greeting_def by (intro refines_intros)

lemma host_refines [refines_intros]: "refines (read_host rd atyp) (parse_host atyp)"
  unfolding read_host_def parse_host_def by (intro refines_intros)

lemma request_refines: "refines (read_request rd) parse_request"
  unfolding read_request_def parse_request_def by (intro refines_intros)

end

text \<open>A client's request as RFC 1928 writes it: the address with its type, and the host it names.\<close>

datatype socks_addr = V4 bytes | Name string | V6 bytes

fun addr_ok :: "socks_addr \<Rightarrow> bool" where
  "addr_ok (V4 b) \<longleftrightarrow> length b = 4"
| "addr_ok (Name n) \<longleftrightarrow> length n \<le> 255"
| "addr_ok (V6 b) \<longleftrightarrow> length b = 16"

fun addr_bytes :: "socks_addr \<Rightarrow> bytes" where
  "addr_bytes (V4 b) = 1 # b"
| "addr_bytes (Name n) = 3 # word_of_nat (length n) # bytes_of n"
| "addr_bytes (V6 b) = 4 # b"

fun addr_host :: "socks_addr \<Rightarrow> string" where
  "addr_host (V4 b) = ip_string b"
| "addr_host (Name n) = n"
| "addr_host (V6 b) = ip_string b"

definition connect_bytes :: "bytes \<Rightarrow> socks_addr \<Rightarrow> u16 \<Rightarrow> bytes" where
  "connect_bytes methods a port =
     [5, word_of_nat (length methods)] @ methods @ [5, 1, 0] @ addr_bytes a @ be16 port"

lemma parse_greeting_ok:
  assumes "length methods \<le> 255"
  shows "parse_greeting ([5, word_of_nat (length methods)] @ methods @ rest, e) = (Inr (), (rest, e))"
  using assms by (simp add: parse_greeting_def st_bind_def stream_n_eq st_ret_def unat_of_nat)

lemma parse_request_ok:
  assumes "addr_ok a"
  shows "parse_request ([5, 1, 0] @ addr_bytes a @ be16 port @ rest, e)
    = (Inr (join_host_port (addr_host a) (itoa_nat (unat port))), (rest, e))"
proof (cases a)
  case (Name n)
  then have "length n \<le> 255"
    using assms by simp
  then show ?thesis
    using Name by (simp add: parse_request_def parse_host_def st_bind_def stream_n_eq st_ret_def unat_of_nat)
qed (use assms in \<open>simp_all add: parse_request_def parse_host_def st_bind_def stream_n_eq st_ret_def\<close>)

lemma greeting_conn:
  "\<exists>r c'. read_greeting seg_read c = Some (r, c') \<and> parse_greeting (conn_content c, snd c) = (r, (conn_content c', snd c'))"
  using sock.greeting_refines unfolding sock.refines_def sock.view_def by blast

lemma request_conn:
  "\<exists>r c'. read_request seg_read c = Some (r, c') \<and> parse_request (conn_content c, snd c) = (r, (conn_content c', snd c'))"
  using sock.request_refines unfolding sock.refines_def sock.view_def by blast

lemma addr_host_length: "addr_ok a \<Longrightarrow> length (addr_host a) \<le> 255"
  using ip_string_text(3) by (cases a) fastforce+

text \<open>A request for which the tunnel opens.\<close>

lemma socks_tunnel:
  assumes "addr_ok a" "length methods \<le> 255" "concat segs = connect_bytes methods a port @ payload"
    and "CHR ''['' \<notin> set (addr_host a)" "CHR '']'' \<notin> set (addr_host a)"
    and "DialTunnel tc peer_write (Inr ts) (join_host_port (addr_host a) (itoa_nat (unat port))) = (Inr (ts\<lparr>tx := (out, None)\<rparr>), False)"
  shows "handleSOCKS tc seg_read peer_write (Inr ts) \<lparr>rx = (segs, e), tx = ([], None)\<rparr>
      = Some (Tunnelled (join_host_port (addr_host a) (itoa_nat (unat port))) (out @ payload, None),
              ([5, 0] @ socks_ok @ conn_content (rx ts), None))"
proof -
  let ?dest = "join_host_port (addr_host a) (itoa_nat (unat port))"
  obtain r1 c1 where g: "read_greeting seg_read (segs, e) = Some (r1, c1)"
    "parse_greeting (concat segs, e) = (r1, (conn_content c1, snd c1))"
    using greeting_conn [of "(segs, e)"] by (auto simp: conn_content_def)
  have c1: "r1 = Inr ()" "conn_content c1 = [5, 1, 0] @ addr_bytes a @ be16 port @ payload" "snd c1 = e"
    using g(2) parse_greeting_ok [OF assms(2), of "[5, 1, 0] @ addr_bytes a @ be16 port @ payload" e]
    by (simp_all add: assms(3) connect_bytes_def)
  obtain r2 c2 where q: "read_request seg_read c1 = Some (r2, c2)"
    "parse_request (conn_content c1, snd c1) = (r2, (conn_content c2, snd c2))"
    using request_conn by blast
  have c2: "r2 = Inr ?dest" "conn_content c2 = payload"
    using q(2) parse_request_ok [OF assms(1), of port payload e] by (simp_all add: c1)
  obtain e1 s1 where up: "io_copy seg_read peer_write c2 (out, None) = Some (e1, s1, (out @ payload, None))"
    using sock.io_copy_open [of c2 out] c2(2) by auto
  obtain e2 s2 where down: "io_copy seg_read peer_write (rx ts) ([5, 0] @ socks_ok, None)
      = Some (e2, s2, (([5, 0] @ socks_ok) @ conn_content (rx ts), None))"
    using sock.io_copy_open by blast
  show ?thesis
    using g(1) c1(1) q(1) c2(1) assms(6) up down by (simp add: handleSOCKS_def)
qed

subsection \<open>Properties\<close>

text \<open>The replies follow the protocol: for every local client that keeps its receiving side open, the
  handler returns, and what it has written is nothing, the method choice alone, the method choice
  and one failure reply, or the method choice, the success reply and then only bytes that came out
  of the tunnel; the last exactly when a tunnel was opened.\<close>

theorem socks_replies:
  "\<exists>r out. handleSOCKS tc seg_read peer_write dialer \<lparr>rx = c, tx = ([], None)\<rparr> = Some (r, (out, None))
     \<and> (case r of
          Dropped \<Rightarrow> out \<in> {[], [5, 0]}
        | CmdRefused \<Rightarrow> out = [5, 0] @ socks_bad_cmd
        | DialRefused dest e \<Rightarrow> out = [5, 0] @ socks_dial_failed \<and> fst (DialTunnel tc peer_write dialer dest) = Inl e
        | Tunnelled dest up \<Rightarrow> \<exists>ts. fst (DialTunnel tc peer_write dialer dest) = Inr ts
            \<and> out = [5, 0] @ socks_ok @ conn_content (rx ts))"
proof -
  obtain r1 c1 where g: "read_greeting seg_read c = Some (r1, c1)"
    using greeting_conn by blast
  obtain r2 c2 where q: "read_request seg_read c1 = Some (r2, c2)"
    using request_conn by blast
  show ?thesis
  proof (cases r1)
    case (Inl e)
    then show ?thesis
      using g by (simp add: handleSOCKS_def)
  next
    case ok: (Inr u)
    show ?thesis
    proof (cases r2)
      case (Inl e)
      then show ?thesis
        using g ok q by (cases e) (simp_all add: handleSOCKS_def)
    next
      case (Inr dest)
      show ?thesis
      proof (cases "fst (DialTunnel tc peer_write dialer dest)")
        case (Inl e)
        then show ?thesis
          using g ok q Inr by (simp add: handleSOCKS_def)
      next
        case up: (Inr ts)
        obtain e1 s1 u where "io_copy seg_read peer_write c2 (tx ts) = Some (e1, s1, u)"
          using sock.io_copy_delivered by blast
        moreover obtain e2 s2 where
          "io_copy seg_read peer_write (rx ts) ([5, 0] @ socks_ok, None) = Some (e2, s2, (([5, 0] @ socks_ok) @ conn_content (rx ts), None))"
          using sock.io_copy_open by blast
        ultimately show ?thesis
          using g ok q Inr up by (simp add: handleSOCKS_def)
      qed
    qed
  qed
qed

text \<open>A CONNECT request opens a tunnel to the destination it names: for every method list, address
  and port, in any segmentation and with any bytes sent ahead, when the transport delivers a stream,
  what goes into it is one encoded header whose destination is the requested host and port (IPv6
  in Go's printed form, names that are IP literals as those), with this stream's token, followed by
  the client's bytes.\<close>

theorem socks_connects:
  assumes "addr_ok a" "length methods \<le> 255" "concat segs = connect_bytes methods a port @ payload"
    and "CHR ''['' \<notin> set (addr_host a)" "CHR '']'' \<notin> set (addr_host a)" "addr_host a \<noteq> []"
  shows "\<exists>h out. handleSOCKS tc seg_read peer_write
        (Inr \<lparr>rx = reply, tx = ([], None), Channel = ch\<rparr>) \<lparr>rx = (segs, e), tx = ([], None)\<rparr>
      = Some (Tunnelled (join_host_port (addr_host a) (itoa_nat (unat port))) (out @ payload, None),
              ([5, 0] @ socks_ok @ conn_content reply, None))
    \<and> encode h = Inr out \<and> Cmd h = CmdConnect \<and> TokenHMAC h = DeriveToken (uuid tc) ch
    \<and> Destination h = join_host_port (canon_host (addr_host a)) (itoa_nat (unat port))"
proof -
  let ?dest = "join_host_port (addr_host a) (itoa_nat (unat port))"
  let ?ts = "\<lparr>rx = reply, tx = ([], None), Channel = ch\<rparr>"
  have dest: "split_host_port ?dest = Inr (addr_host a, itoa_nat (unat port))"
    using assms(4,5) by (intro split_join itoa_nat_plain)
  have host: "\<not> (parse_ip (addr_host a) = None \<and> (addr_host a = [] \<or> 255 < length (addr_host a)))"
    using addr_host_length [OF assms(1)] assms(6) by simp
  have digits: "list_all is_digit (itoa_nat (unat port))"
    using itoa_nat_digits by (auto simp: list_all_iff)
  have "unat port mod 65536 = unat port"
    using unat_u16_less [of port] by simp
  then obtain h out where h: "DialTunnel tc peer_write (Inr ?ts) ?dest = (Inr (?ts\<lparr>tx := (out, None)\<rparr>), False)"
    "encode h = Inr out" "Cmd h = CmdConnect" "TokenHMAC h = DeriveToken (uuid tc) ch"
    "Destination h = join_host_port (canon_host (addr_host a)) (itoa_nat (unat port))"
    using DialTunnel_opens [OF dest host digits, of tc reply "[]" ch] by auto
  then show ?thesis
    using socks_tunnel [OF assms(1-5) h(1)] by auto
qed

text \<open>A request for \<^verbatim>\<open>a.b:443\<close> with the payload \<open>[1, 2]\<close> sent ahead.\<close>

theorem socks_connects_witness:
  "\<exists>out. handleSOCKS \<lparr>uuid = sample_uuid\<rparr> seg_read peer_write
        (Inr \<lparr>rx = ([[9]], EOF), tx = ([], None), Channel = [7]\<rparr>)
        \<lparr>rx = ([connect_bytes [0] (Name ''a.b'') 443, [1, 2]], EOF), tx = ([], None)\<rparr>
      = Some (Tunnelled (join_host_port ''a.b'' (itoa_nat 443)) (out @ [1, 2], None), ([5, 0] @ socks_ok @ [9], None))"
  using socks_connects [of "Name ''a.b''" "[0]" "[connect_bytes [0] (Name ''a.b'') 443, [1, 2]]" 443 "[1, 2]"
      "\<lparr>uuid = sample_uuid\<rparr>" "([[9]], EOF)" "[7]" EOF]
  by auto

end
