(* ===== verification/ClientCmds.thy ===== *)
theory ClientCmds
  imports EndToEnd Socks
begin

text \<open>
  The long-running commands of the client, \<^verbatim>\<open>tunnel\<close> and \<^verbatim>\<open>socks5\<close>
  (\<^verbatim>\<open>cmd/avangard-client/main.go\<close>): the set-up from the URI, then one tunnel between standard input and
  output, or an accept loop with one \<open>handleSOCKS\<close> for every local connection. How the transport is dialled (\<open>dial\<close>)
  and what the operating system answers are arguments.
\<close>

subsection \<open>The tunnel command\<close>

datatype tunnel_cmd_err = SetupFailed client_err | NotTunnelled tunnel_err

text \<open>\<open>None\<close> is a command that never returns; otherwise an error, or what the connection and standard output have taken when the
  deferred \<^verbatim>\<open>Close\<close> runs.\<close>

definition tunnel_command ::
  "(client_config \<Rightarrow> string option) \<Rightarrow> (dialer \<Rightarrow> io_err + ('s, 'w) tstream) \<Rightarrow> 's reader \<Rightarrow> 'w writer
     \<Rightarrow> string \<Rightarrow> string \<Rightarrow> string \<Rightarrow> bool \<Rightarrow> 's \<Rightarrow> 'w \<Rightarrow> (tunnel_cmd_err + 'w \<times> 'w) option" where
  "tunnel_command quic_dial dial rd wr arg dest name insecure stdin stdout =
     (case client_setup quic_dial arg name insecure of
        Inl e \<Rightarrow> Some (Inl (SetupFailed e))
      | Inr (d, tc) \<Rightarrow>
     (case fst (DialTunnel tc wr (dial d) dest) of
        Inl e \<Rightarrow> Some (Inl (NotTunnelled e))
      | Inr conn \<Rightarrow>
          Option.bind (io_copy rd wr stdin (tx conn)) (\<lambda>(_, _, up).
            map_option (\<lambda>(_, _, down). Inr (up, down)) (io_copy rd wr (rx conn) stdout))))"

subsection \<open>The SOCKS command\<close>

text \<open>\<^verbatim>\<open>for { c, err := ln.Accept(); ... go handleSOCKS(...) }\<close>: the connections that get a handler, and the error
  that ends the command. The list is what successive \<^verbatim>\<open>Accept\<close> calls return; every error ends the loop.\<close>

fun socks_accepts :: "(string + 'c) list \<Rightarrow> 'c list \<times> string option" where
  "socks_accepts [] = ([], None)"
| "socks_accepts (Inl e # _) = ([], Some e)"
| "socks_accepts (Inr c # rs) = (let (cs, e) = socks_accepts rs in (c # cs, e))"

datatype socks_cmd_end = SocksSetup client_err | SocksListen string | SocksAccept string | SocksRunning

text \<open>The result has, for every accepted connection, how its handler ended; each connection dials the transport on its own.\<close>

definition socks_command ::
  "(client_config \<Rightarrow> string option) \<Rightarrow> (nat \<Rightarrow> dialer \<Rightarrow> io_err + ('s, 'w) tstream) \<Rightarrow> (string \<Rightarrow> string option)
     \<Rightarrow> 's reader \<Rightarrow> 'w writer \<Rightarrow> string \<Rightarrow> string \<Rightarrow> string \<Rightarrow> bool \<Rightarrow> (string + ('s, 'w) duplex) list
     \<Rightarrow> ('w socks_end \<times> 'w) option list \<times> socks_cmd_end" where
  "socks_command quic_dial dial listen rd wr arg addr name insecure accepted =
     (case client_setup quic_dial arg name insecure of
        Inl e \<Rightarrow> ([], SocksSetup e)
      | Inr (d, tc) \<Rightarrow>
     (case listen addr of
        Some e \<Rightarrow> ([], SocksListen e)
      | None \<Rightarrow>
          let (cs, e) = socks_accepts accepted
          in (map (\<lambda>(i, c). handleSOCKS tc rd wr (dial i d) c) (enumerate 0 cs),
              case e of None \<Rightarrow> SocksRunning | Some e \<Rightarrow> SocksAccept e)))"

lemma socks_accepts_prefix:
  "socks_accepts (map Inr cs @ Inl e # rest) = (cs, Some e)" "socks_accepts (map Inr cs) = (cs, None)"
  by (induction cs) simp_all

text \<open>A socks command whose set-up succeeds runs until the first \<^verbatim>\<open>Accept\<close> error, with a handler for every connection before it.\<close>

lemma socks_command_serves:
  assumes "client_setup quic_dial arg name insecure = Inr (d, tc)" "listen addr = None"
  shows "socks_command quic_dial dial listen rd wr arg addr name insecure (map Inr cs @ Inl e # rest)
      = (map (\<lambda>(i, c). handleSOCKS tc rd wr (dial i d) c) (enumerate 0 cs), SocksAccept e)"
    and "socks_command quic_dial dial listen rd wr arg addr name insecure (map Inr cs)
      = (map (\<lambda>(i, c). handleSOCKS tc rd wr (dial i d) c) (enumerate 0 cs), SocksRunning)"
  using assms by (simp_all add: socks_command_def socks_accepts_prefix)

text \<open>The tunnel command puts the request and then standard input into its stream, and what comes back on standard output.\<close>

lemma tunnel_command_pipes:
  assumes "client_setup quic_dial arg name insecure = Inr (d, tc)"
    and "dial d = Inr \<lparr>rx = reply, tx = ([], None), Channel = ch\<rparr>"
    and "encodeDest h = Inr (atyp, addr)" "CHR ''['' \<notin> set h" "CHR '']'' \<notin> set h" "p < 65536"
  shows "\<exists>out. encode (request tc ch atyp addr (word_of_nat p)) = Inr out
    \<and> tunnel_command quic_dial dial seg_read peer_write arg (join_host_port h (itoa_nat p)) name insecure stdin (printed, None)
        = Some (Inr ((out @ conn_content stdin, None), (printed @ conn_content reply, None)))"
proof -
  obtain out where out: "encode (request tc ch atyp addr (word_of_nat p)) = Inr out"
    "DialTunnel tc peer_write (Inr \<lparr>rx = reply, tx = ([], None), Channel = ch\<rparr>) (join_host_port h (itoa_nat p))
       = (Inr \<lparr>rx = reply, tx = ([] @ out, None), Channel = ch\<rparr>, False)"
    using DialTunnel_writes [OF assms(3-6)] by blast
  obtain e1 s1 where up: "io_copy seg_read peer_write stdin (out, None) = Some (e1, s1, (out @ conn_content stdin, None))"
    using sock.io_copy_open by blast
  obtain e2 s2 where down: "io_copy seg_read peer_write reply (printed, None) = Some (e2, s2, (printed @ conn_content reply, None))"
    using sock.io_copy_open by blast
  show ?thesis
    using assms(1,2) out up down by (simp add: tunnel_command_def)
qed

subsection \<open>From the local application to the destination\<close>

text \<open>C2. From a local application through the client to the destination: a SOCKS5 CONNECT request for an address and
  port, with any methods, in any segmentation and with payload sent ahead, makes the client's handler put a byte string
  into its tunnel stream such that a server which reads it, in any segmentation, on a stream with the same channel binding,
  and which accepts the client's UUID, dials exactly the named host and port (an IPv6 literal in Go's printed form), passes
  on that payload and nothing else, and answers; the application gets the method choice, the success reply and then what comes
  back through the tunnel.\<close>

theorem socks_to_destination:
  assumes "addr_ok a" "length methods \<le> 255" "concat segs = connect_bytes methods a port @ payload"
    and "CHR ''['' \<notin> set (addr_host a)" "CHR '']'' \<notin> set (addr_host a)" "addr_host a \<noteq> []"
    and "uuid tc \<in> set (acceptedUUIDs srv)"
  shows "\<exists>sent. handleSOCKS tc seg_read peer_write (Inr \<lparr>rx = reply, tx = ([], None), Channel = ch\<rparr>) \<lparr>rx = (segs, e), tx = ([], None)\<rparr>
      = Some (Tunnelled (join_host_port (addr_host a) (itoa_nat (unat port))) (sent, None), ([5, 0] @ socks_ok @ conn_content reply, None))
    \<and> (\<forall>ts. Channel ts = ch \<and> conn_content (rx ts) = sent \<and> snd (tx ts) = None \<longrightarrow>
        serves srv dial ts (target_of (addr_host a) (unat port)) payload)"
proof -
  have port: "unat port < 65536"
    by (rule unat_u16_less)
  obtain atyp addr where d: "encodeDest (addr_host a) = Inr (atyp, addr)"
    using addr_host_length [OF assms(1)] assms(6) by (fastforce simp: encodeDest_eq split: option.split)
  obtain out where out: "encode (request tc ch atyp addr (word_of_nat (unat port))) = Inr out"
    "DialTunnel tc peer_write (Inr \<lparr>rx = reply, tx = ([], None), Channel = ch\<rparr>) (join_host_port (addr_host a) (itoa_nat (unat port)))
       = (Inr \<lparr>rx = reply, tx = ([] @ out, None), Channel = ch\<rparr>, False)"
    using DialTunnel_writes [OF d assms(4,5) port] by blast
  show ?thesis
  proof (rule exI [of _ "out @ payload"], intro conjI allI impI)
    show "handleSOCKS tc seg_read peer_write (Inr \<lparr>rx = reply, tx = ([], None), Channel = ch\<rparr>) \<lparr>rx = (segs, e), tx = ([], None)\<rparr>
      = Some (Tunnelled (join_host_port (addr_host a) (itoa_nat (unat port))) (out @ payload, None), ([5, 0] @ socks_ok @ conn_content reply, None))"
      using socks_tunnel [OF assms(1-5), of tc "\<lparr>rx = reply, tx = ([], None), Channel = ch\<rparr>" out e] out(2) by simp
  next
    fix ts :: "(conn, peer) tstream"
    assume "Channel ts = ch \<and> conn_content (rx ts) = out @ payload \<and> snd (tx ts) = None"
    then show "serves srv dial ts (target_of (addr_host a) (unat port)) payload"
      using out(1) assms(7) by (intro stream_served [OF d port]) simp_all
  qed
qed

text \<open>The application asks for \<^verbatim>\<open>a.b:443\<close> and sends \<open>[1, 2]\<close>; the destination answers \<open>[7]\<close>, and \<open>[9]\<close> comes out of the client's tunnel.\<close>

theorem socks_to_destination_witness:
  "\<exists>sent. handleSOCKS \<lparr>uuid = sample_uuid\<rparr> seg_read peer_write (Inr \<lparr>rx = ([[9]], EOF), tx = ([], None), Channel = [7]\<rparr>)
        \<lparr>rx = ([connect_bytes [0] (Name ''a.b'') 443, [1, 2]], EOF), tx = ([], None)\<rparr>
      = Some (Tunnelled (join_host_port ''a.b'' (itoa_nat 443)) (sent, None), ([5, 0] @ socks_ok @ [9], None))
    \<and> (\<exists>v w. handle sample_server seg_read peer_write sample_dial False \<lparr>rx = ([sent], EOF), tx = ([], None), Channel = [7]\<rparr>
        = Some [Dial ''a.b:443'', Splice v w, CloseUpstream, CloseStream] \<and> fst v = [1, 2] \<and> fst w = [7])"
proof -
  have prems: "addr_ok (Name ''a.b'')" "length [0 :: byte] \<le> 255"
    "concat [connect_bytes [0] (Name ''a.b'') 443, [1, 2]] = connect_bytes [0] (Name ''a.b'') 443 @ [1, 2]"
    "CHR ''['' \<notin> set (addr_host (Name ''a.b''))" "CHR '']'' \<notin> set (addr_host (Name ''a.b''))" "addr_host (Name ''a.b'') \<noteq> []"
    "uuid \<lparr>uuid = sample_uuid\<rparr> \<in> set (acceptedUUIDs sample_server)"
    by (simp_all add: sample_server_def)
  show ?thesis
    using socks_to_destination [OF prems, of "([[9]], EOF)" "[7]" EOF sample_dial]
  proof (elim exE conjE, goal_cases)
    case (1 sent)
    then have "serves sample_server sample_dial \<lparr>rx = ([sent], EOF), tx = ([], None), Channel = [7]\<rparr> ''a.b:443'' [1, 2]"
      by (simp add: sample_target [symmetric])
    from serves_sample [OF this] 1(1) show ?case
      by (intro exI [of _ sent]) simp
  qed
qed

end
