(* ===== verification/Autoprobe.thy ===== *)
theory Autoprobe
  imports GoNet
begin

text \<open>
  \<^verbatim>\<open>pkg/autoprobe/probe.go\<close>: the concurrent reachability probes. \<open>Run\<close> is a step relation: its main
  goroutine starts the probes one after the other, each stores its status under the lock when it is
  done, in any order, and \<^verbatim>\<open>wg.Wait\<close> returns when all have. The dial of a probe is a parameter that
  knows which goroutine calls it; clock readings other than the round-trip time of a probe are left
  out. \<open>itoa\<close> is the package's own number printer, with its buffer of ten bytes.
\<close>

record probe_status =
  OK :: bool
  RTT :: nat
  ErrMsg :: string

record probe_result =
  UDP443 :: probe_status
  TCP443 :: probe_status
  TCPAlt :: "int \<Rightarrow> probe_status option"
  RTTs :: "string \<Rightarrow> nat option"

record probe_config =
  ServerHost :: string
  AltTCPPorts :: "int list"
  RTTRefs :: "string list"
  Timeout :: nat

text \<open>Durations are in nanoseconds.\<close>

definition millisecond :: nat where "millisecond = 1000000"

definition DefaultConfig :: "string \<Rightarrow> probe_config" where
  "DefaultConfig serverHost = \<lparr>ServerHost = serverHost, AltTCPPorts = [8443, 2053, 2087, 2096],
     RTTRefs = [''1.1.1.1:443'', ''ya.ru:443''], Timeout = 800 * millisecond\<rparr>"

definition zero_status :: probe_status where
  "zero_status = \<lparr>OK = False, RTT = 0, ErrMsg = []\<rparr>"

definition empty_result :: probe_result where
  "empty_result = \<lparr>UDP443 = zero_status, TCP443 = zero_status, TCPAlt = (\<lambda>_. None), RTTs = (\<lambda>_. None)\<rparr>"

text \<open>\<^verbatim>\<open>itoa\<close>: digits are written from the end of the buffer; \<open>None\<close> is the index panic at its front.\<close>

function itoa_loop :: "int \<Rightarrow> nat \<Rightarrow> string \<Rightarrow> string option" where
  "itoa_loop i n buf =
     (if i \<le> 0 then Some (drop n buf)
      else if n = 0 then None
      else itoa_loop (i div 10) (n - 1) (buf[n - 1 := char_of (48 + nat (i mod 10))]))"
  by pat_completeness auto
termination
  by (relation "measure (\<lambda>(i, n, buf). n)") auto

declare itoa_loop.simps [simp del]

definition itoa :: "int \<Rightarrow> string option" where
  "itoa i = (if i = 0 then Some ''0'' else itoa_loop i 10 (replicate 10 (char_of (0 :: nat))))"

text \<open>The dial gives the elapsed time and the error, if any.\<close>

definition tcpUDPProbe :: "nat \<times> string option \<Rightarrow> probe_status" where
  "tcpUDPProbe dialed =
     (case dialed of
        (t, Some e) \<Rightarrow> \<lparr>OK = False, RTT = t, ErrMsg = e\<rparr>
      | (t, None) \<Rightarrow> \<lparr>OK = True, RTT = t, ErrMsg = []\<rparr>)"

text \<open>A probe is the network and address it dials and the field it stores its status in.\<close>

datatype slot = SlotUDP | SlotTCP | SlotAlt int | SlotRTT string

type_synonym job = "string \<times> string \<times> slot"

primrec store :: "slot \<Rightarrow> probe_status \<Rightarrow> probe_result \<Rightarrow> probe_result" where
  "store SlotUDP st r = r\<lparr>UDP443 := st\<rparr>"
| "store SlotTCP st r = r\<lparr>TCP443 := st\<rparr>"
| "store (SlotAlt p) st r = r\<lparr>TCPAlt := (TCPAlt r)(p \<mapsto> st)\<rparr>"
| "store (SlotRTT ref) st r = r\<lparr>RTTs := (RTTs r)(ref \<mapsto> RTT st)\<rparr>"

fun alt_jobs :: "string \<Rightarrow> int list \<Rightarrow> job list option" where
  "alt_jobs h [] = Some []"
| "alt_jobs h (p # ps) =
     Option.bind (itoa p) (\<lambda>s. map_option (Cons (''tcp'', join_host_port h s, SlotAlt p)) (alt_jobs h ps))"

text \<open>The probes in the order they are started; \<open>None\<close> when printing a port panics.\<close>

definition jobs :: "probe_config \<Rightarrow> job list option" where
  "jobs cfg = map_option
     (\<lambda>alt. [(''udp'', join_host_port (ServerHost cfg) ''443'', SlotUDP), (''tcp'', join_host_port (ServerHost cfg) ''443'', SlotTCP)]
        @ alt @ map (\<lambda>ref. (''tcp'', ref, SlotRTT ref)) (RTTRefs cfg))
     (alt_jobs (ServerHost cfg) (AltTCPPorts cfg))"

definition effective_timeout :: "probe_config \<Rightarrow> nat" where
  "effective_timeout cfg = (if Timeout cfg = 0 then 800 * millisecond else Timeout cfg)"

type_synonym dialer = "nat \<Rightarrow> string \<Rightarrow> string \<Rightarrow> nat \<Rightarrow> nat \<times> string option"

definition status_of :: "dialer \<Rightarrow> probe_config \<Rightarrow> job list \<Rightarrow> nat \<Rightarrow> probe_status" where
  "status_of dial cfg js i =
     (case js ! i of (network, addr, _) \<Rightarrow> tcpUDPProbe (dial i network addr (effective_timeout cfg)))"

record run_state =
  res :: probe_result
  launched :: nat
  running :: "nat set"

definition run_start :: run_state where
  "run_start = \<lparr>res = empty_result, launched = 0, running = {}\<rparr>"

inductive run_step :: "dialer \<Rightarrow> probe_config \<Rightarrow> job list \<Rightarrow> run_state \<Rightarrow> run_state \<Rightarrow> bool"
  for dial cfg js where
  launch: "launched s < length js \<Longrightarrow>
    run_step dial cfg js s (s\<lparr>launched := launched s + 1, running := insert (launched s) (running s)\<rparr>)"
| finish: "i \<in> running s \<Longrightarrow>
    run_step dial cfg js s (s\<lparr>res := store (snd (snd (js ! i))) (status_of dial cfg js i) (res s),
      running := running s - {i}\<rparr>)"

inductive run_steps :: "dialer \<Rightarrow> probe_config \<Rightarrow> job list \<Rightarrow> nat \<Rightarrow> run_state \<Rightarrow> bool"
  for dial cfg js where
  none: "run_steps dial cfg js 0 run_start"
| more: "run_steps dial cfg js k s \<Longrightarrow> run_step dial cfg js s t \<Longrightarrow> run_steps dial cfg js (Suc k) t"

text \<open>\<^verbatim>\<open>wg.Wait\<close> returns.\<close>

definition run_done :: "job list \<Rightarrow> run_state \<Rightarrow> bool" where
  "run_done js s \<longleftrightarrow> launched s = length js \<and> running s = {}"

subsection \<open>The number printer\<close>

lemma itoa_loop_digits:
  assumes "0 < i" "n \<le> length buf"
  shows "itoa_loop i n buf =
    (if length (itoa_nat (nat i)) \<le> n then Some (itoa_nat (nat i) @ drop n buf) else None)"
  using assms
proof (induction i n buf rule: itoa_loop.induct)
  case (1 i n buf)
  let ?d = "char_of (48 + nat (i mod 10)) :: char"
  have d: "?d = digit_char (nat i mod 10)"
    using 1(2) by (simp add: digit_char_def nat_mod_distrib)
  show ?case
  proof (cases n)
    case 0
    then show ?thesis
      using 1(2) by (subst itoa_loop.simps) simp
  next
    case (Suc m)
    let ?buf = "buf[m := ?d]"
    have step: "itoa_loop i n buf = itoa_loop (i div 10) m ?buf"
      using 1(2) Suc by (subst itoa_loop.simps) simp
    have tail: "drop m ?buf = ?d # drop n buf"
      using 1(3) Suc by (simp add: drop_update_swap Cons_nth_drop_Suc [symmetric])
    show ?thesis
    proof (cases "i < 10")
      case True
      then have "i div 10 = 0" "itoa_nat (nat i) = [?d]"
        using 1(2) d by (simp_all add: itoa_nat_def num_str_small)
      then show ?thesis
        using step tail Suc by (subst (asm) itoa_loop.simps) simp
    next
      case False
      then have pos: "0 < i div 10"
        by simp
      have "nat (i div 10) = nat i div 10"
        by (simp add: nat_div_distrib)
      then have digits: "itoa_nat (nat i) = itoa_nat (nat (i div 10)) @ [?d]"
        using False d num_str_step [of 10 "nat i"] by (simp add: itoa_nat_def)
      have "itoa_loop (i div 10) m ?buf = (if length (itoa_nat (nat (i div 10))) \<le> m
          then Some (itoa_nat (nat (i div 10)) @ drop m ?buf) else None)"
        using 1(1) [OF _ _ pos] 1(2,3) Suc by simp
      then show ?thesis
        using step digits tail Suc by simp
    qed
  qed
qed

lemma itoa_nat_length: "length (itoa_nat n) \<le> 10 \<longleftrightarrow> int n < 10 ^ 10"
proof
  assume "int n < 10 ^ 10"
  then have "n < 10 ^ Suc 9"
    by simp
  then show "length (itoa_nat n) \<le> 10"
    unfolding itoa_nat_def using num_str_length [of 10 n 9] by simp
next
  have bound: "num_val 10 s < 10 ^ length s" if "list_all is_digit s" for s
    using that
  proof (induction s rule: rev_induct)
    case (snoc c s)
    then have "digit_val c < 10" "num_val 10 s < 10 ^ length s"
      by (auto simp: is_digit_def digit_val_def)
    then show ?case
      by simp
  qed simp
  assume "length (itoa_nat n) \<le> 10"
  then have "(10 :: nat) ^ length (itoa_nat n) \<le> 10 ^ 10"
    by (rule power_increasing) simp
  moreover have "n < 10 ^ length (itoa_nat n)"
    using bound [of "itoa_nat n"] itoa_nat_digits by (simp add: list_all_iff)
  ultimately have "n < 10 ^ 10"
    by linarith
  then show "int n < 10 ^ 10"
    by simp
qed

text \<open>The printer agrees with \<^verbatim>\<open>strconv.Itoa\<close> on the numbers that fit its buffer.\<close>

lemma itoa_cases:
  "itoa i = (if i < 0 then Some [] else if i < 10 ^ 10 then Some (itoa_int i) else None)"
proof -
  consider "i < 0" | "i = 0" | "0 < i"
    by linarith
  then show ?thesis
  proof cases
    case 1
    then show ?thesis
      by (simp add: itoa_def itoa_loop.simps)
  next
    case 2
    moreover have "char_of (48 :: nat) = CHR ''0''"
      by code_simp
    ultimately show ?thesis
      by (simp add: itoa_def itoa_int_def itoa_nat_def num_str_small digit_char_def)
  next
    case 3
    then have "itoa i = (if length (itoa_nat (nat i)) \<le> 10 then Some (itoa_nat (nat i)) else None)"
      by (simp add: itoa_def itoa_loop_digits)
    then show ?thesis
      using 3 itoa_nat_length [of "nat i"] by (simp add: itoa_int_def)
  qed
qed

subsection \<open>The jobs\<close>

abbreviation slot_of :: "job list \<Rightarrow> nat \<Rightarrow> slot" where
  "slot_of js i \<equiv> snd (snd (js ! i))"

lemma alt_jobs_some:
  "alt_jobs h ps = Some js \<longleftrightarrow> (\<forall>p \<in> set ps. p < 10 ^ 10)
     \<and> js = map (\<lambda>p. (''tcp'', join_host_port h (if p < 0 then [] else itoa_int p), SlotAlt p)) ps"
  by (induction ps arbitrary: js) (auto simp: itoa_cases bind_eq_Some_conv)

lemma jobs_some:
  "jobs cfg = Some js \<longleftrightarrow> (\<forall>p \<in> set (AltTCPPorts cfg). p < 10 ^ 10)
     \<and> js = [(''udp'', join_host_port (ServerHost cfg) ''443'', SlotUDP), (''tcp'', join_host_port (ServerHost cfg) ''443'', SlotTCP)]
        @ map (\<lambda>p. (''tcp'', join_host_port (ServerHost cfg) (if p < 0 then [] else itoa_int p), SlotAlt p)) (AltTCPPorts cfg)
        @ map (\<lambda>ref. (''tcp'', ref, SlotRTT ref)) (RTTRefs cfg)"
  by (auto simp: jobs_def alt_jobs_some)

subsection \<open>The invariant of a run\<close>

text \<open>\<open>stored js st F r\<close>: the result holds the statuses of exactly the probes in \<open>F\<close>, each in its slot.\<close>

definition stored :: "job list \<Rightarrow> (nat \<Rightarrow> probe_status) \<Rightarrow> nat set \<Rightarrow> probe_result \<Rightarrow> bool" where
  "stored js st F r \<longleftrightarrow>
     (if \<exists>i \<in> F. slot_of js i = SlotUDP then \<exists>i \<in> F. slot_of js i = SlotUDP \<and> UDP443 r = st i else UDP443 r = zero_status)
   \<and> (if \<exists>i \<in> F. slot_of js i = SlotTCP then \<exists>i \<in> F. slot_of js i = SlotTCP \<and> TCP443 r = st i else TCP443 r = zero_status)
   \<and> (\<forall>p. if \<exists>i \<in> F. slot_of js i = SlotAlt p then \<exists>i \<in> F. slot_of js i = SlotAlt p \<and> TCPAlt r p = Some (st i) else TCPAlt r p = None)
   \<and> (\<forall>a. if \<exists>i \<in> F. slot_of js i = SlotRTT a then \<exists>i \<in> F. slot_of js i = SlotRTT a \<and> RTTs r a = Some (RTT (st i)) else RTTs r a = None)"

lemma stored_empty: "stored js st {} empty_result"
  by (simp add: stored_def empty_result_def)

lemma stored_insert:
  assumes "stored js st F r"
  shows "stored js st (insert i F) (store (slot_of js i) (st i) r)"
  using assms by (cases "slot_of js i") (auto simp: stored_def split: if_splits)

definition finished :: "run_state \<Rightarrow> nat set" where
  "finished s = {..<launched s} - running s"

lemma run_invariant:
  assumes "run_steps dial cfg js k s"
  shows "launched s \<le> length js \<and> running s \<subseteq> {..<launched s} \<and> k = launched s + card (finished s)
    \<and> stored js (status_of dial cfg js) (finished s) (res s)"
  using assms
proof (induction rule: run_steps.induct)
  case none
  then show ?case
    using stored_empty by (simp add: run_start_def finished_def)
next
  case (more k s t)
  from more.hyps(2) show ?case
  proof (cases rule: run_step.cases)
    case launch
    moreover have "finished t = finished s"
      using launch more.IH by (auto simp: finished_def)
    ultimately show ?thesis
      using more.IH by auto
  next
    case (finish i)
    then have "finished t = insert i (finished s)" "i \<notin> finished s"
      using more.IH by (auto simp: finished_def)
    moreover have "finite (finished s)"
      by (simp add: finished_def)
    ultimately show ?thesis
      using finish more.IH stored_insert [of js "status_of dial cfg js" "finished s" "res s" i] by auto
  qed
qed

lemma run_count:
  assumes "run_steps dial cfg js k s"
  shows "k \<le> 2 * length js" and "run_done js s \<longleftrightarrow> k = 2 * length js"
proof -
  let ?F = "finished s"
  have inv: "launched s \<le> length js" "running s \<subseteq> {..<launched s}" "k = launched s + card ?F"
    using run_invariant [OF assms] by simp_all
  have card: "card ?F = launched s - card (running s)" "card (running s) \<le> launched s"
    using inv(2) card_mono [OF _ inv(2)] unfolding finished_def
    by (simp_all add: card_Diff_subset finite_subset)
  show "k \<le> 2 * length js"
    using inv card by linarith
  have "running s = {} \<longleftrightarrow> card (running s) = 0"
    using inv(2) finite_subset by fastforce
  then show "run_done js s \<longleftrightarrow> k = 2 * length js"
    using inv card unfolding run_done_def by linarith
qed

lemma run_progress:
  assumes "run_steps dial cfg js k s"
  shows "run_done js s \<longleftrightarrow> \<not> (\<exists>t. run_step dial cfg js s t)"
proof
  assume "run_done js s"
  then show "\<not> (\<exists>t. run_step dial cfg js s t)"
    by (auto simp: run_done_def elim: run_step.cases)
next
  assume stuck: "\<not> (\<exists>t. run_step dial cfg js s t)"
  then have "\<not> launched s < length js" "running s = {}"
    using launch finish by blast+
  then show "run_done js s"
    using run_invariant [OF assms] by (simp add: run_done_def)
qed

lemma run_exists: "k \<le> 2 * length js \<Longrightarrow> \<exists>s. run_steps dial cfg js k s"
proof (induction k)
  case 0
  then show ?case
    using none by blast
next
  case (Suc k)
  then obtain s where s: "run_steps dial cfg js k s"
    by auto
  then have "\<not> run_done js s"
    using run_count(2) [OF s] Suc.prems by simp
  then show ?case
    using run_progress [OF s] more [OF s] by blast
qed

lemma slots:
  assumes "jobs cfg = Some js"
  shows "map (\<lambda>j. snd (snd j)) js = SlotUDP # SlotTCP # map SlotAlt (AltTCPPorts cfg) @ map SlotRTT (RTTRefs cfg)"
proof -
  have "js = [(''udp'', join_host_port (ServerHost cfg) ''443'', SlotUDP), (''tcp'', join_host_port (ServerHost cfg) ''443'', SlotTCP)]
        @ map (\<lambda>p. (''tcp'', join_host_port (ServerHost cfg) (if p < 0 then [] else itoa_int p), SlotAlt p)) (AltTCPPorts cfg)
        @ map (\<lambda>ref. (''tcp'', ref, SlotRTT ref)) (RTTRefs cfg)"
    using assms jobs_some by blast
  then show ?thesis
    by (simp add: comp_def)
qed

lemma slot_exists:
  "jobs cfg = Some js \<Longrightarrow> (\<exists>i < length js. slot_of js i = x)
     \<longleftrightarrow> x \<in> {SlotUDP, SlotTCP} \<union> SlotAlt ` set (AltTCPPorts cfg) \<union> SlotRTT ` set (RTTRefs cfg)"
proof -
  assume js: "jobs cfg = Some js"
  have "(\<exists>i < length js. slot_of js i = x) \<longleftrightarrow> x \<in> set (map (\<lambda>j. snd (snd j)) js)"
    unfolding in_set_conv_nth by auto
  then show ?thesis
    unfolding slots [OF js] by auto
qed

text \<open>A job's network and address follow from its slot.\<close>

lemma job_cases:
  assumes "jobs cfg = Some js" "i < length js"
  obtains "i = 0" "js ! i = (''udp'', join_host_port (ServerHost cfg) ''443'', SlotUDP)"
    | "i = 1" "js ! i = (''tcp'', join_host_port (ServerHost cfg) ''443'', SlotTCP)"
    | p where "js ! i = (''tcp'', join_host_port (ServerHost cfg) (if p < 0 then [] else itoa_int p), SlotAlt p)"
    | ref where "js ! i = (''tcp'', ref, SlotRTT ref)"
proof -
  let ?tail = "map (\<lambda>p. (''tcp'', join_host_port (ServerHost cfg) (if p < 0 then [] else itoa_int p), SlotAlt p)) (AltTCPPorts cfg)
        @ map (\<lambda>ref. (''tcp'', ref, SlotRTT ref)) (RTTRefs cfg)"
  have js: "js = (''udp'', join_host_port (ServerHost cfg) ''443'', SlotUDP) # (''tcp'', join_host_port (ServerHost cfg) ''443'', SlotTCP) # ?tail"
    using assms(1) jobs_some [of cfg js] by simp
  consider "i = 0" | "i = 1" | n where "i = Suc (Suc n)"
    by (metis One_nat_def not0_implies_Suc)
  then show thesis
  proof cases
    case (3 n)
    then have "js ! i \<in> set ?tail"
      using assms(2) js nth_mem [of n ?tail] by simp
    then show ?thesis
      using that(3,4) by auto
  qed (use js that(1,2) in auto)
qed

subsection \<open>Properties\<close>

text \<open>The package's number printer is \<^verbatim>\<open>strconv.Itoa\<close> on 0 to 10^10 - 1, which covers every port; a negative
  number prints as the empty text, and a longer one runs off the front of the buffer and panics.\<close>

theorem itoa_agrees:
  "itoa i = (if i < 0 then Some [] else if i < 10 ^ 10 then Some (itoa_int i) else None)"
  by (rule itoa_cases)


definition sample_probes :: probe_config where
  "sample_probes = \<lparr>ServerHost = ''h'', AltTCPPorts = [8443], RTTRefs = [], Timeout = 0\<rparr>"

definition sample_jobs :: "job list" where
  "sample_jobs = [(''udp'', ''h:443'', SlotUDP), (''tcp'', ''h:443'', SlotTCP), (''tcp'', ''h:8443'', SlotAlt 8443)]"

text \<open>Every probe but the first one is answered.\<close>

definition sample_dialer :: dialer where
  "sample_dialer i network addr timeout = (if i = 0 then (timeout, Some ''timeout'') else (7, None))"

lemma sample_jobs: "jobs sample_probes = Some sample_jobs"
  by code_simp


text \<open>When \<open>Run\<close> has returned, every field comes from a probe of its own slot.\<close>

lemma Run_stored:
  assumes "jobs cfg = Some js" "run_steps dial cfg js k s" "run_done js s"
  shows "\<exists>i < length js. slot_of js i = SlotUDP \<and> UDP443 (res s) = status_of dial cfg js i"
    and "\<exists>i < length js. slot_of js i = SlotTCP \<and> TCP443 (res s) = status_of dial cfg js i"
    and "if p \<in> set (AltTCPPorts cfg) then \<exists>i < length js. slot_of js i = SlotAlt p \<and> TCPAlt (res s) p = Some (status_of dial cfg js i)
      else TCPAlt (res s) p = None"
    and "if a \<in> set (RTTRefs cfg) then \<exists>i < length js. slot_of js i = SlotRTT a \<and> RTTs (res s) a = Some (RTT (status_of dial cfg js i))
      else RTTs (res s) a = None"
proof -
  have all: "finished s = {..<length js}"
    using assms(3) by (simp add: finished_def run_done_def)
  have ex: "(\<exists>i \<in> finished s. slot_of js i = x)
      \<longleftrightarrow> x \<in> {SlotUDP, SlotTCP} \<union> SlotAlt ` set (AltTCPPorts cfg) \<union> SlotRTT ` set (RTTRefs cfg)" for x
    using slot_exists [OF assms(1), of x] by (auto simp: all)
  have st: "stored js (status_of dial cfg js) (finished s) (res s)"
    using run_invariant [OF assms(2)] by blast
  have parts:
    "\<exists>i \<in> finished s. slot_of js i = SlotUDP \<and> UDP443 (res s) = status_of dial cfg js i"
    "\<exists>i \<in> finished s. slot_of js i = SlotTCP \<and> TCP443 (res s) = status_of dial cfg js i"
    "\<forall>p. if p \<in> set (AltTCPPorts cfg) then \<exists>i \<in> finished s. slot_of js i = SlotAlt p \<and> TCPAlt (res s) p = Some (status_of dial cfg js i)
      else TCPAlt (res s) p = None"
    "\<forall>a. if a \<in> set (RTTRefs cfg) then \<exists>i \<in> finished s. slot_of js i = SlotRTT a \<and> RTTs (res s) a = Some (RTT (status_of dial cfg js i))
      else RTTs (res s) a = None"
    using st unfolding stored_def ex by (simp_all add: image_iff)
  show "\<exists>i < length js. slot_of js i = SlotUDP \<and> UDP443 (res s) = status_of dial cfg js i"
    "\<exists>i < length js. slot_of js i = SlotTCP \<and> TCP443 (res s) = status_of dial cfg js i"
    using parts(1,2) unfolding all by auto
  show "if p \<in> set (AltTCPPorts cfg) then \<exists>i < length js. slot_of js i = SlotAlt p \<and> TCPAlt (res s) p = Some (status_of dial cfg js i)
      else TCPAlt (res s) p = None"
    using spec [OF parts(3), of p] unfolding all by auto
  show "if a \<in> set (RTTRefs cfg) then \<exists>i < length js. slot_of js i = SlotRTT a \<and> RTTs (res s) a = Some (RTT (status_of dial cfg js i))
      else RTTs (res s) a = None"
    using spec [OF parts(4), of a] unfolding all by auto
qed

lemma Run_outcomes:
  assumes "jobs cfg = Some js" "run_steps dial cfg js k s" "run_done js s"
  shows "UDP443 (res s) = tcpUDPProbe (dial 0 ''udp'' (join_host_port (ServerHost cfg) ''443'') (effective_timeout cfg))"
    and "TCP443 (res s) = tcpUDPProbe (dial 1 ''tcp'' (join_host_port (ServerHost cfg) ''443'') (effective_timeout cfg))"
    and "dom (TCPAlt (res s)) = set (AltTCPPorts cfg)"
    and "0 \<le> p \<Longrightarrow> TCPAlt (res s) p = Some st \<Longrightarrow>
      \<exists>i. st = tcpUDPProbe (dial i ''tcp'' (join_host_port (ServerHost cfg) (itoa_int p)) (effective_timeout cfg))"
    and "dom (RTTs (res s)) = set (RTTRefs cfg)"
    and "RTTs (res s) a = Some t \<Longrightarrow> \<exists>i. t = RTT (tcpUDPProbe (dial i ''tcp'' a (effective_timeout cfg)))"
proof -
  have job: "status_of dial cfg js i = tcpUDPProbe (dial i network addr (effective_timeout cfg))"
    if "js ! i = (network, addr, sl)" for i network addr sl
    using that by (simp add: status_of_def)
  obtain i where i: "i < length js" "slot_of js i = SlotUDP" "UDP443 (res s) = status_of dial cfg js i"
    using Run_stored(1) [OF assms] by blast
  obtain j where j: "j < length js" "slot_of js j = SlotTCP" "TCP443 (res s) = status_of dial cfg js j"
    using Run_stored(2) [OF assms] by blast
  show "UDP443 (res s) = tcpUDPProbe (dial 0 ''udp'' (join_host_port (ServerHost cfg) ''443'') (effective_timeout cfg))"
    using i by (cases rule: job_cases [OF assms(1) i(1)]) (simp_all add: job)
  show "TCP443 (res s) = tcpUDPProbe (dial 1 ''tcp'' (join_host_port (ServerHost cfg) ''443'') (effective_timeout cfg))"
    using j by (cases rule: job_cases [OF assms(1) j(1)]) (simp_all add: job)
  show "dom (TCPAlt (res s)) = set (AltTCPPorts cfg)"
    using Run_stored(3) [OF assms] by (fastforce split: if_splits)
  show "dom (RTTs (res s)) = set (RTTRefs cfg)"
    using Run_stored(4) [OF assms] by (fastforce split: if_splits)
  show "\<exists>i. st = tcpUDPProbe (dial i ''tcp'' (join_host_port (ServerHost cfg) (itoa_int p)) (effective_timeout cfg))"
    if p: "0 \<le> p" "TCPAlt (res s) p = Some st"
  proof -
    obtain i where i: "i < length js" "slot_of js i = SlotAlt p" "st = status_of dial cfg js i"
      using Run_stored(3) [OF assms, of p] p by (auto split: if_splits)
    show ?thesis
      using i p(1) by (cases rule: job_cases [OF assms(1) i(1)]) (auto simp: job)
  qed
  show "\<exists>i. t = RTT (tcpUDPProbe (dial i ''tcp'' a (effective_timeout cfg)))" if a: "RTTs (res s) a = Some t"
  proof -
    obtain i where i: "i < length js" "slot_of js i = SlotRTT a" "t = RTT (status_of dial cfg js i)"
      using Run_stored(4) [OF assms, of a] a by (auto split: if_splits)
    show ?thesis
      using i by (cases rule: job_cases [OF assms(1) i(1)]) (auto simp: job)
  qed
qed



end
