(* ===== verification/ProbeCmd.thy ===== *)
theory ProbeCmd
  imports Autoprobe "HOL-Library.Multiset"
begin

text \<open>
  The client's \<^verbatim>\<open>probe\<close> command (\<^verbatim>\<open>cmd/avangard-client/main.go\<close>): it runs the probes with the default
  configuration for a host and prints their result. Go prints a map in an order of its own, here any order of its keys; the
  JSON encoder is a parameter. \<open>duration_string\<close> is \<^verbatim>\<open>time.Duration.String\<close> for a duration that is not negative.
\<close>

subsection \<open>Durations as text\<close>


text \<open>The digits behind the point, without trailing zeros, and what is left in front of it.\<close>

primrec frac_loop :: "nat \<Rightarrow> nat \<Rightarrow> string \<Rightarrow> string \<times> nat" where
  "frac_loop 0 v acc = (if acc = [] then [] else CHR ''.'' # acc, v)"
| "frac_loop (Suc n) v acc = frac_loop n (v div 10) (if acc \<noteq> [] \<or> v mod 10 \<noteq> 0 then digit_char (v mod 10) # acc else acc)"

definition with_frac :: "nat \<Rightarrow> nat \<Rightarrow> string" where
  "with_frac prec u = (case frac_loop prec u [] of (frac, v) \<Rightarrow> itoa_nat v @ frac)"

definition duration_string :: "nat \<Rightarrow> string" where
  "duration_string u =
     (if u < 1000 * millisecond then
        (if u = 0 then ''0s''
         else if u < 1000 then itoa_nat u @ ''ns''
         else if u < millisecond then with_frac 3 u @ [CHR 0xC2, CHR 0xB5, CHR ''s'']
         else with_frac 6 u @ ''ms'')
      else
        (case frac_loop 9 u [] of
           (frac, secs) \<Rightarrow>
             (if 0 < secs div 60 then
                (if 0 < secs div 60 div 60 then itoa_nat (secs div 60 div 60) @ ''h'' else [])
                  @ itoa_nat (secs div 60 mod 60) @ ''m''
              else [])
             @ itoa_nat (secs mod 60) @ frac @ ''s''))"

lemma frac_loop_rest: "snd (frac_loop n v acc) = v div 10 ^ n"
  by (induction n arbitrary: v acc) (simp_all add: div_mult2_eq)

lemma frac_loop_numeral [simp]:
  "frac_loop (numeral k) v acc = frac_loop (pred_numeral k) (v div 10) (if acc \<noteq> [] \<or> v mod 10 \<noteq> 0 then digit_char (v mod 10) # acc else acc)"
  by (simp only: numeral_eq_Suc [of k] frac_loop.simps)

lemma digit_chars:
  "digit_char 0 = CHR ''0''" "digit_char 1 = CHR ''1''" "digit_char 2 = CHR ''2''" "digit_char 3 = CHR ''3''" "digit_char 4 = CHR ''4''"
  "digit_char 5 = CHR ''5''" "digit_char 6 = CHR ''6''" "digit_char 7 = CHR ''7''" "digit_char 8 = CHR ''8''" "digit_char 9 = CHR ''9''"
  by code_simp+

text \<open>The time-out and whole seconds, as examples; the command's own deadline prints as \<^verbatim>\<open>5s\<close>.\<close>

lemma duration_examples:
  "duration_string (800 * millisecond) = ''800ms''" "duration_string 5000000000 = ''5s''" "duration_string 0 = ''0s''"
  "duration_string 1500000000 = ''1.5s''" "duration_string 3723000000001 = ''1h2m3.000000001s''" "duration_string 12345678 = ''12.345678ms''" "duration_string 7 = ''7ns''"
  by (simp_all add: duration_string_def millisecond_def with_frac_def itoa_nat_def num_str_small num_str_step digit_chars digit_chars(2) [simplified])

subsection \<open>The report\<close>

text \<open>\<^verbatim>\<open>%v\<close> of a bool, and \<^verbatim>\<open>%-5d\<close> and \<^verbatim>\<open>%-15s\<close>.\<close>

definition bool_text :: "bool \<Rightarrow> string" where
  "bool_text b = (if b then ''true'' else ''false'')"

definition pad_right :: "nat \<Rightarrow> string \<Rightarrow> string" where
  "pad_right n s = s @ replicate (n - length s) CHR '' ''"

definition outcome_text :: "probe_status \<Rightarrow> string" where
  "outcome_text st = '' OK='' @ bool_text (OK st) @ '' rtt='' @ duration_string (RTT st)"

definition udp_line :: "probe_status \<Rightarrow> string" where
  "udp_line st = ''  UDP/443   '' @ outcome_text st"

definition tcp_line :: "probe_status \<Rightarrow> string" where
  "tcp_line st = ''  TCP/443   '' @ outcome_text st"

definition alt_line :: "int \<Rightarrow> probe_status \<Rightarrow> string" where
  "alt_line p st = ''  TCP/'' @ pad_right 5 (itoa_int p) @ outcome_text st"

definition rtt_line :: "string \<Rightarrow> nat \<Rightarrow> string" where
  "rtt_line ref t = ''  rtt '' @ pad_right 15 ref @ '' '' @ duration_string t"

text \<open>\<open>ports\<close> and \<open>refs\<close> are the orders in which Go goes through the two maps.\<close>

definition probe_report :: "string \<Rightarrow> nat \<Rightarrow> probe_result \<Rightarrow> int list \<Rightarrow> string list \<Rightarrow> string list" where
  "probe_report h elapsed r ports refs =
     [''AutoProbe('' @ h @ '')  '' @ duration_string elapsed @ '' elapsed'', udp_line (UDP443 r), tcp_line (TCP443 r)]
       @ map (\<lambda>p. alt_line p (the (TCPAlt r p))) ports @ map (\<lambda>a. rtt_line a (the (RTTs r a))) refs"

definition map_order :: "('k \<Rightarrow> 'v option) \<Rightarrow> 'k list \<Rightarrow> bool" where
  "map_order m ks \<longleftrightarrow> distinct ks \<and> set ks = dom m"

definition probe_command :: "(probe_result \<Rightarrow> string) \<Rightarrow> string \<Rightarrow> bool \<Rightarrow> nat \<Rightarrow> probe_result \<Rightarrow> int list \<Rightarrow> string list \<Rightarrow> string list" where
  "probe_command json h asJSON elapsed r ports refs =
     (if asJSON then [json r] else probe_report h elapsed r ports refs)"

subsection \<open>Properties\<close>

lemma map_order_unique: "map_order m ks \<Longrightarrow> distinct xs \<Longrightarrow> set xs = dom m \<Longrightarrow> mset ks = mset xs"
  by (simp add: map_order_def flip: set_eq_iff_mset_eq_distinct)

text \<open>C39. What \<^verbatim>\<open>probe\<close> prints. When the probes of a host have ended, in whatever order, and in whatever order Go goes
  through the maps, the text consists of the same lines: the header, one line for UDP and one for TCP with the
  outcomes of the dials to port 443 of the host, one for each of the four alternative ports with the outcome of a
  dial to that port of the host, and one for each reference with the time of a dial to it; each dial with the time-out of 800 ms.\<close>

theorem probe_prints_outcomes:
  assumes "jobs (DefaultConfig h) = Some js" "run_steps dial (DefaultConfig h) js k s" "run_done js s"
    and "map_order (TCPAlt (res s)) ports" "map_order (RTTs (res s)) refs"
  shows "\<exists>alt rtt. mset (probe_command json h False elapsed (res s) ports refs) = mset (
        [''AutoProbe('' @ h @ '')  '' @ duration_string elapsed @ '' elapsed'',
         udp_line (tcpUDPProbe (dial 0 ''udp'' (join_host_port h ''443'') (800 * millisecond))),
         tcp_line (tcpUDPProbe (dial 1 ''tcp'' (join_host_port h ''443'') (800 * millisecond)))]
        @ map (\<lambda>p. alt_line p (alt p)) [8443, 2053, 2087, 2096]
        @ map (\<lambda>a. rtt_line a (rtt a)) [''1.1.1.1:443'', ''ya.ru:443''])
    \<and> (\<forall>p \<in> {8443, 2053, 2087, 2096}. \<exists>i. alt p = tcpUDPProbe (dial i ''tcp'' (join_host_port h (itoa_int p)) (800 * millisecond)))
    \<and> (\<forall>a \<in> {''1.1.1.1:443'', ''ya.ru:443''}. \<exists>i. rtt a = RTT (tcpUDPProbe (dial i ''tcp'' a (800 * millisecond))))"
proof -
  let ?cfg = "DefaultConfig h"
  have cfg: "ServerHost ?cfg = h" "effective_timeout ?cfg = 800 * millisecond" "AltTCPPorts ?cfg = [8443, 2053, 2087, 2096]"
    "RTTRefs ?cfg = [''1.1.1.1:443'', ''ya.ru:443'']"
    by (simp_all add: DefaultConfig_def effective_timeout_def millisecond_def)
  note c = Run_outcomes [OF assms(1-3), unfolded cfg]
  have order: "mset ports = mset [8443, 2053, 2087, 2096]" "mset refs = mset [''1.1.1.1:443'', ''ya.ru:443'']"
    using map_order_unique [OF assms(4), of "[8443, 2053, 2087, 2096]"] map_order_unique [OF assms(5), of "[''1.1.1.1:443'', ''ya.ru:443'']"] c(3,5)
    by simp_all
  have "\<exists>i. the (TCPAlt (res s) p) = tcpUDPProbe (dial i ''tcp'' (join_host_port h (itoa_int p)) (800 * millisecond))"
    if p: "p \<in> {8443, 2053, 2087, 2096}" for p
  proof -
    obtain st where "TCPAlt (res s) p = Some st"
      using p c(3) by (metis domD list.set(1,2))
    then show ?thesis
      using c(4) [of p st] p by auto
  qed
  moreover have "\<exists>i. the (RTTs (res s) a) = RTT (tcpUDPProbe (dial i ''tcp'' a (800 * millisecond)))"
    if a: "a \<in> {''1.1.1.1:443'', ''ya.ru:443''}" for a
  proof -
    obtain t where "RTTs (res s) a = Some t"
      using a c(5) by (metis domD list.set(1,2))
    then show ?thesis
      using c(6) [of a t] by auto
  qed
  moreover have "mset (map f ports) = image_mset f (mset [8443, 2053, 2087, 2096])" "mset (map g refs) = image_mset g (mset [''1.1.1.1:443'', ''ya.ru:443''])" for f :: "int \<Rightarrow> string" and g :: "string \<Rightarrow> string"
    using order by simp_all
  ultimately show ?thesis
    by (intro exI [of _ "\<lambda>p. the (TCPAlt (res s) p)"] exI [of _ "\<lambda>a. the (RTTs (res s) a)"])
      (simp add: probe_command_def probe_report_def c(1,2))
qed

text \<open>A host where every dial but the first is answered at once.\<close>

definition default_jobs :: "job list" where
  "default_jobs = [(''udp'', ''h:443'', SlotUDP), (''tcp'', ''h:443'', SlotTCP), (''tcp'', ''h:8443'', SlotAlt 8443), (''tcp'', ''h:2053'', SlotAlt 2053),
     (''tcp'', ''h:2087'', SlotAlt 2087), (''tcp'', ''h:2096'', SlotAlt 2096), (''tcp'', ''1.1.1.1:443'', SlotRTT ''1.1.1.1:443''),
     (''tcp'', ''ya.ru:443'', SlotRTT ''ya.ru:443'')]"

lemma default_jobs: "jobs (DefaultConfig ''h'') = Some default_jobs"
proof -
  have "itoa 8443 = Some ''8443''" "itoa 2053 = Some ''2053''" "itoa 2087 = Some ''2087''" "itoa 2096 = Some ''2096''"
    by code_simp+
  then show ?thesis
    by (simp add: jobs_def DefaultConfig_def default_jobs_def join_host_port_def)
qed

theorem probe_prints_outcomes_witness:
  "\<exists>s. run_steps sample_dialer (DefaultConfig ''h'') default_jobs 16 s
     \<and> ''  UDP/443    OK=false rtt=800ms'' \<in> set (probe_command (\<lambda>_. []) ''h'' False 0 (res s) [2096, 8443, 2087, 2053] [''ya.ru:443'', ''1.1.1.1:443''])
     \<and> ''  TCP/443    OK=true rtt=7ns'' \<in> set (probe_command (\<lambda>_. []) ''h'' False 0 (res s) [2096, 8443, 2087, 2053] [''ya.ru:443'', ''1.1.1.1:443''])"
proof -
  obtain s where s: "run_steps sample_dialer (DefaultConfig ''h'') default_jobs 16 s"
    using run_exists [of 16 default_jobs] by (auto simp: default_jobs_def)
  have ended: "run_done default_jobs s"
    using run_count(2) [OF s] by (simp add: default_jobs_def)
  have orders: "map_order (TCPAlt (res s)) [2096, 8443, 2087, 2053]" "map_order (RTTs (res s)) [''ya.ru:443'', ''1.1.1.1:443'']"
    using Run_outcomes(3,5) [OF default_jobs s ended] by (auto simp: map_order_def DefaultConfig_def)
  obtain alt rtt where m: "mset (probe_command (\<lambda>_. []) ''h'' False 0 (res s) [2096, 8443, 2087, 2053] [''ya.ru:443'', ''1.1.1.1:443'']) = mset (
        [''AutoProbe('' @ ''h'' @ '')  '' @ duration_string 0 @ '' elapsed'',
         udp_line (tcpUDPProbe (sample_dialer 0 ''udp'' (join_host_port ''h'' ''443'') (800 * millisecond))),
         tcp_line (tcpUDPProbe (sample_dialer 1 ''tcp'' (join_host_port ''h'' ''443'') (800 * millisecond)))]
        @ map (\<lambda>p. alt_line p (alt p)) [8443, 2053, 2087, 2096]
        @ map (\<lambda>a. rtt_line a (rtt a)) [''1.1.1.1:443'', ''ya.ru:443''])"
    using probe_prints_outcomes [OF default_jobs s ended orders, of "\<lambda>_. []" 0] by (elim exE conjE)
  have lines: "udp_line (tcpUDPProbe (sample_dialer 0 n a (800 * millisecond))) = ''  UDP/443    OK=false rtt=800ms''"
    "tcp_line (tcpUDPProbe (sample_dialer 1 n a t)) = ''  TCP/443    OK=true rtt=7ns''" for n a t
    using duration_examples(1,7) by (simp_all add: sample_dialer_def tcpUDPProbe_def udp_line_def tcp_line_def outcome_text_def bool_text_def)
  show ?thesis
    by (rule exI [of _ s], unfold mset_eq_setD [OF m] lines) (simp add: s)
qed

end
