(* ===== verification/Region.thy ===== *)
theory Region
  imports Autoprobe Uri
begin

text \<open>
  \<^verbatim>\<open>pkg/regionshield\<close>: the choice of a transport mode from a regional profile and a probe result, the
  three built-in profiles, and the client's \<^verbatim>\<open>region\<close> command that composes them with the probes.
  Modes are the strings of \<^verbatim>\<open>pkg/uri\<close>; AS numbers are 32-bit words.
\<close>

record isp_rule =
  PreferredMode :: string
  rPort :: int
  ExtraFrag :: bool
  TTLManip :: bool
  QUIC :: "bool option"

record profile =
  Region :: string
  FallbackChain :: "string list"
  ISPOverrides :: "u32 \<Rightarrow> isp_rule option"
  Relays :: "string list"
  IPv6Priority :: bool

record selector_input =
  sProfile :: profile
  ASN :: u32
  Probe :: probe_result

record decision =
  dMode :: string
  dPort :: int
  Reason :: string

definition isViable :: "string \<Rightarrow> probe_result \<Rightarrow> bool" where
  "isViable m r =
     (if m = ModeQUICCamouflage then OK (UDP443 r)
      else if m = ModeYandexCDN \<or> m = ModeGosuslugiWS \<or> m = ModeSplitDPI then OK (TCP443 r)
      else if m = ModeDNSTunnel then True
      else if m = ModeAuto then OK (TCP443 r) \<or> OK (UDP443 r)
      else False)"

fun walk_chain :: "string list \<Rightarrow> probe_result \<Rightarrow> int \<Rightarrow> decision" where
  "walk_chain [] r port = \<lparr>dMode = ModeDNSTunnel, dPort = 443, Reason = ''last-resort''\<rparr>"
| "walk_chain (m # ms) r port =
     (if isViable m r then \<lparr>dMode = m, dPort = port, Reason = ''chain''\<rparr> else walk_chain ms r port)"

definition Select :: "selector_input \<Rightarrow> decision" where
  "Select inp =
     (let port = 443 in
      case ISPOverrides (sProfile inp) (ASN inp) of
        Some rule \<Rightarrow>
          if PreferredMode rule \<noteq> [] then
            \<lparr>dMode = PreferredMode rule, dPort = (if rPort rule \<noteq> 0 then rPort rule else port), Reason = ''isp-override''\<rparr>
          else walk_chain (FallbackChain (sProfile inp)) (Probe inp) port
      | None \<Rightarrow> walk_chain (FallbackChain (sProfile inp)) (Probe inp) port)"

subsection \<open>The built-in profiles\<close>

definition ASNMTSRU :: u32 where "ASNMTSRU = 8359"
definition ASNBeelineRU :: u32 where "ASNBeelineRU = 3216"
definition ASNMegafonRU :: u32 where "ASNMegafonRU = 31163"
definition ASNRostelRU :: u32 where "ASNRostelRU = 12389"
definition ASNERTelecomRU :: u32 where "ASNERTelecomRU = 41733"

text \<open>The fields a composite literal leaves out.\<close>

definition zero_rule :: isp_rule where
  "zero_rule = \<lparr>PreferredMode = [], rPort = 0, ExtraFrag = False, TTLManip = False, QUIC = None\<rparr>"

definition DefaultRUProfile :: profile where
  "DefaultRUProfile = \<lparr>Region = ''RU'',
     FallbackChain = [ModeYandexCDN, ModeSplitDPI, ModeGosuslugiWS, ModeQUICCamouflage, ModeDNSTunnel],
     ISPOverrides = [
       ASNMTSRU \<mapsto> zero_rule\<lparr>PreferredMode := ModeSplitDPI, ExtraFrag := True, TTLManip := True\<rparr>,
       ASNBeelineRU \<mapsto> zero_rule\<lparr>PreferredMode := ModeYandexCDN, rPort := 2053, QUIC := Some False\<rparr>,
       ASNMegafonRU \<mapsto> zero_rule\<lparr>PreferredMode := ModeYandexCDN, QUIC := Some False\<rparr>,
       ASNRostelRU \<mapsto> zero_rule\<lparr>PreferredMode := ModeGosuslugiWS, TTLManip := True\<rparr>,
       ASNERTelecomRU \<mapsto> zero_rule\<lparr>PreferredMode := ModeYandexCDN\<rparr>],
     Relays = [], IPv6Priority = True\<rparr>"

definition DefaultIRProfile :: profile where
  "DefaultIRProfile = \<lparr>Region = ''IR'', FallbackChain = [ModeYandexCDN, ModeGosuslugiWS, ModeQUICCamouflage, ModeDNSTunnel],
     ISPOverrides = (\<lambda>_. None), Relays = [], IPv6Priority = False\<rparr>"

definition DefaultCNProfile :: profile where
  "DefaultCNProfile = \<lparr>Region = ''CN'', FallbackChain = [ModeYandexCDN, ModeGosuslugiWS],
     ISPOverrides = (\<lambda>_. None), Relays = [], IPv6Priority = False\<rparr>"

text \<open>\<^verbatim>\<open>newRegionCmd\<close> after the probe; an unknown region is an error that carries the text.\<close>

definition region_command :: "string \<Rightarrow> u32 \<Rightarrow> probe_result \<Rightarrow> string + decision" where
  "region_command region asn r =
     (if region = ''RU'' then Inr (Select \<lparr>sProfile = DefaultRUProfile, ASN = asn, Probe = r\<rparr>)
      else if region = ''IR'' then Inr (Select \<lparr>sProfile = DefaultIRProfile, ASN = asn, Probe = r\<rparr>)
      else if region = ''CN'' then Inr (Select \<lparr>sProfile = DefaultCNProfile, ASN = asn, Probe = r\<rparr>)
      else Inl region)"

lemmas mode_defs = ModeAuto_def ModeYandexCDN_def ModeGosuslugiWS_def ModeSplitDPI_def ModeQUICCamouflage_def ModeDNSTunnel_def

subsection \<open>The chain\<close>

lemma walk_chain_cases:
  obtains pre m post where "ms = pre @ m # post" "isViable m r" "\<forall>m' \<in> set pre. \<not> isViable m' r"
      "walk_chain ms r port = \<lparr>dMode = m, dPort = port, Reason = ''chain''\<rparr>"
    | "\<forall>m' \<in> set ms. \<not> isViable m' r" "walk_chain ms r port = \<lparr>dMode = ModeDNSTunnel, dPort = 443, Reason = ''last-resort''\<rparr>"
proof (induction ms arbitrary: thesis)
  case (Cons m ms)
  show ?case
  proof (cases "isViable m r")
    case True
    then show ?thesis
      using Cons.prems(1) [of "[]" m ms] by simp
  next
    case False
    show ?thesis
    proof (rule Cons.IH)
      fix pre m' post
      assume "ms = pre @ m' # post" "isViable m' r" "\<forall>x \<in> set pre. \<not> isViable x r"
        "walk_chain ms r port = \<lparr>dMode = m', dPort = port, Reason = ''chain''\<rparr>"
      with False Cons.prems(1) [of "m # pre" m' post] show thesis
        by simp
    qed (use False Cons.prems(2) in simp)
  qed
qed simp

definition override_of :: "selector_input \<Rightarrow> isp_rule option" where
  "override_of inp = (case ISPOverrides (sProfile inp) (ASN inp) of
     Some rule \<Rightarrow> if PreferredMode rule \<noteq> [] then Some rule else None | None \<Rightarrow> None)"

lemma Select_override:
  "Select inp = (case override_of inp of
     Some rule \<Rightarrow> \<lparr>dMode = PreferredMode rule, dPort = (if rPort rule = 0 then 443 else rPort rule), Reason = ''isp-override''\<rparr>
   | None \<Rightarrow> walk_chain (FallbackChain (sProfile inp)) (Probe inp) 443)"
  by (simp add: Select_def override_of_def split: option.split)

lemma dns_viable [simp]: "isViable ModeDNSTunnel r"
  by (simp add: isViable_def mode_defs)

subsection \<open>Properties\<close>

text \<open>C40. The selector picks the first viable mode: without an override for the AS number, the decision is the first
  entry of the profile's chain that the probe allows, on port 443, or the DNS tunnel when there is none;
  in both cases the mode is viable. Only an override can pick a mode the probe has ruled out: it is taken
  without looking at the probe, with its own port if it has one.\<close>

theorem Select_first_viable:
  "case override_of inp of
     Some rule \<Rightarrow> dMode (Select inp) = PreferredMode rule \<and> Reason (Select inp) = ''isp-override''
       \<and> dPort (Select inp) = (if rPort rule = 0 then 443 else rPort rule)
   | None \<Rightarrow> isViable (dMode (Select inp)) (Probe inp) \<and> dPort (Select inp) = 443 \<and> Reason (Select inp) \<noteq> ''isp-override''
       \<and> ((\<exists>pre post. FallbackChain (sProfile inp) = pre @ dMode (Select inp) # post
             \<and> (\<forall>m \<in> set pre. \<not> isViable m (Probe inp)))
          \<or> (dMode (Select inp) = ModeDNSTunnel \<and> (\<forall>m \<in> set (FallbackChain (sProfile inp)). \<not> isViable m (Probe inp))))"
proof (cases "override_of inp")
  case None
  then show ?thesis
    by (cases rule: walk_chain_cases [of "FallbackChain (sProfile inp)" "Probe inp" 443])
      (auto simp: Select_override)
qed (simp add: Select_override)

text \<open>Beeline with TCP blocked, and China with TCP blocked.\<close>

definition sample_input :: "profile \<Rightarrow> u32 \<Rightarrow> selector_input" where
  "sample_input prof asn = \<lparr>sProfile = prof, ASN = asn, Probe = empty_result\<lparr>UDP443 := zero_status\<lparr>OK := True\<rparr>\<rparr>\<rparr>"

theorem Select_first_viable_witness:
  "dPort (Select (sample_input DefaultRUProfile 3216)) = 2053
     \<and> \<not> isViable (dMode (Select (sample_input DefaultRUProfile 3216))) (Probe (sample_input DefaultRUProfile 3216))
     \<and> dMode (Select (sample_input DefaultCNProfile 0)) = ModeDNSTunnel"
proof -
  have "override_of (sample_input DefaultRUProfile 3216) = Some (zero_rule\<lparr>PreferredMode := ModeYandexCDN, rPort := 2053, QUIC := Some False\<rparr>)"
    by (simp add: override_of_def sample_input_def DefaultRUProfile_def ASNMTSRU_def ASNBeelineRU_def ASNMegafonRU_def ASNRostelRU_def ASNERTelecomRU_def mode_defs)
  moreover have "\<not> isViable ModeYandexCDN (Probe (sample_input DefaultRUProfile 3216))"
    by (simp add: isViable_def mode_defs sample_input_def empty_result_def zero_status_def)
  moreover have "override_of (sample_input DefaultCNProfile 0) = None"
    by (simp add: override_of_def sample_input_def DefaultCNProfile_def)
  moreover have "FallbackChain (sProfile (sample_input DefaultCNProfile 0)) = [ModeYandexCDN, ModeGosuslugiWS]"
    by (simp add: sample_input_def DefaultCNProfile_def)
  moreover have "\<not> isViable m (Probe (sample_input DefaultCNProfile 0))" if "m \<in> set [ModeYandexCDN, ModeGosuslugiWS]" for m
    using that by (auto simp: isViable_def mode_defs sample_input_def empty_result_def zero_status_def)
  ultimately show ?thesis
    using Select_first_viable [of "sample_input DefaultRUProfile 3216"] Select_first_viable [of "sample_input DefaultCNProfile 0"]
    by (auto simp: Cons_eq_append_conv)
qed

text \<open>What the client's \<^verbatim>\<open>region\<close> command decides for every region, AS number and probe result: an unknown
  region is refused; the five Russian providers with a rule get its mode (Beeline on port 2053) even
  when TCP is blocked; everyone else gets the Yandex CDN mode when TCP 443 is open, and otherwise, in
  Russia and Iran, QUIC when UDP 443 is open, and the DNS tunnel when nothing is; in China always the
  DNS tunnel.\<close>

theorem region_command_table:
  "region_command region asn r =
     (if region \<notin> {''RU'', ''IR'', ''CN''} then Inl region
      else Inr (if region = ''RU'' \<and> asn = 8359 then \<lparr>dMode = ''splitdpi'', dPort = 443, Reason = ''isp-override''\<rparr>
        else if region = ''RU'' \<and> asn = 3216 then \<lparr>dMode = ''yandex_cdn'', dPort = 2053, Reason = ''isp-override''\<rparr>
        else if region = ''RU'' \<and> (asn = 31163 \<or> asn = 41733) then \<lparr>dMode = ''yandex_cdn'', dPort = 443, Reason = ''isp-override''\<rparr>
        else if region = ''RU'' \<and> asn = 12389 then \<lparr>dMode = ''gosuslugi_ws'', dPort = 443, Reason = ''isp-override''\<rparr>
        else if OK (TCP443 r) then \<lparr>dMode = ''yandex_cdn'', dPort = 443, Reason = ''chain''\<rparr>
        else if region \<noteq> ''CN'' \<and> OK (UDP443 r) then \<lparr>dMode = ''quic_camouflage'', dPort = 443, Reason = ''chain''\<rparr>
        else \<lparr>dMode = ''dns_tunnel'', dPort = 443, Reason = (if region = ''CN'' then ''last-resort'' else ''chain'')\<rparr>))"
proof -
  have viable: "isViable ''yandex_cdn'' r = OK (TCP443 r)" "isViable ''splitdpi'' r = OK (TCP443 r)"
    "isViable ''gosuslugi_ws'' r = OK (TCP443 r)" "isViable ''quic_camouflage'' r = OK (UDP443 r)" "isViable ''dns_tunnel'' r"
    by (simp_all add: isViable_def mode_defs)
  have chain: "walk_chain (FallbackChain DefaultRUProfile) r 443 = (if OK (TCP443 r) then \<lparr>dMode = ''yandex_cdn'', dPort = 443, Reason = ''chain''\<rparr>
      else if OK (UDP443 r) then \<lparr>dMode = ''quic_camouflage'', dPort = 443, Reason = ''chain''\<rparr>
      else \<lparr>dMode = ''dns_tunnel'', dPort = 443, Reason = ''chain''\<rparr>)"
    by (simp add: DefaultRUProfile_def mode_defs viable)
  show ?thesis
    by (auto simp: region_command_def Select_def chain DefaultIRProfile_def DefaultCNProfile_def mode_defs viable)
      (auto simp: DefaultRUProfile_def zero_rule_def mode_defs viable ASNMTSRU_def ASNBeelineRU_def ASNMegafonRU_def ASNRostelRU_def ASNERTelecomRU_def)
qed

end
