(* ===== verification/Cli.thy ===== *)
theory Cli
  imports Install ClientCmds ProbeCmd Region
begin

text \<open>
  The command lines of \<^verbatim>\<open>avangard-server\<close> and \<^verbatim>\<open>avangard-client\<close> (\<^verbatim>\<open>cmd/*/main.go\<close>): which flags a command has, their
  defaults, the number of its arguments, and the exit code. The command-line library splits the words: its result is the flags
  that were given, each with a value of its type, and the arguments.
\<close>

subsection \<open>Flags\<close>

record given =
  str_given :: "string \<Rightarrow> string option"
  int_given :: "string \<Rightarrow> int option"
  asn_given :: "string \<Rightarrow> u32 option"
  bool_given :: "string \<Rightarrow> bool option"

definition no_flags :: given where
  "no_flags = \<lparr>str_given = (\<lambda>_. None), int_given = (\<lambda>_. None), asn_given = (\<lambda>_. None), bool_given = (\<lambda>_. None)\<rparr>"

definition or_default :: "'a option \<Rightarrow> 'a \<Rightarrow> 'a" where
  "or_default v d = (case v of None \<Rightarrow> d | Some x \<Rightarrow> x)"

text \<open>\<^verbatim>\<open>cobra.ExactArgs\<close>, and \<^verbatim>\<open>main\<close>: every error of a command ends in exit code 1.\<close>

definition exact_args :: "nat \<Rightarrow> string list \<Rightarrow> string option" where
  "exact_args n args = (if length args = n then None
     else Some (''accepts '' @ itoa_nat n @ '' arg(s), received '' @ itoa_nat (length args)))"

definition exit_code :: "'e + 'a \<Rightarrow> int" where
  "exit_code r = (case r of Inl _ \<Rightarrow> 1 | Inr _ \<Rightarrow> 0)"

subsection \<open>The server's commands\<close>

definition out_flag :: "given \<Rightarrow> string" where "out_flag g = or_default (str_given g ''out'') []"
definition port_flag :: "given \<Rightarrow> int" where "port_flag g = or_default (int_given g ''port'') 443"
definition host_flag :: "given \<Rightarrow> string" where "host_flag g = or_default (str_given g ''host'') ''127.0.0.1''"
definition decoy_flag :: "given \<Rightarrow> string" where "decoy_flag g = or_default (str_given g ''decoy'') ''www.yandex.ru''"

definition newKeygenCmd ::
  "given \<Rightarrow> string + dh_key \<Rightarrow> string \<Rightarrow> string option \<Rightarrow> write_answer \<Rightarrow> disk
     \<Rightarrow> (string + (string \<times> string \<times> string option)) \<times> disk" where
  "newKeygenCmd g = keygen_on_disk (host_flag g) (port_flag g) (decoy_flag g) (out_flag g)"

definition cert_dir :: "given \<Rightarrow> string" where "cert_dir g = or_default (str_given g ''out'') ''/etc/avangard''"
definition cert_name :: "given \<Rightarrow> string" where "cert_name g = or_default (str_given g ''host'') ''localhost''"

definition newSelfCertCmd ::
  "given \<Rightarrow> string + 'k \<Rightarrow> (template \<Rightarrow> 'k \<Rightarrow> string + bytes) \<Rightarrow> ('k \<Rightarrow> bytes) \<Rightarrow> int \<times> int \<times> int
     \<Rightarrow> string option \<Rightarrow> write_answer \<Rightarrow> write_answer \<Rightarrow> disk \<Rightarrow> (string + string) \<times> disk" where
  "newSelfCertCmd g = selfcert (cert_dir g) (cert_name g)"

definition config_flag :: "given \<Rightarrow> string" where "config_flag g = or_default (str_given g ''config'') ''/etc/avangard/server.yaml''"

definition newRunCmd ::
  "given \<Rightarrow> (string \<Rightarrow> string + server_yaml) \<Rightarrow> (bytes \<Rightarrow> bytes \<Rightarrow> string + bytes list) \<Rightarrow> (bytes \<Rightarrow> string + bytes)
     \<Rightarrow> (string \<Rightarrow> string option) \<Rightarrow> (string \<Rightarrow> string option) \<Rightarrow> disk \<Rightarrow> run_err + Commands.running" where
  "newRunCmd g yaml key_pair base_mult listen_udp listen_tcp d =
     run_on_disk yaml key_pair base_mult listen_udp listen_tcp (config_flag g) d"

subsection \<open>The client's commands\<close>

definition transport_flag :: "given \<Rightarrow> string" where "transport_flag g = or_default (str_given g ''transport'') ''tcp''"
definition insecure_flag :: "given \<Rightarrow> bool" where "insecure_flag g = or_default (bool_given g ''insecure'') False"

definition newProbeCmd :: "given \<Rightarrow> string list \<Rightarrow> (probe_result \<Rightarrow> string) \<Rightarrow> nat \<Rightarrow> probe_result \<Rightarrow> int list \<Rightarrow> string list \<Rightarrow> string + string list" where
  "newProbeCmd g args json elapsed r ports refs =
     (case exact_args 1 args of
        Some e \<Rightarrow> Inl e
      | None \<Rightarrow> Inr (probe_command json (hd args) (or_default (bool_given g ''json'') False) elapsed r ports refs))"

definition region_line :: "string \<Rightarrow> u32 \<Rightarrow> decision \<Rightarrow> string" where
  "region_line region asn d = ''region='' @ region @ '' asn='' @ itoa_nat (unat asn) @ '' -> mode='' @ dMode d
     @ '' port='' @ itoa_int (dPort d) @ '' (reason='' @ Reason d @ '')''"

datatype region_err = RegionUsage string | UnknownRegion string

definition newRegionCmd :: "given \<Rightarrow> string list \<Rightarrow> probe_result \<Rightarrow> region_err + string" where
  "newRegionCmd g args r =
     (case exact_args 1 args of
        Some e \<Rightarrow> Inl (RegionUsage e)
      | None \<Rightarrow>
          (let region = or_default (str_given g ''region'') ''RU''; asn = or_default (asn_given g ''asn'') 0
           in map_sum UnknownRegion (region_line region asn) (region_command region asn r)))"

datatype cmd_err = Usage string | Failed_tunnel tunnel_cmd_err

definition newTunnelCmd ::
  "given \<Rightarrow> string list \<Rightarrow> (client_config \<Rightarrow> string option) \<Rightarrow> (Commands.dialer \<Rightarrow> io_err + ('s, 'w) tstream) \<Rightarrow> 's reader \<Rightarrow> 'w writer
     \<Rightarrow> 's \<Rightarrow> 'w \<Rightarrow> (cmd_err + 'w \<times> 'w) option" where
  "newTunnelCmd g args quic_dial dial rd wr stdin stdout =
     (case exact_args 2 args of
        Some e \<Rightarrow> Some (Inl (Usage e))
      | None \<Rightarrow> map_option (map_sum Failed_tunnel id)
          (tunnel_command quic_dial dial rd wr (args ! 0) (args ! 1) (transport_flag g) (insecure_flag g) stdin stdout))"

definition newSocksCmd ::
  "given \<Rightarrow> string list \<Rightarrow> (client_config \<Rightarrow> string option) \<Rightarrow> (nat \<Rightarrow> Commands.dialer \<Rightarrow> io_err + ('s, 'w) tstream) \<Rightarrow> (string \<Rightarrow> string option)
     \<Rightarrow> 's reader \<Rightarrow> 'w writer \<Rightarrow> (string + ('s, 'w) duplex) list \<Rightarrow> string + ('w socks_end \<times> 'w) option list \<times> socks_cmd_end" where
  "newSocksCmd g args quic_dial dial listen rd wr accepted =
     (case exact_args 1 args of
        Some e \<Rightarrow> Inl e
      | None \<Rightarrow> Inr (socks_command quic_dial dial listen rd wr (args ! 0) (or_default (str_given g ''listen'') ''127.0.0.1:1080'')
          (transport_flag g) (insecure_flag g) accepted))"

subsection \<open>Properties\<close>


text \<open>A fresh machine, set up with no other flag than keygen's \<^verbatim>\<open>--out /etc/avangard\<close>; the libraries know one key pair, one
  configuration file and one certificate. The defaults of the commands fit, but the certificate does not carry the name that the client asks for.\<close>

definition sample_pair :: dh_key where
  "sample_pair = \<lparr>Private = replicate 32 1, Public = replicate 32 2\<rparr>"

definition sample_yaml :: "string \<Rightarrow> string + server_yaml" where
  "sample_yaml b = (if b = keygen_body 443 ''www.yandex.ru'' ''/etc/avangard'' (raw_std_encode (Private sample_pair)) (genUUID None 7)
     then Inr (keygen_fields 443 ''www.yandex.ru'' ''/etc/avangard'' (raw_std_encode (Private sample_pair)) (genUUID None 7)) else Inl ''bad'')"

definition sample_disk :: disk where
  "sample_disk = \<lparr>files = (\<lambda>_. None), dirs = (\<lambda>_. None)\<rparr>"

definition sample_flags :: given where
  "sample_flags = no_flags\<lparr>str_given := [''out'' \<mapsto> ''/etc/avangard'']\<rparr>"

lemma sample_flags:
  "host_flag sample_flags = ''127.0.0.1''" "port_flag sample_flags = 443" "decoy_flag sample_flags = ''www.yandex.ru''"
  "out_flag sample_flags = ''/etc/avangard''" "cert_dir no_flags = ''/etc/avangard''" "cert_name no_flags = ''localhost''"
  "config_flag no_flags = ''/etc/avangard/server.yaml''" "transport_flag no_flags = ''tcp''" "\<not> insecure_flag no_flags"
  by (simp_all add: sample_flags_def no_flags_def or_default_def host_flag_def port_flag_def decoy_flag_def out_flag_def cert_dir_def
      cert_name_def config_flag_def transport_flag_def insecure_flag_def)


text \<open>\<open>keygen\<close> without \<^verbatim>\<open>--out\<close> writes no file, and \<open>run\<close> without a file does not start.\<close>

lemma keygen_writes_nothing:
  "out_flag g = [] \<Longrightarrow> snd (newKeygenCmd g generated uid mkdir answer d) = d"
  "files d (path_clean (config_flag g)) = None \<Longrightarrow>
     exit_code (newRunCmd g yaml key_pair base_mult listen_udp listen_tcp d) = 1"
  by (auto simp: newKeygenCmd_def keygen_on_disk_def newRunCmd_def run_on_disk_def server_run_def LoadServer_def loadYAML_def ReadFile_def
      exit_code_def split: sum.splits)

end
