(* ===== verification/Spec2Isabelle.thy ===== *)
theory Spec2Isabelle
  imports ReplayConc Blocklist Relay System SmuxConc Adapters Cli
begin

text \<open>
  Verification development of AVANGARD, a censorship-circumvention tunnel in Go.

  The program. A client asks for a destination; \<^verbatim>\<open>pkg/tunnel/client.go\<close> opens a stream of some transport,
  writes a header (\<^verbatim>\<open>pkg/protocol\<close>) with a token bound to the stream's Noise transcript
  (\<^verbatim>\<open>pkg/auth\<close>), and copies bytes. The server's transports (\<^verbatim>\<open>pkg/transport\<close>: TCP with a decoy, QUIC, SMUX,
  WebSocket) run the Noise NK handshake as responder and hand authenticated streams to the tunnel
  server (\<^verbatim>\<open>pkg/tunnel/server.go\<close>), which checks the token, dials the destination and splices. The
  client side is driven by the \<^verbatim>\<open>avangard://\<close> URI (\<^verbatim>\<open>pkg/uri\<close>), the commands by files and flags
  (\<^verbatim>\<open>pkg/config\<close>, \<^verbatim>\<open>cmd\<close>); \<^verbatim>\<open>pkg/autoprobe\<close> and \<^verbatim>\<open>pkg/regionshield\<close> choose a mode, \<^verbatim>\<open>pkg/replay\<close> and
  \<^verbatim>\<open>pkg/blocklist\<close> are Bloom filters.

  How the code is modelled. A reader is a function from a buffer size and its state to bytes, error and new
  state, a writer likewise; a computation over a reader returns \<open>None\<close> when it does not return, an error or a
  value, and the new state. A handler is a function from its connection and the outcomes of the calls it makes
  (dials, TLS, the race of two goroutines) to the list of its visible actions in order. Goroutines that share
  state are step relations, with properties for every reachable state. Errors are datatypes with the code's cases;
  machine integers are words, or integers with the wrap-around written out; an index or slice out of range is
  \<open>None\<close>. Go strings are byte sequences, written as \<open>string\<close> where they are text.

  The theories and the sources they translate:
  \<^item> Library: \<open>Base\<close> (slices, big-endian integers, bytes and text); \<open>Reader\<close> (\<^verbatim>\<open>io.ReadFull\<close>, the locale
    \<open>byte_source\<close> with its interpretation on network segments, refinement of a reading loop by a function of the
    byte stream); \<open>IoCopy\<close> (\<^verbatim>\<open>io.Copy\<close>, the locales \<open>byte_sink\<close>, \<open>open_sink\<close>, \<open>byte_copy\<close> and \<open>open_copy\<close>); \<open>GoNum\<close>, \<open>GoNet\<close>, \<open>GoStrings\<close>,
    \<open>GoUrl\<close>, \<open>Base64\<close> (the parts of \<^verbatim>\<open>strconv\<close>, \<^verbatim>\<open>net\<close>, \<^verbatim>\<open>strings\<close>, \<^verbatim>\<open>net/url\<close> and \<^verbatim>\<open>encoding/base64\<close> that are called, after
    the standard library of the Go version in \<^verbatim>\<open>go.mod\<close>; later patch releases refuse more bracketed hosts);
    \<open>Sha256\<close> (SHA-256 and HMAC, executable).
  \<^item> \<open>Protocol\<close>: \<^verbatim>\<open>pkg/protocol/header.go\<close>. \<open>Token\<close>: \<^verbatim>\<open>pkg/auth/token.go\<close>. \<open>Noise\<close>: \<^verbatim>\<open>pkg/auth/noise.go\<close>.
  \<^item> \<open>Bitset\<close>, \<open>Replay\<close>, \<open>ReplayConc\<close>: \<^verbatim>\<open>pkg/replay/bloom.go\<close>, sequentially and with concurrent calls.
  \<^item> \<open>Sni\<close>, \<open>TcpServer\<close>: \<^verbatim>\<open>pkg/transport/tcp/sni.go\<close> and \<^verbatim>\<open>server.go\<close>. \<open>Ws\<close>: the stream adapter of
    \<^verbatim>\<open>pkg/transport/ws/ws.go\<close>. \<open>Clients\<close>: \<^verbatim>\<open>NewClient\<close> of the transports, \<^verbatim>\<open>Dial\<close> of the TCP and SMUX clients,
    \<^verbatim>\<open>pkg/utlsx\<close>. \<open>Carriers\<close>: \<^verbatim>\<open>Listen\<close>, accept loops and handlers of the servers, \<^verbatim>\<open>Dial\<close> over QUIC and WebSocket.
  \<^item> \<open>Tunnel\<close>, \<open>Listener\<close>: \<^verbatim>\<open>pkg/tunnel\<close>, request handling and the listeners that feed it, and the \<^verbatim>\<open>Close\<close>
    methods of the transports. \<open>Queue\<close>: the queue between a transport's handlers and its \<^verbatim>\<open>Accept\<close>; what a handler
    in \<open>TcpServer\<close> or \<open>Carriers\<close> is told by the argument \<open>queued\<close> is which of its steps is taken. \<open>Pipeline\<close> puts these
    together: queues, composite listener, \<^verbatim>\<open>Serve\<close> and the signal goroutine of \<^verbatim>\<open>run\<close> as one transition system. \<open>System\<close> adds
    the connections at one end, with their handlers of \<open>Carriers\<close> and \<open>TcpServer\<close>, and the tunnel handlers at the other: the running
    server as a whole, in any interleaving of any number of connections and tunnels.
  \<^item> \<open>Endpoints\<close>: what the transports configure TLS and SMUX with, \<^verbatim>\<open>utlsx.New\<close> and the copies of \<^verbatim>\<open>dialTLS\<close>, of the accept
    loop and of \<^verbatim>\<open>Accept\<close>, with the proof that the copies agree; \<^verbatim>\<open>Close\<close>, addresses, request routing. \<open>Adapters\<close>: the four stream
    types and the interface \<^verbatim>\<open>TunnelStream\<close> as the locale \<open>tunnel_stream\<close>, which each of them interprets.
  \<^item> \<open>SmuxConc\<close>: \<^verbatim>\<open>Dial\<close> and \<^verbatim>\<open>Close\<close> of one SMUX client called by many goroutines, a step for each access to its fields.
  \<^item> \<open>Relay\<close>: the two copying goroutines and the closing order of \<^verbatim>\<open>handleConnect\<close>, \<^verbatim>\<open>handleSOCKS\<close> and the \<^verbatim>\<open>tunnel\<close>
    command as a step relation, for any number of relays in a row, with half-closed and lost connections.
  \<^item> \<open>Iface\<close>: values of an interface type, which hold one of two kinds of streams, so that a handler can serve a WebSocket on one
    side and a TCP connection on the other. \<open>EndToEnd\<close>: both sides of each transport joined with the tunnel; its
    \<open>serves\<close> is the specification of the server's handler that the end-to-end properties share.
  \<^item> \<open>Socks\<close>: the SOCKS5 server of \<^verbatim>\<open>cmd/avangard-client/main.go\<close>. \<open>Commands\<close>: key generation, \<^verbatim>\<open>run\<close> and the client's
    dialer (\<^verbatim>\<open>cmd\<close>). \<open>Install\<close>: what \<^verbatim>\<open>keygen\<close> and \<^verbatim>\<open>selfcert\<close> leave on the disk for \<^verbatim>\<open>run\<close>, with \<^verbatim>\<open>filepath.Join\<close>.
    \<open>ClientCmds\<close>: the \<^verbatim>\<open>tunnel\<close> and \<^verbatim>\<open>socks5\<close> commands. \<open>ProbeCmd\<close>: the \<^verbatim>\<open>probe\<close> command and what it prints.
    \<open>Cli\<close>: the command lines of both programs, with flags, defaults and argument counts. \<open>Config\<close>: \<^verbatim>\<open>pkg/config\<close>. \<open>Uri\<close>: \<^verbatim>\<open>pkg/uri\<close>.
  \<^item> \<open>Autoprobe\<close>, \<open>Region\<close>: \<^verbatim>\<open>pkg/autoprobe\<close>, \<^verbatim>\<open>pkg/regionshield\<close>. \<open>Blocklist\<close>: \<^verbatim>\<open>pkg/blocklist\<close>.

  What is shown. For the tunnel: end to end, bytes reach exactly the requested destination (below for QUIC with
  its handshake, in \<open>EndToEnd\<close> for WebSocket, SMUX and TLS over TCP, in \<open>ClientCmds\<close> from a SOCKS5 application on);
  relays keep every byte in order, and one relay finishes, but two in a row need not end with the conversation;
  the running server loses no stream on the way from a transport to its tunnel handler, serves each one once, and dials nothing but
  the decoy and the destinations of authorised requests (\<open>System\<close>); nothing leaves the server without a valid token; every
  handler returns and closes what it opened; concurrent calls on a SMUX client take effect one after the other. For the formats: round trips, exactness and refinement of the
  reading loops by functions of the byte stream, so that segmentation does not matter. For the filters: no
  accepted replay within the window, also concurrently; no false negatives; no index out of range. For the TCP front:
  the server name is found, the decoy sees the client's bytes, only configured names get a TLS answer. For the
  commands: a machine set up by the program's own command lines serves the URI that was printed. For the probes: \<open>Run\<close> terminates, its result does not
  depend on the interleaving, and it is what the \<^verbatim>\<open>probe\<close> command prints. The findings among these (a replay window that accepts a far future time, zero bytes
  replayed to the decoy, a double close, lost question marks, and others) are stated inside the properties.

  Interfaces. \<open>byte_source\<close>, \<open>byte_sink\<close> and their combination \<open>byte_copy\<close> are the contracts between the
  connections and the code that reads and writes them; they are interpreted on network segments, on the peeked
  connection of the TCP front, on WebSocket messages and on a peer that stops taking bytes. \<open>open_copy\<close> adds sinks that
  take everything while they are open, which carries the tunnel handler over to every pair of streams; \<open>two_copies\<close> is
  the sum of two such interfaces. \<open>tunnel_stream\<close> is what a transport's stream type promises the tunnel: its reads and
  writes are those of two independent directions, and its channel binding never changes. Both Bloom filters
  are interpretations of \<open>approx_set\<close>, the contract of a set without false negatives.

  Loops. Reading loops and \<^verbatim>\<open>io.Copy\<close> are \<open>partial_function (option)\<close>; they are shown to return on every byte source,
  whose measure decreases with each read. Other loops are structural or have a measure. No fuel is used.

  Parameters. Code outside the repository is an argument: the Noise library (with the hypothesis \<open>nk_completes\<close> on an
  undisturbed exchange), Curve25519, TLS, uTLS, QUIC, SMUX, HTTP upgrade, YAML, XML tokens, Unicode case tables, the
  operating system's sockets, files, clock and random source.

  Not modelled: log lines; the splitting of a command line into flags and arguments, and JSON output, which are libraries;
  deadlines that expire inside a
  read (a read error stands for them); accessors that only forward to a library (single deadlines, local addresses);
  buffer and time limits of the HTTP and QUIC libraries; and symbolic links on the disk. In \<open>System\<close> a tunnel handler is one step, because
  tunnels share nothing with each other; its own interleavings are those of \<open>Relay\<close>.
\<close>

text \<open>C1. From the client's socket to the destination and back, over QUIC: let the client hold the public key and
  the prologue of the server and one of its UUIDs, and let the Noise library complete an exchange whose messages
  arrive unchanged. Then there are two handshake messages and a request such that, in whatever segments the
  network delivers the client's bytes (the first message, the request, any payload) and the server's (the second
  message, any answer), the client's \<open>Dial\<close> and \<open>DialTunnel\<close> succeed and have written exactly the first message and the
  request, the server hands out one authenticated stream, and its tunnel handler dials exactly the requested
  host and port, sends it the payload without a byte of the handshake or the request, sends its answer back
  behind the second handshake message, and closes both connections; a failed dial closes the stream.\<close>

theorem quic_tunnel_end_to_end:
  assumes noise: "nk_completes lib (sStatic q) (sPrologue q) cli_hello srv_hello" "length (Public (sStatic q)) = 32"
    and client: "ServerStaticPub cfg = Public (sStatic q)" "CPrologue cfg = sPrologue q"
    and uuid: "u \<in> set (acceptedUUIDs srv)"
    and dest: "encodeDest h = Inr (atyp, addr)" "CHR ''['' \<notin> set h" "CHR '']'' \<notin> set h" "p < 65536"
  shows "\<exists>m1 m2 request_bytes. \<forall>up down payload answer e1 e2.
    concat up = frame m1 @ request_bytes @ payload \<and> concat down = frame m2 @ answer \<longrightarrow>
    (\<exists>cts cts' ts.
       quic_Dial lib seg_read peer_write cfg (Inr \<lparr>rx = (down, e1), tx = ([], None)\<rparr>) = Some (Inr cts, [])
     \<and> DialTunnel \<lparr>uuid = u\<rparr> peer_write (Inr cts) (join_host_port h (itoa_nat p)) = (Inr cts', False)
     \<and> fst (tx cts') = frame m1 @ request_bytes \<and> conn_content (rx cts') = answer
     \<and> quic_handleStream q lib seg_read peer_write True \<lparr>rx = (up, e2), tx = ([], None)\<rparr> = Some [Hand ts]
     \<and> tx ts = (frame m2, None)
     \<and> serves srv dial ts (target_of h p) payload)"
proof -
  obtain m1 m2 c1 c2 ch where run: "nk_run lib (sStatic q) (sPrologue q) cli_hello srv_hello m1 m2 c1 c2 ch"
    using nk_run_ex [OF noise(1)] by blast
  obtain out where req: "encode (request \<lparr>uuid = u\<rparr> ch atyp addr (word_of_nat p)) = Inr out"
    "\<And>(r :: conn) w. DialTunnel \<lparr>uuid = u\<rparr> peer_write (Inr \<lparr>rx = r, tx = (w, None), Channel = ch\<rparr>)
      (join_host_port h (itoa_nat p)) = (Inr \<lparr>rx = r, tx = (w @ out, None), Channel = ch\<rparr>, False)"
    using DialTunnel_writes [OF dest, of "\<lparr>uuid = u\<rparr>" ch] by blast
  show ?thesis
  proof (rule exI [of _ m1], rule exI [of _ m2], rule exI [of _ out], intro allI impI, elim conjE)
    fix up down :: "bytes list" and payload answer e1 e2
    assume io: "concat up = frame m1 @ out @ payload" "concat down = frame m2 @ answer"
    obtain s1 s2 where s: "quic_Dial lib seg_read peer_write cfg (Inr \<lparr>rx = (down, e1), tx = ([], None)\<rparr>)
        = Some (Inr \<lparr>rx = s1, tx = (frame m1, None), Channel = ch\<rparr>, [])"
      "quic_handleStream q lib seg_read peer_write True \<lparr>rx = (up, e2), tx = ([], None)\<rparr>
        = Some [Hand \<lparr>rx = s2, tx = (frame m2, None), Channel = ch\<rparr>]"
      "conn_content s1 = answer" "conn_content s2 = out @ payload"
      using quic_session [OF run noise(2) client io, of e1 e2] by blast
    have served: "serves srv dial \<lparr>rx = s2, tx = (frame m2, None), Channel = ch\<rparr> (target_of h p) payload"
      by (rule stream_served [OF dest(1,4), of "\<lparr>uuid = u\<rparr>" _ out]) (use req(1) uuid s(4) in simp_all)
    show "\<exists>cts cts' ts.
       quic_Dial lib seg_read peer_write cfg (Inr \<lparr>rx = (down, e1), tx = ([], None)\<rparr>) = Some (Inr cts, [])
     \<and> DialTunnel \<lparr>uuid = u\<rparr> peer_write (Inr cts) (join_host_port h (itoa_nat p)) = (Inr cts', False)
     \<and> fst (tx cts') = frame m1 @ out \<and> conn_content (rx cts') = answer
     \<and> quic_handleStream q lib seg_read peer_write True \<lparr>rx = (up, e2), tx = ([], None)\<rparr> = Some [Hand ts]
     \<and> tx ts = (frame m2, None) \<and> serves srv dial ts (target_of h p) payload"
      by (intro exI [of _ "\<lparr>rx = s1, tx = (frame m1, None), Channel = ch\<rparr>"] exI [of _ "\<lparr>rx = s1, tx = (frame m1 @ out, None), Channel = ch\<rparr>"]
          exI [of _ "\<lparr>rx = s2, tx = (frame m2, None), Channel = ch\<rparr>"] conjI s(1,2) req(2) served) (simp_all add: s(3))
  qed
qed

theorem quic_tunnel_end_to_end_witness:
  "\<exists>m1 m2 request_bytes cts cts' ts v w.
     quic_Dial plain_lib seg_read peer_write sample_ccfg (Inr \<lparr>rx = ([frame m2 @ [9]], EOF), tx = ([], None)\<rparr>) = Some (Inr cts, [])
   \<and> DialTunnel \<lparr>uuid = ''id''\<rparr> peer_write (Inr cts) ''a.b:443'' = (Inr cts', False)
   \<and> fst (tx cts') = frame m1 @ request_bytes \<and> conn_content (rx cts') = [9]
   \<and> quic_handleStream sample_scfg plain_lib seg_read peer_write True
        \<lparr>rx = ([frame m1, request_bytes, [42]], EOF), tx = ([], None)\<rparr> = Some [Hand ts]
   \<and> handle \<lparr>acceptedUUIDs = [''id'']\<rparr> seg_read peer_write sample_dial False ts
        = Some [Dial ''a.b:443'', Splice v w, CloseUpstream, CloseStream]
   \<and> fst v = [42]"
proof -
  have dest: "CHR ''['' \<notin> set ''a.b''" "CHR '']'' \<notin> set ''a.b''" "(443 :: nat) < 65536"
    by simp_all
  show ?thesis
    using quic_tunnel_end_to_end [OF sample_session sample_dests(1) dest, of sample_dial] unfolding sample_target(1) sample_dests(5)
  proof (elim exE, goal_cases)
    case (1 m1 m2 rq)
    have io: "concat [frame m1, rq, [42]] = frame m1 @ rq @ [42] \<and> concat [frame m2 @ [9]] = frame m2 @ [9]"
      by simp
    from 1 [rule_format, OF io, of EOF EOF] show ?case
      by (fastforce dest: serves_sample)
  qed
qed

end
